(* ===== verification/Prelude.thy ===== *)
theory Prelude
  imports Main "HOL-Library.Word"
begin

text \<open>
  Shared vocabulary of the development: the fragment of the Rust standard library that the
  modelled code uses, and the generic facts about it.

  \<^item> A Rust \<open>str\<close>, \<open>String\<close>, \<open>[u8]\<close> or \<open>Vec<u8>\<close> is a
    \<^typ>\<open>string\<close>, that is a list of 8-bit characters: the bytes of the (UTF-8) text.
  \<^item> \<open>std::time::Duration\<close> is a number of nanoseconds, and an \<open>Instant\<close> (or a
    \<open>BootTime\<close>) is the number of nanoseconds since some fixed origin.
    \<open>Instant::duration_since\<close> saturates at zero, which is subtraction on
    \<^typ>\<open>nat\<close>.
  \<^item> A \<open>u64\<close> or \<open>usize\<close> that is only counted up is a \<^typ>\<open>nat\<close> with
    saturation written out; a \<open>u16\<close> port is a 16-bit word.
  \<^item> A \<open>Vec\<close> is a list, in insertion order; \<open>retain\<close> is
    \<^const>\<open>filter\<close> and \<open>iter().find\<close> is \<^const>\<open>List.find\<close>.
\<close>

section \<open>Collections of rules\<close>

named_theorems ascii_defs \<open>definitions of the ASCII character classes\<close>
named_theorems time_defs \<open>definitions of the operations on instants and durations\<close>

section \<open>Fallible results\<close>

text \<open>Rust's \<open>Result\<close>, with \<open>?\<close> as \<open>and_then\<close>.\<close>

datatype ('a, 'e) result = Ok 'a | Err 'e

fun and_then :: "('a, 'e) result \<Rightarrow> ('a \<Rightarrow> ('b, 'e) result) \<Rightarrow> ('b, 'e) result" where
  "and_then (Ok x) f = f x"
| "and_then (Err e) f = Err e"

fun ok_or :: "'e \<Rightarrow> 'a option \<Rightarrow> ('a, 'e) result" where
  "ok_or e (Some x) = Ok x"
| "ok_or e None = Err e"

fun is_ok :: "('a, 'e) result \<Rightarrow> bool" where
  "is_ok (Ok x) = True"
| "is_ok (Err e) = False"

lemma and_then_Ok: "and_then r f = Ok y \<longleftrightarrow> (\<exists>x. r = Ok x \<and> f x = Ok y)"
  by (cases r) auto

lemma and_then_Err: "and_then r f = Err e \<longleftrightarrow> r = Err e \<or> (\<exists>x. r = Ok x \<and> f x = Err e)"
  by (cases r) auto

lemma ok_or_Ok [simp]: "ok_or e r = Ok x \<longleftrightarrow> r = Some x"
  by (cases r) auto

lemma ok_or_Err [simp]: "ok_or e r = Err e' \<longleftrightarrow> r = None \<and> e' = e"
  by (cases r) auto

lemma is_ok_iff: "is_ok r \<longleftrightarrow> (\<exists>x. r = Ok x)"
  by (cases r) auto

section \<open>Time\<close>

type_synonym instant = nat
type_synonym duration = nat

definition nanos_per_sec :: nat where
  "nanos_per_sec = 1000000000"

definition from_secs :: "nat \<Rightarrow> duration" where
  "from_secs s = s * nanos_per_sec"

definition from_millis :: "nat \<Rightarrow> duration" where
  "from_millis ms = ms * 1000000"

definition as_secs :: "duration \<Rightarrow> nat" where
  "as_secs d = d div nanos_per_sec"

definition duration_since :: "instant \<Rightarrow> instant \<Rightarrow> duration" where
  "duration_since now earlier = now - earlier"

definition checked_duration_since :: "instant \<Rightarrow> instant \<Rightarrow> duration option" where
  "checked_duration_since now earlier = (if earlier \<le> now then Some (now - earlier) else None)"

text \<open>An \<open>Instant\<close> counts whole seconds in an \<open>i64\<close>; adding past its range is
  \<open>None\<close> for \<open>checked_add\<close>.\<close>

definition instant_limit :: instant where
  "instant_limit = 2 ^ 63 * nanos_per_sec"

definition instant_checked_add :: "instant \<Rightarrow> duration \<Rightarrow> instant option" where
  "instant_checked_add t d = (if t + d < instant_limit then Some (t + d) else None)"

lemmas time_ops [time_defs] =
  nanos_per_sec_def from_secs_def from_millis_def as_secs_def duration_since_def
  checked_duration_since_def instant_limit_def instant_checked_add_def

lemma as_secs_from_secs [simp]: "as_secs (from_secs s) = s"
  by (simp add: time_defs)

lemma from_secs_mono [simp]: "from_secs a \<le> from_secs b \<longleftrightarrow> a \<le> b"
  by (simp add: time_defs)

lemma as_secs_mono: "a \<le> b \<Longrightarrow> as_secs a \<le> as_secs b"
  by (simp add: time_defs div_le_mono)

lemma instant_checked_add_Some:
  "instant_checked_add t d = Some e \<longleftrightarrow> e = t + d \<and> t + d < instant_limit"
  by (auto simp: instant_checked_add_def)

section \<open>Saturating counters\<close>

definition u64_max :: nat where
  "u64_max = 2 ^ 64 - 1"

definition sat_add64 :: "nat \<Rightarrow> nat \<Rightarrow> nat" where
  "sat_add64 a b = min (a + b) u64_max"

definition sat_mul64 :: "nat \<Rightarrow> nat \<Rightarrow> nat" where
  "sat_mul64 a b = min (a * b) u64_max"

lemma sat_add64_le [simp]: "sat_add64 a b \<le> u64_max"
  by (simp add: sat_add64_def)

lemma sat_add64_Suc [simp]: "a < u64_max \<Longrightarrow> sat_add64 a (Suc 0) = Suc a"
  by (simp add: sat_add64_def)

lemma sat_add64_ge: "a \<le> u64_max \<Longrightarrow> a \<le> sat_add64 a b"
  by (simp add: sat_add64_def)

lemma sat_add64_eq_iff: "a \<le> u64_max \<Longrightarrow> sat_add64 a (Suc 0) = a \<longleftrightarrow> a = u64_max"
  by (auto simp: sat_add64_def min_def)

section \<open>ASCII character classes\<close>

definition char_code :: "char \<Rightarrow> nat" where
  [ascii_defs]: "char_code c = of_char c"

definition in_range :: "nat \<Rightarrow> nat \<Rightarrow> char \<Rightarrow> bool" where
  [ascii_defs]: "in_range lo hi c \<longleftrightarrow> lo \<le> char_code c \<and> char_code c \<le> hi"

definition is_ascii :: "char \<Rightarrow> bool" where
  [ascii_defs]: "is_ascii c \<longleftrightarrow> char_code c < 128"

definition is_ascii_digit :: "char \<Rightarrow> bool" where
  [ascii_defs]: "is_ascii_digit c \<longleftrightarrow> in_range 48 57 c"

definition is_ascii_lowercase :: "char \<Rightarrow> bool" where
  [ascii_defs]: "is_ascii_lowercase c \<longleftrightarrow> in_range 97 122 c"

definition is_ascii_uppercase :: "char \<Rightarrow> bool" where
  [ascii_defs]: "is_ascii_uppercase c \<longleftrightarrow> in_range 65 90 c"

definition is_ascii_alphabetic :: "char \<Rightarrow> bool" where
  [ascii_defs]: "is_ascii_alphabetic c \<longleftrightarrow> is_ascii_lowercase c \<or> is_ascii_uppercase c"

definition is_ascii_alphanumeric :: "char \<Rightarrow> bool" where
  [ascii_defs]: "is_ascii_alphanumeric c \<longleftrightarrow> is_ascii_alphabetic c \<or> is_ascii_digit c"

definition is_ascii_hexdigit :: "char \<Rightarrow> bool" where
  [ascii_defs]: "is_ascii_hexdigit c \<longleftrightarrow>
     is_ascii_digit c \<or> in_range 97 102 c \<or> in_range 65 70 c"

definition is_ascii_graphic :: "char \<Rightarrow> bool" where
  [ascii_defs]: "is_ascii_graphic c \<longleftrightarrow> in_range 33 126 c"

definition to_ascii_uppercase :: "char \<Rightarrow> char" where
  "to_ascii_uppercase c = (if is_ascii_lowercase c then char_of (char_code c - 32) else c)"

definition to_ascii_lowercase :: "char \<Rightarrow> char" where
  "to_ascii_lowercase c = (if is_ascii_uppercase c then char_of (char_code c + 32) else c)"

lemma char_code_less [simp]: "char_code c < 256"
  by (simp add: char_code_def)

lemma char_code_inject [simp]: "char_code c = char_code d \<longleftrightarrow> c = d"
  by (simp add: char_code_def)

lemma char_code_char_of: "n < 256 \<Longrightarrow> char_code (char_of n) = n"
  by (simp add: char_code_def)

lemma char_of_char_code [simp]: "char_of (char_code c) = c"
  by (simp add: char_code_def)

lemma char_eqI: "char_code c = char_code d \<Longrightarrow> c = d"
  by simp

section \<open>Searching and splitting byte strings\<close>

fun split_on :: "'a \<Rightarrow> 'a list \<Rightarrow> 'a list list" where
  "split_on c [] = [[]]"
| "split_on c (x # xs) =
     (if x = c then [] # split_on c xs
      else (case split_on c xs of [] \<Rightarrow> [[x]] | y # ys \<Rightarrow> (x # y) # ys))"

fun split_once :: "'a \<Rightarrow> 'a list \<Rightarrow> ('a list \<times> 'a list) option" where
  "split_once c [] = None"
| "split_once c (x # xs) =
     (if x = c then Some ([], xs)
      else map_option (\<lambda>(a, b). (x # a, b)) (split_once c xs))"

fun strip_prefix :: "'a list \<Rightarrow> 'a list \<Rightarrow> 'a list option" where
  "strip_prefix [] s = Some s"
| "strip_prefix (p # ps) [] = None"
| "strip_prefix (p # ps) (x # xs) = (if p = x then strip_prefix ps xs else None)"

definition strip_suffix :: "'a list \<Rightarrow> 'a list \<Rightarrow> 'a list option" where
  "strip_suffix p s = map_option rev (strip_prefix (rev p) (rev s))"

definition starts_with :: "'a list \<Rightarrow> 'a list \<Rightarrow> bool" where
  "starts_with p s \<longleftrightarrow> strip_prefix p s \<noteq> None"

text \<open>\<open>str::split_once\<close> with a string pattern: the first place the pattern occurs.\<close>

fun split_once_str :: "'a list \<Rightarrow> 'a list \<Rightarrow> ('a list \<times> 'a list) option" where
  "split_once_str p [] = (if p = [] then Some ([], []) else None)"
| "split_once_str p (x # xs) =
     (case strip_prefix p (x # xs) of
        Some rest \<Rightarrow> Some ([], rest)
      | None \<Rightarrow> map_option (\<lambda>(a, b). (x # a, b)) (split_once_str p xs))"

lemma strip_prefix_Some: "strip_prefix p s = Some t \<longleftrightarrow> s = p @ t"
  by (induction p s rule: strip_prefix.induct) auto

lemma strip_prefix_append [simp]: "strip_prefix p (p @ t) = Some t"
  by (simp add: strip_prefix_Some)

lemma strip_prefix_self [simp]: "strip_prefix p p = Some []"
  by (simp add: strip_prefix_Some)

lemma strip_suffix_Some: "strip_suffix p s = Some t \<longleftrightarrow> s = t @ p"
proof
  assume "strip_suffix p s = Some t"
  then obtain u where "rev s = rev p @ u" and "t = rev u"
    by (auto simp: strip_suffix_def strip_prefix_Some)
  then show "s = t @ p" by (metis rev_append rev_rev_ident)
next
  assume "s = t @ p"
  then show "strip_suffix p s = Some t" by (simp add: strip_suffix_def)
qed

lemma strip_suffix_append [simp]: "strip_suffix p (t @ p) = Some t"
  by (simp add: strip_suffix_Some)

lemma starts_with_iff: "starts_with p s \<longleftrightarrow> (\<exists>t. s = p @ t)"
  by (auto simp: starts_with_def strip_prefix_Some)

lemma starts_with_append [simp]: "starts_with p (p @ t)"
  by (auto simp: starts_with_iff)

lemma split_on_not_Nil [simp]: "split_on c xs \<noteq> []"
  by (induction xs) (auto split: list.splits)

lemma split_on_no_sep: "c \<notin> set xs \<Longrightarrow> split_on c xs = [xs]"
  by (induction xs) auto

lemma split_on_append: "c \<notin> set xs \<Longrightarrow> split_on c (xs @ c # ys) = xs # split_on c ys"
  by (induction xs) auto

lemma split_on_parts: "part \<in> set (split_on c xs) \<Longrightarrow> c \<notin> set part"
  by (induction xs arbitrary: part) (fastforce split: list.splits if_splits)+

text \<open>Joining with the separator is a right inverse of splitting when no part holds it.\<close>

fun join_with :: "'a \<Rightarrow> 'a list list \<Rightarrow> 'a list" where
  "join_with c [] = []"
| "join_with c [x] = x"
| "join_with c (x # y # ys) = x @ c # join_with c (y # ys)"

lemma split_on_join_with:
  "parts \<noteq> [] \<Longrightarrow> (\<And>p. p \<in> set parts \<Longrightarrow> c \<notin> set p) \<Longrightarrow>
   split_on c (join_with c parts) = parts"
  by (induction c parts rule: join_with.induct) (auto simp: split_on_no_sep split_on_append)

lemma join_with_split_on [simp]: "join_with c (split_on c xs) = xs"
proof (induction xs)
  case (Cons x xs)
  obtain y ys where s: "split_on c xs = y # ys"
    by (cases "split_on c xs") auto
  with Cons have "join_with c (y # ys) = xs" by simp
  with s show ?case by (cases ys) auto
qed simp

lemma split_once_Some: "split_once c s = Some (a, b) \<longleftrightarrow> s = a @ c # b \<and> c \<notin> set a"
proof (induction s arbitrary: a)
  case Nil
  then show ?case by simp
next
  case (Cons x xs)
  show ?case
  proof (cases "x = c")
    case True
    then show ?thesis by (cases a) auto
  next
    case False
    then show ?thesis
      using Cons.IH by (cases a) (auto split: option.splits)
  qed
qed

lemma split_once_append [simp]: "c \<notin> set a \<Longrightarrow> split_once c (a @ c # b) = Some (a, b)"
  by (simp add: split_once_Some)

lemma first_sep_unique:
  "c \<notin> set a \<Longrightarrow> c \<notin> set a' \<Longrightarrow> a @ c # b = a' @ c # b' \<longleftrightarrow> a = a' \<and> b = b'"
  by (metis split_once_append option.inject prod.inject)

lemma split_once_None: "split_once c s = None \<longleftrightarrow> c \<notin> set s"
  by (induction s) auto

lemma split_once_str_sound: "split_once_str p s = Some (a, b) \<Longrightarrow> s = a @ p @ b"
proof (induction p s arbitrary: a rule: split_once_str.induct)
  case (1 p)
  then show ?case by (auto split: if_splits)
next
  case (2 p x xs)
  then show ?case
    by (cases "strip_prefix p (x # xs)") (auto simp: strip_prefix_Some)
qed

text \<open>A pattern starts a later match only inside text that holds its first character.\<close>

lemma split_once_str_append:
  assumes "p \<noteq> []" and "hd p \<notin> set a"
  shows "split_once_str p (a @ p @ b) = Some (a, b)"
  using assms
proof (induction a)
  case Nil
  then obtain q qs where p: "p = q # qs" by (cases p) auto
  have "strip_prefix p (p @ b) = Some b" by simp
  then show ?case unfolding p by simp
next
  case (Cons x a)
  then have "strip_prefix p ((x # a) @ p @ b) = None"
    by (cases p) auto
  with Cons show ?case by simp
qed

section \<open>Decimal numbers\<close>

definition digit_val :: "char \<Rightarrow> nat" where
  "digit_val c = char_code c - 48"

definition digit_char :: "nat \<Rightarrow> char" where
  "digit_char d = char_of (48 + d)"

definition dec_value :: "string \<Rightarrow> nat" where
  "dec_value ds = foldl (\<lambda>n c. 10 * n + digit_val c) 0 ds"

text \<open>\<open>to_string\<close> of an unsigned integer.\<close>

fun show_nat :: "nat \<Rightarrow> string" where
  "show_nat n = (if n < 10 then [digit_char n] else show_nat (n div 10) @ [digit_char (n mod 10)])"

declare show_nat.simps [simp del]

text \<open>
  \<open>str::parse\<close> for an unsigned type with largest value \<open>mx\<close>: an optional \<open>+\<close>, then
  one or more digits, and no overflow.
\<close>

definition parse_uint :: "nat \<Rightarrow> string \<Rightarrow> nat option" where
  "parse_uint mx s =
     (let ds = (case s of [] \<Rightarrow> [] | c # rest \<Rightarrow> if c = CHR ''+'' then rest else s)
      in if ds = [] \<or> \<not> list_all is_ascii_digit ds then None
         else if dec_value ds \<le> mx then Some (dec_value ds) else None)"

text \<open>\<open>str::parse\<close> for \<open>i32\<close>: the sign may also be \<open>-\<close>.\<close>

definition parse_i32 :: "string \<Rightarrow> int option" where
  "parse_i32 s =
     (let (neg, ds) = (case s of [] \<Rightarrow> (False, [])
                       | c # rest \<Rightarrow> if c = CHR ''+'' then (False, rest)
                                   else if c = CHR ''-'' then (True, rest) else (False, s));
          v = (if neg then - int (dec_value ds) else int (dec_value ds))
      in if ds = [] \<or> \<not> list_all is_ascii_digit ds then None
         else if - (2 ^ 31) \<le> v \<and> v < 2 ^ 31 then Some v else None)"

lemma digit_val_digit_char: "d < 10 \<Longrightarrow> digit_val (digit_char d) = d"
  by (simp add: digit_val_def digit_char_def char_code_char_of)

lemma is_ascii_digit_digit_char: "d < 10 \<Longrightarrow> is_ascii_digit (digit_char d)"
  by (simp add: digit_char_def is_ascii_digit_def in_range_def char_code_char_of)

lemma digit_char_digit_val: "is_ascii_digit c \<Longrightarrow> digit_char (digit_val c) = c"
  by (simp add: digit_char_def digit_val_def is_ascii_digit_def in_range_def)

lemma digit_val_less: "is_ascii_digit c \<Longrightarrow> digit_val c < 10"
  by (auto simp: digit_val_def is_ascii_digit_def in_range_def)

lemma dec_value_snoc [simp]: "dec_value (ds @ [c]) = 10 * dec_value ds + digit_val c"
  by (simp add: dec_value_def)

lemma dec_value_show_nat [simp]: "dec_value (show_nat n) = n"
proof (induction n rule: show_nat.induct)
  case (1 n)
  then show ?case
    by (subst show_nat.simps)
      (auto simp: dec_value_def digit_val_digit_char)
qed

lemma show_nat_digits [simp]: "list_all is_ascii_digit (show_nat n)"
proof (induction n rule: show_nat.induct)
  case (1 n)
  then show ?case
    by (subst show_nat.simps) (auto simp: is_ascii_digit_digit_char)
qed

lemma show_nat_not_Nil [simp]: "show_nat n \<noteq> []"
  by (subst show_nat.simps) simp

lemma show_nat_inject [simp]: "show_nat m = show_nat n \<longleftrightarrow> m = n"
  by (metis dec_value_show_nat)

lemma digit_not_sign: "is_ascii_digit c \<Longrightarrow> c \<noteq> CHR ''+'' \<and> c \<noteq> CHR ''-''"
  by (auto simp: ascii_defs)

lemma parse_uint_digits:
  assumes "list_all is_ascii_digit ds" and "ds \<noteq> []"
  shows "parse_uint mx ds = (if dec_value ds \<le> mx then Some (dec_value ds) else None)"
proof -
  obtain c cs where ds: "ds = c # cs" using assms(2) by (cases ds) auto
  with assms(1) have "c \<noteq> CHR ''+''" by (auto dest: digit_not_sign)
  with assms show ?thesis by (simp add: parse_uint_def Let_def ds)
qed

lemma parse_uint_show_nat [simp]: "parse_uint mx (show_nat n) = (if n \<le> mx then Some n else None)"
  by (simp add: parse_uint_digits)

lemma parse_i32_show_nat: "n < 2 ^ 31 \<Longrightarrow> parse_i32 (show_nat n) = Some (int n)"
proof -
  assume "n < 2 ^ 31"
  obtain c cs where "show_nat n = c # cs" "is_ascii_digit c"
    using show_nat_not_Nil [of n] show_nat_digits [of n] by (cases "show_nat n") auto
  then show ?thesis
    using \<open>n < 2 ^ 31\<close> show_nat_digits [of n] dec_value_show_nat [of n] digit_not_sign [of c]
    by (simp add: parse_i32_def)
qed

lemma parse_uint_le: "parse_uint mx s = Some n \<Longrightarrow> n \<le> mx"
  by (auto simp: parse_uint_def Let_def split: if_splits)

lemma length_show_nat: "n < 10 ^ k \<Longrightarrow> 0 < k \<Longrightarrow> length (show_nat n) \<le> k"
proof (induction n arbitrary: k rule: show_nat.induct)
  case (1 n)
  show ?case
  proof (cases "n < 10")
    case True
    with "1.prems" show ?thesis by (subst show_nat.simps) simp
  next
    case False
    with "1.prems" have "k \<noteq> 1" by auto
    with "1.prems" obtain j where k: "k = Suc (Suc j)"
      by (metis One_nat_def gr0_implies_Suc old.nat.exhaust)
    with "1.prems" have "n div 10 < 10 ^ Suc j" by (simp add: div_less_iff_less_mult)
    with "1.IH" [OF False, of "Suc j"] have "length (show_nat (n div 10)) \<le> Suc j" by simp
    with False k show ?thesis by (subst show_nat.simps) simp
  qed
qed

section \<open>UTF-8\<close>

text \<open>\<open>std::str::from_utf8\<close> accepts exactly the well-formed byte sequences of the Unicode
  standard (no overlong form, no surrogate, nothing above U+10FFFF).\<close>

definition utf8_cont :: "nat \<Rightarrow> bool" where
  "utf8_cont b \<longleftrightarrow> 128 \<le> b \<and> b \<le> 191"

fun utf8_valid_bytes :: "nat list \<Rightarrow> bool" where
  "utf8_valid_bytes [] = True"
| "utf8_valid_bytes (a # s) =
     (if a < 128 then utf8_valid_bytes s
      else case s of
        [] \<Rightarrow> False
      | b # s2 \<Rightarrow>
         if 194 \<le> a \<and> a \<le> 223 then utf8_cont b \<and> utf8_valid_bytes s2
         else (case s2 of
           [] \<Rightarrow> False
         | c # s3 \<Rightarrow>
            if 224 \<le> a \<and> a \<le> 239 then
              utf8_cont b \<and> utf8_cont c \<and> (a = 224 \<longrightarrow> 160 \<le> b) \<and> (a = 237 \<longrightarrow> b \<le> 159)
              \<and> utf8_valid_bytes s3
            else (case s3 of
              [] \<Rightarrow> False
            | d # s4 \<Rightarrow>
               240 \<le> a \<and> a \<le> 244 \<and> utf8_cont b \<and> utf8_cont c \<and> utf8_cont d
               \<and> (a = 240 \<longrightarrow> 144 \<le> b) \<and> (a = 244 \<longrightarrow> b \<le> 143) \<and> utf8_valid_bytes s4)))"

definition utf8_valid :: "string \<Rightarrow> bool" where
  "utf8_valid s \<longleftrightarrow> utf8_valid_bytes (map char_code s)"

lemma utf8_valid_ascii: "list_all is_ascii s \<Longrightarrow> utf8_valid s"
  unfolding utf8_valid_def by (induction s) (auto simp: is_ascii_def)

text \<open>
  \<open>String::from_utf8_lossy\<close>: every maximal invalid sequence becomes U+FFFD.  A step looks at the
  head of the bytes and says whether it is a valid character and how many bytes it consumes.
\<close>

definition utf8_second_ok :: "nat \<Rightarrow> nat \<Rightarrow> bool" where
  "utf8_second_ok a b \<longleftrightarrow>
     (if a = 224 then 160 \<le> b \<and> b \<le> 191
      else if a = 237 then 128 \<le> b \<and> b \<le> 159
      else if a = 240 then 144 \<le> b \<and> b \<le> 191
      else if a = 244 then 128 \<le> b \<and> b \<le> 143
      else utf8_cont b)"

fun utf8_step :: "nat list \<Rightarrow> bool \<times> nat" where
  "utf8_step [] = (False, 0)"
| "utf8_step (a # s) =
     (if a < 128 then (True, 1)
      else if a < 194 \<or> 244 < a then (False, 1)
      else case s of
        [] \<Rightarrow> (False, 1)
      | b # s2 \<Rightarrow>
          if \<not> utf8_second_ok a b then (False, 1)
          else if a < 224 then (True, 2)
          else case s2 of
            [] \<Rightarrow> (False, 2)
          | c # s3 \<Rightarrow>
              if \<not> utf8_cont c then (False, 2)
              else if a < 240 then (True, 3)
              else case s3 of
                [] \<Rightarrow> (False, 3)
              | d # s4 \<Rightarrow> if utf8_cont d then (True, 4) else (False, 3))"

fun lossy_rounds :: "nat \<Rightarrow> nat list \<Rightarrow> nat list" where
  "lossy_rounds 0 s = []"
| "lossy_rounds (Suc n) s =
     (if s = [] then []
      else let (ok, k) = utf8_step s
           in (if ok then take k s else [239, 191, 189]) @ lossy_rounds n (drop k s))"

definition from_utf8_lossy :: "string \<Rightarrow> string" where
  "from_utf8_lossy s = map char_of (lossy_rounds (length s) (map char_code s))"

section \<open>White space\<close>

text \<open>
  The UTF-8 sequences of the characters \<open>char::is_whitespace\<close> accepts, and \<open>str::trim\<close> and its
  one-sided forms on them.
\<close>

definition white_seqs :: "nat list list" where
  "white_seqs =
     map (\<lambda>b. [b]) [9, 10, 11, 12, 13, 32] @ [[194, 133], [194, 160], [225, 154, 128]]
     @ map (\<lambda>b. [226, 128, b]) [128, 129, 130, 131, 132, 133, 134, 135, 136, 137, 138, 168, 169, 175]
     @ [[226, 129, 159], [227, 128, 128]]"

definition white_strings :: "string list" where
  "white_strings = map (map char_of) white_seqs"

fun strip_any :: "'a list list \<Rightarrow> 'a list \<Rightarrow> 'a list option" where
  "strip_any [] s = None"
| "strip_any (p # ps) s = (case strip_prefix p s of Some t \<Rightarrow> Some t | None \<Rightarrow> strip_any ps s)"

text \<open>Each round strips one character, so as many rounds as there are bytes are enough.\<close>

fun strip_rounds :: "nat \<Rightarrow> 'a list list \<Rightarrow> 'a list \<Rightarrow> 'a list" where
  "strip_rounds 0 ps s = s"
| "strip_rounds (Suc n) ps s = (case strip_any ps s of None \<Rightarrow> s | Some t \<Rightarrow> strip_rounds n ps t)"

definition trim_start :: "string \<Rightarrow> string" where
  "trim_start s = strip_rounds (length s) white_strings s"

definition trim_end :: "string \<Rightarrow> string" where
  "trim_end s = rev (strip_rounds (length s) (map rev white_strings) (rev s))"

definition trim :: "string \<Rightarrow> string" where
  "trim s = trim_end (trim_start s)"

text \<open>\<open>str::split_whitespace\<close>: the maximal runs without white space, one byte or one space a round.\<close>

definition emit :: "string \<Rightarrow> string list \<Rightarrow> string list" where
  "emit word words = (if word = [] then words else word # words)"

fun split_ws_rounds :: "nat \<Rightarrow> string \<Rightarrow> string \<Rightarrow> string list" where
  "split_ws_rounds 0 word s = emit word []"
| "split_ws_rounds (Suc n) word s =
     (case s of
        [] \<Rightarrow> emit word []
      | c # rest \<Rightarrow>
          (case strip_any white_strings s of
             Some t \<Rightarrow> emit word (split_ws_rounds n [] t)
           | None \<Rightarrow> split_ws_rounds n (word @ [c]) rest))"

definition split_whitespace :: "string \<Rightarrow> string list" where
  "split_whitespace s = split_ws_rounds (Suc (length s)) [] s"

definition nth_opt :: "'a list \<Rightarrow> nat \<Rightarrow> 'a option" where
  "nth_opt xs i = (if i < length xs then Some (xs ! i) else None)"

lemma strip_any_None: "strip_any ps s = None \<longleftrightarrow> (\<forall>p \<in> set ps. \<not> starts_with p s)"
  by (induction ps) (auto simp: starts_with_def split: option.splits)

lemma strip_any_Some: "strip_any ps s = Some t \<Longrightarrow> \<exists>p \<in> set ps. s = p @ t"
  by (induction ps) (auto simp: strip_prefix_Some split: option.splits)

lemma strip_rounds_done:
  "[] \<notin> set ps \<Longrightarrow> length s \<le> n \<Longrightarrow> strip_any ps (strip_rounds n ps s) = None"
proof (induction n arbitrary: s)
  case 0
  then show ?case
    by (auto simp: strip_any_None starts_with_iff)
next
  case (Suc n)
  show ?case
  proof (cases "strip_any ps s")
    case (Some t)
    then obtain p where p: "p \<in> set ps" "s = p @ t"
      using strip_any_Some by blast
    then have "p \<noteq> []"
      using Suc.prems by metis
    then have "length t \<le> n"
      using Suc.prems p(2) by (auto simp: neq_Nil_conv)
    then show ?thesis
      using Suc Some by simp
  qed simp
qed

lemma strip_rounds_suffix: "\<exists>u. s = u @ strip_rounds n ps s"
proof (induction n arbitrary: s)
  case (Suc n)
  show ?case
  proof (cases "strip_any ps s")
    case (Some t)
    then obtain p where "s = p @ t"
      using strip_any_Some by blast
    moreover obtain u where "t = u @ strip_rounds n ps t"
      using Suc by blast
    ultimately show ?thesis
      using Some by (intro exI [of _ "p @ u"]) simp
  qed auto
qed simp

lemma white_strings_heads: "list_all (\<lambda>p. p \<noteq> [] \<and> \<not> is_ascii_graphic (hd p)) white_strings"
  by code_simp

lemma strip_any_graphic: "is_ascii_graphic c \<Longrightarrow> strip_any white_strings (c # s) = None"
  using white_strings_heads by (auto simp: strip_any_None starts_with_iff list_all_iff Cons_eq_append_conv)

lemma white_strings_singles:
  "white_strings = [[CHR 0x09], [CHR 0x0A], [CHR 0x0B], [CHR 0x0C], [CHR 0x0D], [CHR '' '']] @ drop 6 white_strings"
  by code_simp

lemma strip_any_space: "strip_any white_strings (CHR '' '' # s) = Some s"
  by (subst white_strings_singles) simp

lemma split_ws_rounds_fuel:
  "length s < n \<Longrightarrow> length s < m \<Longrightarrow> split_ws_rounds n word s = split_ws_rounds m word s"
proof (induction n arbitrary: word s m)
  case (Suc n)
  then obtain m' where m: "m = Suc m'"
    by (cases m) auto
  show ?case
  proof (cases s)
    case (Cons c rest)
    have "length t \<le> length rest" if "strip_any white_strings s = Some t" for t
    proof -
      obtain p where "p \<in> set white_strings" "s = p @ t"
        using strip_any_Some \<open>strip_any white_strings s = Some t\<close> by blast
      moreover from this have "p \<noteq> []"
        using white_strings_heads by (auto simp: list_all_iff)
      ultimately show ?thesis
        using Cons by (auto simp: neq_Nil_conv)
    qed
    then show ?thesis
      using Suc.prems Suc.IH [of _ m'] Cons m by (fastforce split: option.splits)
  qed (simp add: m)
qed simp

lemma split_ws_rounds_word:
  assumes "list_all is_ascii_graphic w" and "length w + length s < n" and "acc @ w \<noteq> []"
  shows "split_ws_rounds (Suc n) acc (w @ CHR '' '' # s) = (acc @ w) # split_whitespace s"
  using assms
proof (induction w arbitrary: n acc)
  case Nil
  then show ?case
    using split_ws_rounds_fuel [of s n "Suc (length s)" "[]"]
    by (simp add: strip_any_space emit_def split_whitespace_def)
next
  case (Cons c w)
  then obtain m where "n = Suc m"
    by (cases n) auto
  then show ?case
    using Cons by (simp add: strip_any_graphic)
qed

lemma split_whitespace_word:
  "list_all is_ascii_graphic w \<Longrightarrow> w \<noteq> [] \<Longrightarrow> split_whitespace (w @ '' '' @ s) = w # split_whitespace s"
  using split_ws_rounds_word [of w s "length (w @ '' '' @ s)" "[]"]
  by (simp add: split_whitespace_def del: split_ws_rounds.simps)

section \<open>Updating the first match of a vector\<close>

text \<open>\<open>if let Some(x) = v.iter_mut().find(p) { ... }\<close>: the first element satisfying \<open>p\<close>
  is updated in place.\<close>

fun map_first :: "('a \<Rightarrow> bool) \<Rightarrow> ('a \<Rightarrow> 'a) \<Rightarrow> 'a list \<Rightarrow> 'a list" where
  "map_first P f [] = []"
| "map_first P f (x # xs) = (if P x then f x # xs else x # map_first P f xs)"

lemma length_map_first [simp]: "length (map_first P f xs) = length xs"
  by (induction xs) auto

lemma map_map_first: "(\<And>x. P x \<Longrightarrow> g (f x) = g x) \<Longrightarrow> map g (map_first P f xs) = map g xs"
  by (induction xs) auto

lemma find_map_first:
  "(\<And>x. P x \<Longrightarrow> P (f x)) \<Longrightarrow> find P (map_first P f xs) = map_option f (find P xs)"
  by (induction xs) auto

lemma find_map_first_other:
  "(\<And>x. P x \<Longrightarrow> \<not> Q x \<and> \<not> Q (f x)) \<Longrightarrow> find Q (map_first P f xs) = find Q xs"
  by (induction xs) auto

lemma set_map_first_subset: "set (map_first P f xs) \<subseteq> set xs \<union> f ` {x \<in> set xs. P x}"
  by (induction xs) auto

lemma in_set_map_first:
  "y \<in> set (map_first P f xs) \<Longrightarrow> y \<in> set xs \<or> (\<exists>x \<in> set xs. P x \<and> y = f x)"
  using set_map_first_subset [of P f xs] by auto

lemma find_None_iff_notin: "find (\<lambda>x. g x = k) xs = None \<longleftrightarrow> k \<notin> g ` set xs"
  by (auto simp: find_None_iff)

lemma find_SomeD: "find P xs = Some x \<Longrightarrow> x \<in> set xs \<and> P x"
  by (induction xs) (auto split: if_splits)

lemma find_distinct:
  "distinct (map g xs) \<Longrightarrow> x \<in> set xs \<Longrightarrow> g x = k \<Longrightarrow> find (\<lambda>y. g y = k) xs = Some x"
  by (induction xs) (auto simp: image_iff)

lemma find_filter_keep:
  "(\<And>x. x \<in> set xs \<Longrightarrow> P x \<Longrightarrow> Q x) \<Longrightarrow> find P (filter Q xs) = find P xs"
  by (induction xs) auto

lemma find_filter_drop:
  "(\<And>x. x \<in> set xs \<Longrightarrow> P x \<Longrightarrow> \<not> Q x) \<Longrightarrow> find P (filter Q xs) = None"
  by (induction xs) auto

lemma find_append: "find P (xs @ ys) = (case find P xs of Some x \<Rightarrow> Some x | None \<Rightarrow> find P ys)"
  by (induction xs) auto

end
