(* ===== verification/Interfaces.thy ===== *)
theory Interfaces
  imports Prelude
begin

text \<open>
  Contracts that several components share, each a locale that the component theories interpret on
  their own definitions.

  \<^item> \<open>codec\<close>: a printer and a partial parser that inverts it on well-formed values.  The hex
    encoding, the protocol error codes, the authority events, the broker responses, the
    store's file names and the capability key names interpret it.
  \<^item> \<open>canonical_codec\<close>: the parser accepts nothing but what the printer writes.
  \<^item> \<open>expiring_cache\<close>: a keyed table whose entries have a hard lifetime.  The broker relies on it
    for cached plaintext; the grant table provides it.
  \<^item> \<open>invariant_system\<close>: an initial state, a step relation and a predicate that every step
    keeps.  The request queue, the broker and the bridge interpret it.
  \<^item> \<open>simulation\<close>: a refinement mapping between two transition systems, one concrete step being any
    number of abstract ones.  The broker interprets it over the request queue.
\<close>

section \<open>Printers and parsers\<close>

locale codec =
  fixes valid :: "'a \<Rightarrow> bool"
    and print :: "'a \<Rightarrow> string"
    and parse :: "string \<Rightarrow> 'a option"
  assumes parse_print: "valid x \<Longrightarrow> parse (print x) = Some x"
begin

lemma print_inject: "valid x \<Longrightarrow> valid y \<Longrightarrow> print x = print y \<longleftrightarrow> x = y"
  by (metis parse_print option.inject)

lemma inj_on_print: "inj_on print {x. valid x}"
  by (auto simp: inj_on_def print_inject)

lemma print_in_dom: "valid x \<Longrightarrow> parse (print x) \<noteq> None"
  by (simp add: parse_print)

end

locale canonical_codec = codec +
  assumes parse_sound: "parse s = Some x \<Longrightarrow> valid x \<and> print x = s"
begin

lemma parse_Some_iff: "parse s = Some x \<longleftrightarrow> valid x \<and> s = print x"
  using parse_sound parse_print by blast

lemma parse_inject: "parse s = Some x \<Longrightarrow> parse t = Some x \<Longrightarrow> s = t"
  by (auto simp: parse_Some_iff)

lemma parse_None_iff: "parse s = None \<longleftrightarrow> (\<forall>x. valid x \<longrightarrow> print x \<noteq> s)"
  using parse_Some_iff by (metis not_None_eq)

end

section \<open>Caches with a hard lifetime\<close>

locale expiring_cache =
  fixes inv :: "'t \<Rightarrow> bool"
    and get :: "'t \<Rightarrow> 'k \<Rightarrow> instant \<Rightarrow> 'v option"
    and put :: "'k \<Rightarrow> 'v \<Rightarrow> instant \<Rightarrow> duration \<Rightarrow> 't \<Rightarrow> 't"
    and del :: "'k \<Rightarrow> 't \<Rightarrow> 't"
    and sweep :: "instant \<Rightarrow> 't \<Rightarrow> 't"
  assumes inv_put: "inv t \<Longrightarrow> inv (put k v c ttl t)"
    and inv_del: "inv t \<Longrightarrow> inv (del k t)"
    and inv_sweep: "inv t \<Longrightarrow> inv (sweep now t)"
    and get_put: "inv t \<Longrightarrow> get (put k v c ttl t) k' now =
          (if k' = k then if now - c < ttl then Some v else None else get t k' now)"
    and get_del: "inv t \<Longrightarrow> get (del k t) k' now = (if k' = k then None else get t k' now)"
    and get_sweep: "inv t \<Longrightarrow> now \<le> now' \<Longrightarrow> get (sweep now t) k now' = get t k now'"
    and get_antimono: "inv t \<Longrightarrow> get t k now' = Some v \<Longrightarrow> now \<le> now' \<Longrightarrow> get t k now = Some v"
begin

lemma get_put_expired: "inv t \<Longrightarrow> c + ttl \<le> now \<Longrightarrow> get (put k v c ttl t) k now = None"
  by (simp add: get_put)

lemma get_put_fresh: "inv t \<Longrightarrow> c \<le> now \<Longrightarrow> now < c + ttl \<Longrightarrow> get (put k v c ttl t) k now = Some v"
  by (auto simp: get_put)

lemma get_del_put: "inv t \<Longrightarrow> get (del k (put k v c ttl t)) k now = None"
  by (simp add: get_del inv_put)

lemma expired_stays: "inv t \<Longrightarrow> get t k now = None \<Longrightarrow> now \<le> now' \<Longrightarrow> get t k now' = None"
  using get_antimono [of t k now'] by (metis option.exhaust)

lemma put_put: "inv t \<Longrightarrow> get (put k w d ttl' (put k v c ttl t)) k' now = get (put k w d ttl' t) k' now"
  by (simp add: get_put inv_put)

end

section \<open>Transition systems\<close>

text \<open>The states a step relation reaches from a predicate of initial states.\<close>

inductive reach :: "('s \<Rightarrow> bool) \<Rightarrow> ('s \<Rightarrow> 's \<Rightarrow> bool) \<Rightarrow> 's \<Rightarrow> bool"
  for init :: "'s \<Rightarrow> bool" and step :: "'s \<Rightarrow> 's \<Rightarrow> bool" where
  reach_init: "init s \<Longrightarrow> reach init step s"
| reach_step: "reach init step s \<Longrightarrow> step s t \<Longrightarrow> reach init step t"

locale invariant_system =
  fixes init :: "'s \<Rightarrow> bool"
    and step :: "'s \<Rightarrow> 's \<Rightarrow> bool"
    and inv :: "'s \<Rightarrow> bool"
  assumes inv_init: "init s \<Longrightarrow> inv s"
    and inv_step: "inv s \<Longrightarrow> step s t \<Longrightarrow> inv t"
begin

lemma reach_inv: "reach init step s \<Longrightarrow> inv s"
  by (induction rule: reach.induct) (auto intro: inv_init inv_step)

lemma steps_inv: "step\<^sup>*\<^sup>* s t \<Longrightarrow> inv s \<Longrightarrow> inv t"
  by (induction rule: rtranclp_induct) (auto intro: inv_step)

end

lemma reach_steps: "step\<^sup>*\<^sup>* s t \<Longrightarrow> reach init step s \<Longrightarrow> reach init step t"
  by (induction rule: rtranclp_induct) (auto intro: reach_step)

locale simulation =
  fixes init\<^sub>c :: "'s \<Rightarrow> bool"
    and step\<^sub>c :: "'s \<Rightarrow> 's \<Rightarrow> bool"
    and init\<^sub>a :: "'a \<Rightarrow> bool"
    and step\<^sub>a :: "'a \<Rightarrow> 'a \<Rightarrow> bool"
    and view :: "'s \<Rightarrow> 'a"
  assumes sim_init: "init\<^sub>c s \<Longrightarrow> init\<^sub>a (view s)"
    and sim_step: "step\<^sub>c s t \<Longrightarrow> step\<^sub>a\<^sup>*\<^sup>* (view s) (view t)"
begin

lemma reach_view: "reach init\<^sub>c step\<^sub>c s \<Longrightarrow> reach init\<^sub>a step\<^sub>a (view s)"
  by (induction rule: reach.induct) (auto intro: reach_init sim_init reach_steps sim_step)

lemma steps_view: "step\<^sub>c\<^sup>*\<^sup>* s t \<Longrightarrow> step\<^sub>a\<^sup>*\<^sup>* (view s) (view t)"
  by (induction rule: rtranclp_induct) (auto intro: rtranclp_trans sim_step)

end

end
