(* ===== verification/Hex.thy ===== *)
theory Hex
  imports Interfaces
begin

unbundle bit_operations_syntax

text \<open>
  Hex encoding of fixed-width credentials: \<open>crates/hygiene/src/hex.rs\<close>.

  Bytes are 8-bit words.  \<open>encode\<close> writes the two nibbles of each byte through the static digit
  table; \<open>decode_exact\<close> checks the length the caller states and every digit before it fills the
  slots.  The theory shows that decoding inverts encoding, that a decoded credential always has
  exactly the stated width, and which strings are accepted at all.
\<close>

type_synonym byte = "8 word"

section \<open>Definitions\<close>

definition HEX_DIGITS :: string where
  "HEX_DIGITS = ''0123456789abcdef''"

definition hex_digit :: "byte \<Rightarrow> char" where
  "hex_digit n = HEX_DIGITS ! unat n"

fun encode :: "byte list \<Rightarrow> string" where
  "encode [] = []"
| "encode (b # bs) = hex_digit (drop_bit 4 b) # hex_digit (b AND 0x0f) # encode bs"

text \<open>The value of one hex digit of either case, \<open>char::to_digit(16)\<close>.\<close>

definition hex_val :: "char \<Rightarrow> nat" where
  "hex_val c =
     (if is_ascii_digit c then char_code c - 48
      else if in_range 97 102 c then char_code c - 87
      else char_code c - 55)"

text \<open>
  \<open>u8::from_str_radix(_, 16)\<close>: a leading \<open>+\<close> is allowed, at least one digit must follow, and the
  value has to fit a byte.
\<close>

definition u8_from_str_radix16 :: "string \<Rightarrow> byte option" where
  "u8_from_str_radix16 s =
     (let ds = (case s of [] \<Rightarrow> [] | c # rest \<Rightarrow> if c = CHR ''+'' then rest else s)
      in if ds = [] \<or> \<not> list_all is_ascii_hexdigit ds then None
         else let n = foldl (\<lambda>n c. 16 * n + hex_val c) 0 ds
              in if n < 256 then Some (of_nat n) else None)"

text \<open>The loop over the zeroed slots zipped with the two-character chunks of the text.\<close>

fun decode_slots :: "nat \<Rightarrow> string \<Rightarrow> byte list option" where
  "decode_slots 0 raw = Some []"
| "decode_slots (Suc n) (a # b # rest) =
     (case u8_from_str_radix16 [a, b] of
        None \<Rightarrow> None
      | Some slot \<Rightarrow> map_option ((#) slot) (decode_slots n rest))"
| "decode_slots (Suc n) raw = Some (replicate (Suc n) 0)"

definition decode_exact :: "string \<Rightarrow> nat \<Rightarrow> byte list option" where
  "decode_exact raw expected_len =
     (if length raw \<noteq> sat_mul64 expected_len 2 \<or> \<not> list_all is_ascii_hexdigit raw then None
      else decode_slots expected_len raw)"

section \<open>Digits\<close>

lemma hex_digit_val_table:
  "n < 16 \<Longrightarrow> is_ascii_hexdigit (HEX_DIGITS ! n) \<and> hex_val (HEX_DIGITS ! n) = n
    \<and> \<not> is_ascii_uppercase (HEX_DIGITS ! n)"
proof -
  assume "n < 16"
  have "list_all (\<lambda>n. is_ascii_hexdigit (HEX_DIGITS ! n) \<and> hex_val (HEX_DIGITS ! n) = n
    \<and> \<not> is_ascii_uppercase (HEX_DIGITS ! n)) [0..<16]"
    by code_simp
  then show ?thesis
    using \<open>n < 16\<close> by (simp add: list_all_iff)
qed

lemma unat_nibbles:
  fixes b :: byte
  shows "unat (drop_bit 4 b) = unat b div 16" and "unat (b AND 0x0f) = unat b mod 16"
proof -
  show "unat (drop_bit 4 b) = unat b div 16"
    by (simp add: drop_bit_eq_div unat_div_distrib)
  have "b AND 0x0f = take_bit 4 b"
    by (simp add: take_bit_eq_mask mask_eq_exp_minus_1)
  then show "unat (b AND 0x0f) = unat b mod 16"
    by (simp add: take_bit_eq_mod unat_mod_distrib)
qed

lemma hex_digit_high:
  "is_ascii_hexdigit (hex_digit (drop_bit 4 b))" "hex_val (hex_digit (drop_bit 4 b)) = unat b div 16"
proof -
  have "unat b div 16 < 16"
    using unsigned_less [where 'a = nat, of b] by simp
  then show "is_ascii_hexdigit (hex_digit (drop_bit 4 b))"
    and "hex_val (hex_digit (drop_bit 4 b)) = unat b div 16"
    using hex_digit_val_table [of "unat b div 16"] by (simp_all add: hex_digit_def unat_nibbles)
qed

lemma hex_digit_low:
  "is_ascii_hexdigit (hex_digit (b AND 0x0f))" "hex_val (hex_digit (b AND 0x0f)) = unat b mod 16"
  using hex_digit_val_table [of "unat b mod 16"] by (simp_all add: hex_digit_def unat_nibbles)

lemma hexdigit_not_plus: "is_ascii_hexdigit c \<Longrightarrow> c \<noteq> CHR ''+''"
  by (auto simp: ascii_defs)

lemma hex_val_less: "is_ascii_hexdigit c \<Longrightarrow> hex_val c < 16"
  by (auto simp: hex_val_def is_ascii_hexdigit_def is_ascii_digit_def in_range_def)

lemma u8_pair:
  assumes "is_ascii_hexdigit a" and "is_ascii_hexdigit b"
  shows "u8_from_str_radix16 [a, b] = Some (of_nat (16 * hex_val a + hex_val b))"
  using assms hex_val_less [OF assms(1)] hex_val_less [OF assms(2)]
  by (simp add: u8_from_str_radix16_def hexdigit_not_plus)

section \<open>Encoding and decoding\<close>

lemma length_encode [simp]: "length (encode bs) = 2 * length bs"
  by (induction bs) auto

lemma encode_hexdigits [simp]: "list_all is_ascii_hexdigit (encode bs)"
  by (induction bs) (auto simp: hex_digit_high hex_digit_low)

lemma encode_chars: "c \<in> set (encode bs) \<Longrightarrow> is_ascii_hexdigit c"
  using encode_hexdigits [of bs] by (auto simp: list_all_iff)

lemma encode_append: "encode (xs @ ys) = encode xs @ encode ys"
  by (induction xs) auto

lemma decode_slots_encode: "decode_slots (length bs) (encode bs) = Some bs"
proof (induction bs)
  case (Cons b bs)
  have "of_nat (16 * (unat b div 16) + unat b mod 16) = b"
    by simp
  then show ?case
    using Cons by (simp add: u8_pair hex_digit_high hex_digit_low del: of_nat_add of_nat_mult)
qed simp

lemma decode_slots_length: "decode_slots n raw = Some bs \<Longrightarrow> length bs = n"
  by (induction n raw arbitrary: bs rule: decode_slots.induct) (auto split: option.splits)

lemma decode_slots_hexdigits:
  "length raw = 2 * n \<Longrightarrow> list_all is_ascii_hexdigit raw \<Longrightarrow> \<exists>bs. decode_slots n raw = Some bs"
  by (induction n raw rule: decode_slots.induct) (auto simp: u8_pair)

lemma decode_exact_iff:
  assumes "2 * n \<le> u64_max"
  shows "(\<exists>bs. decode_exact raw n = Some bs) \<longleftrightarrow> length raw = 2 * n \<and> list_all is_ascii_hexdigit raw"
  using assms decode_slots_hexdigits [of raw n] by (auto simp: decode_exact_def sat_mul64_def mult.commute)

lemma decode_exact_encode: "2 * length bs \<le> u64_max \<Longrightarrow> decode_exact (encode bs) (length bs) = Some bs"
  by (simp add: decode_exact_def decode_slots_encode sat_mul64_def mult.commute)

lemma decode_exact_length: "decode_exact raw n = Some bs \<Longrightarrow> length bs = n"
  by (auto simp: decode_exact_def decode_slots_length split: if_splits)

lemma decode_exact_encode_32: "length bs = 32 \<Longrightarrow> decode_exact (encode bs) 32 = Some bs"
  using decode_exact_encode [of bs] by (simp add: u64_max_def)

interpretation hex32: codec "\<lambda>bs. length bs = 32" encode "\<lambda>raw. decode_exact raw 32"
  by unfold_locales (metis decode_exact_encode_32)

lemmas encode_32_inject = hex32.print_inject

section \<open>Properties\<close>

text \<open>Fixed-width credentials survive hex: decoding the encoding of \<open>n\<close> bytes to \<open>n\<close> bytes gives
  them back, a text decodes at all exactly when it is \<open>2 n\<close> hex digits of either case, and a decoded
  credential always has the stated width.\<close>

theorem hex_round_trip:
  assumes "2 * n \<le> u64_max"
  shows "(length bs = n \<longrightarrow> decode_exact (encode bs) n = Some bs)
         \<and> ((\<exists>out. decode_exact raw n = Some out) \<longleftrightarrow> length raw = 2 * n \<and> list_all is_ascii_hexdigit raw)
         \<and> (\<forall>out. decode_exact raw n = Some out \<longrightarrow> length out = n)"
  using assms decode_exact_encode [of bs] decode_exact_iff [OF assms, of raw] decode_exact_length [of raw n]
  by blast

theorem hex_round_trip_witness:
  "decode_exact (encode [0xde, 0xad]) 2 = Some [0xde, 0xad] \<and> (\<exists>out. decode_exact ''DEad'' 2 = Some out)"
proof -
  have "list_all is_ascii_hexdigit ''DEad''"
    by code_simp
  then show ?thesis
    using hex_round_trip [of 2 "[0xde, 0xad]" "''DEad''"] by (simp add: u64_max_def)
qed

end
