(* ===== verification/Wire.thy ===== *)
theory Wire
  imports Interfaces
begin

text \<open>
  The broker's line protocol, version 4: \<open>crates/proto/src/lib.rs\<close>,
  \<open>crates/proto/src/response.rs\<close>, \<open>crates/proto/src/client.rs\<close>,
  \<open>crates/proto/src/client/stream.rs\<close> (the client's half), and
  \<open>crates/secrets/src/proto/request.rs\<close>, \<open>crates/secrets/src/proto/response.rs\<close> (the broker's half).

  A frame is a byte string, modelled as \<^typ>\<open>string\<close>.  A connection that is being read is a
  list of events, one per byte delivered or error raised, each with the clock reading the reader
  sees before it; a list that has run out is a peer that closed.  The theory shows the round
  trips between the two halves, that the streaming reader agrees with the slice parser, and what
  the frame grammar accepts.
\<close>

section \<open>Vocabulary (\<open>proto/src/lib.rs\<close>)\<close>

definition PROTOCOL_VERSION :: nat where
  "PROTOCOL_VERSION = 4"

definition MAX_FRAME_BYTES :: nat where
  "MAX_FRAME_BYTES = 4096"

definition SUBSCRIBE_VERB :: string where
  "SUBSCRIBE_VERB = ''SUBSCRIBE''"

abbreviation newline :: char where
  "newline \<equiv> CHR 0x0A"

abbreviation tab :: char where
  "tab \<equiv> CHR 0x09"

definition SUBSCRIBER_CAPACITY_RESPONSE :: string where
  "SUBSCRIBER_CAPACITY_RESPONSE = ''ERR SUBSCRIBER_CAPACITY'' @ [newline]"

definition authority_event :: "string \<Rightarrow> nat \<Rightarrow> string" where
  "authority_event inst epoch = ''EPOCH '' @ show_nat epoch @ '' instance='' @ inst @ [newline]"

definition ttl_multiplier :: "char \<Rightarrow> nat option" where
  "ttl_multiplier c =
     (if c = CHR ''s'' then Some 1
      else if c = CHR ''m'' then Some 60
      else if c = CHR ''h'' then Some 3600
      else None)"

definition parse_ttl :: "string \<Rightarrow> nat option" where
  "parse_ttl v =
     (if \<not> list_all is_ascii v \<or> length v < 2 then None
      else case ttl_multiplier (last v) of
        None \<Rightarrow> None
      | Some multiplier \<Rightarrow>
          (case parse_uint u64_max (butlast v) of
             None \<Rightarrow> None
           | Some n \<Rightarrow>
               if n * multiplier > u64_max then None
               else if n * multiplier > 0 then Some (n * multiplier) else None))"

definition parse_authority_event :: "string \<Rightarrow> (string \<times> nat) option" where
  "parse_authority_event line =
     (case strip_prefix ''EPOCH '' line of
        None \<Rightarrow> None
      | Some body \<Rightarrow>
          (case split_once_str '' instance='' body of
             None \<Rightarrow> None
           | Some (epoch, rest) \<Rightarrow>
               (case strip_suffix [newline] rest of
                  None \<Rightarrow> None
                | Some inst \<Rightarrow>
                    if epoch = [] \<or> \<not> list_all is_ascii_digit epoch
                       \<or> inst = [] \<or> \<not> list_all is_ascii_graphic inst
                    then None
                    else map_option (\<lambda>e. (inst, e)) (parse_uint u64_max epoch))))"

datatype err_code =
    BadRequest | UnknownOp | VersionMismatch | UnknownToken | NoScope | AgentTty | ForeignCaller
  | NotHumanKey | AmbiguousKey | Denied | Timeout | YubikeyUnreachable | TooManyPending | Internal

fun wire :: "err_code \<Rightarrow> string" where
  "wire BadRequest = ''BAD_REQUEST''"
| "wire UnknownOp = ''UNKNOWN_OP''"
| "wire VersionMismatch = ''VERSION_MISMATCH''"
| "wire UnknownToken = ''UNKNOWN_TOKEN''"
| "wire NoScope = ''NO_SCOPE''"
| "wire AgentTty = ''AGENT_TTY''"
| "wire ForeignCaller = ''FOREIGN_CALLER''"
| "wire NotHumanKey = ''NOT_HUMAN_KEY''"
| "wire AmbiguousKey = ''AMBIGUOUS_KEY''"
| "wire Denied = ''DENIED''"
| "wire Timeout = ''TIMEOUT''"
| "wire YubikeyUnreachable = ''YUBIKEY_UNREACHABLE''"
| "wire TooManyPending = ''TOO_MANY_PENDING''"
| "wire Internal = ''INTERNAL''"

definition parse_wire :: "string \<Rightarrow> err_code option" where
  "parse_wire t =
     (if t = ''BAD_REQUEST'' then Some BadRequest
      else if t = ''UNKNOWN_OP'' then Some UnknownOp
      else if t = ''VERSION_MISMATCH'' then Some VersionMismatch
      else if t = ''UNKNOWN_TOKEN'' then Some UnknownToken
      else if t = ''NO_SCOPE'' then Some NoScope
      else if t = ''AGENT_TTY'' then Some AgentTty
      else if t = ''FOREIGN_CALLER'' then Some ForeignCaller
      else if t = ''NOT_HUMAN_KEY'' then Some NotHumanKey
      else if t = ''AMBIGUOUS_KEY'' then Some AmbiguousKey
      else if t = ''DENIED'' then Some Denied
      else if t = ''TIMEOUT'' then Some Timeout
      else if t = ''YUBIKEY_UNREACHABLE'' then Some YubikeyUnreachable
      else if t = ''TOO_MANY_PENDING'' then Some TooManyPending
      else if t = ''INTERNAL'' then Some Internal
      else None)"

section \<open>Responses, the client's half (\<open>proto/src/response.rs\<close>)\<close>

datatype broker_response = BrOk | BrFields string | BrBytes string

datatype io_kind = WouldBlock | TimedOut | Interrupted | UnexpectedEof | OtherIo

datatype client_error =
    CeIo io_kind | ApprovalTimeout | InvalidRequest | InvalidResponse | VersionHandshake
  | CeBroker err_code | TokenFile

datatype header = HOk | HFields string | HBytes nat | HError err_code

definition header_byte :: "char \<Rightarrow> bool" where
  "header_byte b \<longleftrightarrow> is_ascii_graphic b \<or> b = CHR '' '' \<or> b = tab"

definition parse_len_header :: "string \<Rightarrow> (header, client_error) result" where
  "parse_len_header len =
     (if len = [] \<or> \<not> list_all is_ascii_digit len then Err InvalidResponse
      else case parse_uint u64_max len of
        None \<Rightarrow> Err InvalidResponse
      | Some n \<Rightarrow> if n > MAX_FRAME_BYTES then Err InvalidResponse else Ok (HBytes n))"

definition parse_err_header :: "string \<Rightarrow> (header, client_error) result" where
  "parse_err_header e =
     (case split_once tab e of
        None \<Rightarrow> Err InvalidResponse
      | Some (code, message) \<Rightarrow> ok_or InvalidResponse (map_option HError (parse_wire code)))"

definition parse_header :: "string \<Rightarrow> (header, client_error) result" where
  "parse_header h =
     (if h = [] \<or> \<not> list_all header_byte h then Err InvalidResponse
      else if h = ''OK'' then Ok HOk
      else case strip_prefix (''OK'' @ tab # ''len='') h of
        Some len \<Rightarrow> parse_len_header len
      | None \<Rightarrow>
          (case strip_prefix (''OK'' @ [tab]) h of
             Some fields \<Rightarrow> Ok (HFields fields)
           | None \<Rightarrow>
               (case strip_prefix (''ERR'' @ [tab]) h of
                  Some e \<Rightarrow> parse_err_header e
                | None \<Rightarrow> Err InvalidResponse)))"

fun finish_header :: "header \<Rightarrow> (broker_response, client_error) result" where
  "finish_header HOk = Ok BrOk"
| "finish_header (HFields fields) = Ok (BrFields fields)"
| "finish_header (HBytes n) = Err InvalidResponse"
| "finish_header (HError code) = Err (CeBroker code)"

definition bytes_response :: "string \<Rightarrow> (broker_response, client_error) result" where
  "bytes_response payload =
     (if CHR 0x00 \<in> set payload then Err InvalidResponse else Ok (BrBytes payload))"

definition payload_from_slice :: "string \<Rightarrow> nat \<Rightarrow> (broker_response, client_error) result" where
  "payload_from_slice payload len =
     (if length payload = len \<and> CHR 0x00 \<notin> set payload then Ok (BrBytes payload)
      else Err InvalidResponse)"

definition parse_response :: "string \<Rightarrow> (broker_response, client_error) result" where
  "parse_response response =
     (case split_once newline response of
        None \<Rightarrow> Err InvalidResponse
      | Some (head, payload) \<Rightarrow>
          and_then (parse_header head)
            (\<lambda>header. case header of
                HBytes len \<Rightarrow> payload_from_slice payload len
              | _ \<Rightarrow> if payload = [] then finish_header header else Err InvalidResponse))"

section \<open>Reading a response from a connection\<close>

datatype read_event = ReadByte char | ReadError io_kind

text \<open>What the socket delivers, with the clock at each read, and the clock once it is closed.\<close>

record connection =
  events :: "(instant \<times> read_event) list"
  closed_at :: instant

fun next_clock :: "(instant \<times> read_event) list \<Rightarrow> instant \<Rightarrow> instant" where
  "next_clock [] closed = closed"
| "next_clock ((t, e) # es) closed = t"

definition deadline_passed :: "instant option \<Rightarrow> instant \<Rightarrow> bool" where
  "deadline_passed deadline now =
     (case deadline of None \<Rightarrow> False | Some d \<Rightarrow> d \<le> now)"

definition timed_out :: client_error where
  "timed_out = CeIo TimedOut"

fun read_header_line ::
  "instant option \<Rightarrow> instant \<Rightarrow> string \<Rightarrow> (instant \<times> read_event) list
   \<Rightarrow> (string \<times> (instant \<times> read_event) list, client_error) result" where
  "read_header_line deadline closed line es =
     (if length line > MAX_FRAME_BYTES then Err InvalidResponse
      else if deadline_passed deadline (next_clock es closed) then Err timed_out
      else case es of
        [] \<Rightarrow> Err InvalidResponse
      | (t, ReadByte b) # rest \<Rightarrow>
          if b = newline then Ok (line @ [b], rest)
          else read_header_line deadline closed (line @ [b]) rest
      | (t, ReadError k) # rest \<Rightarrow>
          if k = Interrupted then read_header_line deadline closed line rest else Err (CeIo k))"

declare read_header_line.simps [simp del]

text \<open>\<open>read_exact\<close>: interrupted reads are retried and a closed peer is \<open>UnexpectedEof\<close>.\<close>

fun read_payload ::
  "nat \<Rightarrow> (instant \<times> read_event) list \<Rightarrow> (string \<times> (instant \<times> read_event) list, client_error) result"
where
  "read_payload 0 es = Ok ([], es)"
| "read_payload (Suc n) [] = Err InvalidResponse"
| "read_payload (Suc n) ((t, ReadByte b) # es) =
     and_then (read_payload n es) (\<lambda>(bs, rest). Ok (b # bs, rest))"
| "read_payload (Suc n) ((t, ReadError k) # es) =
     (if k = Interrupted then read_payload (Suc n) es
      else if k = UnexpectedEof then Err InvalidResponse
      else Err (CeIo k))"

fun reject_trailing_bytes :: "(instant \<times> read_event) list \<Rightarrow> (unit, client_error) result" where
  "reject_trailing_bytes [] = Ok ()"
| "reject_trailing_bytes ((t, ReadByte b) # es) = Err InvalidResponse"
| "reject_trailing_bytes ((t, ReadError k) # es) = Err (CeIo k)"

definition read_response_by :: "connection \<Rightarrow> instant option \<Rightarrow> (broker_response, client_error) result"
where
  "read_response_by conn deadline =
     and_then (read_header_line deadline (closed_at conn) [] (events conn))
       (\<lambda>(raw, rest).
          case strip_suffix [newline] raw of
            None \<Rightarrow> Err InvalidResponse
          | Some head \<Rightarrow>
              if deadline_passed deadline (next_clock rest (closed_at conn)) then Err timed_out
              else and_then (parse_header head)
                (\<lambda>header. case header of
                    HBytes len \<Rightarrow>
                      and_then (read_payload len rest)
                        (\<lambda>(payload, rest'). and_then (reject_trailing_bytes rest')
                          (\<lambda>_. bytes_response payload))
                  | _ \<Rightarrow> and_then (reject_trailing_bytes rest) (\<lambda>_. finish_header header)))"

section \<open>The transport client (\<open>proto/src/client.rs\<close>, \<open>client/stream.rs\<close>)\<close>

definition APPROVAL_TIMEOUT :: duration where
  "APPROVAL_TIMEOUT = from_secs 120"

definition CONTROL_TIMEOUT :: duration where
  "CONTROL_TIMEOUT = from_secs 5"

definition APPROVAL_VERBS :: "string list" where
  "APPROVAL_VERBS = [''GET'' @ [tab], ''REQUEST'' @ [tab], ''AUTHORIZE'' @ [tab]]"

text \<open>\<open>Path::join\<close>: an absolute right-hand side replaces the directory.\<close>

definition path_join :: "string \<Rightarrow> string \<Rightarrow> string" where
  "path_join dir name =
     (if starts_with ''/'' name then name
      else if dir = [] \<or> last dir = CHR ''/'' then dir @ name
      else dir @ ''/'' @ name)"

definition resolve_socket :: "string option \<Rightarrow> string option \<Rightarrow> nat \<Rightarrow> string" where
  "resolve_socket override runtime_dir uid =
     (case (override, runtime_dir) of
        (Some path, _) \<Rightarrow> path
      | (None, Some directory) \<Rightarrow>
          if directory \<noteq> [] then path_join directory ''secretsd.sock''
          else ''/run/user/'' @ show_nat uid @ ''/secretsd.sock''
      | (None, None) \<Rightarrow> ''/run/user/'' @ show_nat uid @ ''/secretsd.sock'')"

text \<open>The loop of \<open>HelloFields::required\<close>: the value seen so far, then the fields to come.\<close>

fun hello_required_loop :: "string \<Rightarrow> string option \<Rightarrow> string list \<Rightarrow> (string, client_error) result" where
  "hello_required_loop name value [] = ok_or InvalidResponse value"
| "hello_required_loop name value (f # fs) =
     (case split_once (CHR ''='') f of
        None \<Rightarrow> hello_required_loop name value fs
      | Some (field_name, field_value) \<Rightarrow>
          if field_name = name
          then if field_value = [] \<or> value \<noteq> None then Err InvalidResponse
               else hello_required_loop name (Some field_value) fs
          else hello_required_loop name value fs)"

definition hello_required :: "string \<Rightarrow> string \<Rightarrow> (string, client_error) result" where
  "hello_required flds name = hello_required_loop name None (split_on (CHR '' '') flds)"

record broker_client =
  socket_path :: string
  get_timeout :: duration
  control_timeout :: duration

definition client_new :: "string \<Rightarrow> broker_client" where
  "client_new path =
     \<lparr>socket_path = path, get_timeout = APPROVAL_TIMEOUT, control_timeout = CONTROL_TIMEOUT\<rparr>"

text \<open>
  A connected stream: whether setting its timeouts or writing to it fails, the clock once the
  request is written, and the connection the reply is read from.
\<close>

record stream =
  set_timeout_error :: "io_kind option"
  write_error :: "io_kind option"
  written_at :: instant
  reply :: connection

definition request_is_valid :: "string \<Rightarrow> bool" where
  "request_is_valid request \<longleftrightarrow>
     request \<noteq> [] \<and> length request \<le> MAX_FRAME_BYTES \<and> list_all is_ascii request
     \<and> list_all (\<lambda>c. c \<noteq> newline \<and> c \<noteq> CHR 0x0D \<and> c \<noteq> CHR 0x00) request"

text \<open>The bytes \<open>write_request\<close> puts on the wire, or its error.\<close>

definition write_request :: "io_kind option \<Rightarrow> string \<Rightarrow> (string, client_error) result" where
  "write_request failure request =
     (if \<not> request_is_valid request then Err InvalidRequest
      else case failure of Some k \<Rightarrow> Err (CeIo k) | None \<Rightarrow> Ok (request @ [newline]))"

definition waits_for_approval :: "string \<Rightarrow> bool" where
  "waits_for_approval request \<longleftrightarrow> list_ex (\<lambda>verb. starts_with verb request) APPROVAL_VERBS"

definition request_timeout :: "broker_client \<Rightarrow> string \<Rightarrow> duration" where
  "request_timeout c request =
     (if waits_for_approval request then get_timeout c else control_timeout c)"

definition request_on :: "broker_client \<Rightarrow> stream \<Rightarrow> string \<Rightarrow> (broker_response, client_error) result"
where
  "request_on c st request =
     (case set_timeout_error st of
        Some k \<Rightarrow> Err (CeIo k)
      | None \<Rightarrow>
          and_then (write_request (write_error st) request)
            (\<lambda>_. case read_response_by (reply st)
                        (instant_checked_add (written_at st) (request_timeout c request)) of
                 Err (CeIo k) \<Rightarrow>
                   if waits_for_approval request \<and> (k = WouldBlock \<or> k = TimedOut)
                   then Err ApprovalTimeout else Err (CeIo k)
               | other \<Rightarrow> other))"

definition hello_request :: string where
  "hello_request = ''HELLO'' @ tab # ''version='' @ show_nat PROTOCOL_VERSION"

definition version_confirmed :: "string \<Rightarrow> bool" where
  "version_confirmed flds \<longleftrightarrow>
     list_ex (\<lambda>f. strip_prefix ''version='' f = Some (show_nat PROTOCOL_VERSION))
       (split_on (CHR '' '') flds)"

definition hello_on :: "broker_client \<Rightarrow> stream \<Rightarrow> (string, client_error) result" where
  "hello_on c st =
     (case request_on c st hello_request of
        Err e \<Rightarrow> Err e
      | Ok (BrFields flds) \<Rightarrow>
          if version_confirmed flds then Ok flds else Err VersionHandshake
      | Ok _ \<Rightarrow> Err VersionHandshake)"

text \<open>
  \<open>call\<close>: a handshake on one fresh connection, then the request on another.  Connecting is the
  operating system's and may fail.
\<close>

definition client_call ::
  "broker_client \<Rightarrow> (stream, io_kind) result \<Rightarrow> (stream, io_kind) result \<Rightarrow> string
   \<Rightarrow> (broker_response, client_error) result" where
  "client_call c conn1 conn2 request =
     (case conn1 of
        Err k \<Rightarrow> Err (CeIo k)
      | Ok st1 \<Rightarrow>
          and_then (hello_on c st1)
            (\<lambda>_. case conn2 of Err k \<Rightarrow> Err (CeIo k) | Ok st2 \<Rightarrow> request_on c st2 request))"

text \<open>\<open>read_token_file\<close> on the bytes read, \<open>None\<close> when the read failed.\<close>

definition read_token_file :: "string option \<Rightarrow> (string, client_error) result" where
  "read_token_file file =
     (case file of
        None \<Rightarrow> Err TokenFile
      | Some bytes \<Rightarrow>
          if utf8_valid bytes \<and> bytes \<noteq> [] \<and> trim bytes = bytes then Ok bytes else Err TokenFile)"

section \<open>Responses, the broker's half (\<open>secrets/src/proto/response.rs\<close>)\<close>

datatype response = ROk | ROkFields string | ROkBytes nat | RFailed err_code string

definition sanitize :: "string \<Rightarrow> string" where
  "sanitize text = map (\<lambda>c. if c = newline \<or> c = CHR 0x0D \<or> c = tab then CHR '' '' else c) text"

fun format_response :: "response \<Rightarrow> string" where
  "format_response ROk = ''OK'' @ [newline]"
| "format_response (ROkFields flds) = ''OK'' @ tab # sanitize flds @ [newline]"
| "format_response (ROkBytes len) = ''OK'' @ tab # ''len='' @ show_nat len @ [newline]"
| "format_response (RFailed code message) =
     ''ERR'' @ tab # wire code @ tab # sanitize message @ [newline]"

section \<open>Requests (\<open>secrets/src/proto/request.rs\<close>)\<close>

datatype request =
    Hello nat
  | Register string string int
  | Unregister string
  | Get string "string option" "string option" "nat option"
  | RequestGrant string "string option" "string option" "nat option"
  | Authorize string "string option" "string option"
  | Redeem string string
  | Grants
  | Deny nat
  | Lock
  | Subscribe

type_synonym field_list = "(string \<times> string) list"

definition field :: "field_list \<Rightarrow> string \<Rightarrow> string option" where
  "field flds name = map_option snd (find (\<lambda>kv. fst kv = name) flds)"

definition required :: "field_list \<Rightarrow> string \<Rightarrow> (string, err_code) result" where
  "required flds name = ok_or BadRequest (field flds name)"

text \<open>The loop over the tab-separated parts after the operation.\<close>

fun parse_fields :: "field_list \<Rightarrow> string list \<Rightarrow> (field_list, err_code) result" where
  "parse_fields flds [] = Ok flds"
| "parse_fields flds (part # parts) =
     (case split_once (CHR ''='') part of
        None \<Rightarrow> Err BadRequest
      | Some (key, value) \<Rightarrow>
          if field flds key \<noteq> None then Err BadRequest
          else parse_fields (flds @ [(key, value)]) parts)"

definition parse_frame :: "string \<Rightarrow> (string \<times> field_list, err_code) result" where
  "parse_frame line =
     (if line = [] \<or> length line > MAX_FRAME_BYTES \<or> \<not> utf8_valid line then Err BadRequest
      else case split_on tab line of
        [] \<Rightarrow> Err BadRequest
      | op # parts \<Rightarrow> and_then (parse_fields [] parts) (\<lambda>flds. Ok (op, flds)))"

definition ttl_secs :: "field_list \<Rightarrow> string \<Rightarrow> (nat option, err_code) result" where
  "ttl_secs flds name =
     (case field flds name of
        None \<Rightarrow> Ok None
      | Some raw \<Rightarrow>
          (case parse_uint u64_max raw of
             None \<Rightarrow> Err BadRequest
           | Some secs \<Rightarrow> if secs = 0 then Err BadRequest else Ok (Some secs)))"

definition u32_max :: nat where
  "u32_max = 2 ^ 32 - 1"

definition request_of :: "string \<Rightarrow> field_list \<Rightarrow> (request, err_code) result" where
  "request_of op flds =
     (if op = ''HELLO'' then
        and_then (required flds ''version'')
          (\<lambda>v. and_then (ok_or BadRequest (parse_uint u32_max v)) (\<lambda>n. Ok (Hello n)))
      else if op = ''REGISTER'' then
        and_then (required flds ''token'')
          (\<lambda>token. and_then (required flds ''session'')
            (\<lambda>session. and_then (required flds ''pid'')
              (\<lambda>raw. and_then (ok_or BadRequest (parse_i32 raw))
                (\<lambda>pid. Ok (Register token session pid)))))
      else if op = ''UNREGISTER'' then
        and_then (required flds ''session'') (\<lambda>session. Ok (Unregister session))
      else if op = ''GET'' then
        and_then (required flds ''key'')
          (\<lambda>key. and_then (ttl_secs flds ''ttl'')
            (\<lambda>ttl. Ok (Get key (field flds ''token'') (field flds ''tty'') ttl)))
      else if op = ''REQUEST'' then
        and_then (required flds ''key'')
          (\<lambda>key. and_then (ttl_secs flds ''ttl'')
            (\<lambda>ttl. Ok (RequestGrant key (field flds ''token'') (field flds ''tty'') ttl)))
      else if op = ''AUTHORIZE'' then
        and_then (required flds ''cap'')
          (\<lambda>cap. Ok (Authorize cap (field flds ''token'') (field flds ''tty'')))
      else if op = ''REDEEM'' then
        and_then (required flds ''receipt'')
          (\<lambda>receipt. and_then (required flds ''cap'') (\<lambda>cap. Ok (Redeem receipt cap)))
      else if op = ''GRANTS'' then Ok Grants
      else if op = ''DENY'' then
        and_then (required flds ''id'')
          (\<lambda>raw. and_then (ok_or BadRequest (parse_uint u64_max raw)) (\<lambda>i. Ok (Deny i)))
      else if op = ''LOCK'' then Ok Lock
      else if op = SUBSCRIBE_VERB then (if flds = [] then Ok Subscribe else Err BadRequest)
      else Err UnknownOp)"

definition parse_request :: "string \<Rightarrow> (request, err_code) result" where
  "parse_request line = and_then (parse_frame line) (\<lambda>(op, flds). request_of op flds)"

section \<open>Error codes and authority events\<close>

lemma parse_wire_wire [simp]: "parse_wire (wire code) = Some code"
  by (cases code) (simp_all add: parse_wire_def)

lemma parse_wire_Some: "parse_wire t = Some code \<longleftrightarrow> t = wire code"
proof
  assume "parse_wire t = Some code"
  then show "t = wire code"
    unfolding parse_wire_def by (simp split: if_split_asm)
qed simp

interpretation errcode: canonical_codec "\<lambda>_. True" wire parse_wire
  by unfold_locales (simp_all add: parse_wire_Some)

definition valid_event :: "string \<times> nat \<Rightarrow> bool" where
  "valid_event ev \<longleftrightarrow>
     fst ev \<noteq> [] \<and> list_all is_ascii_graphic (fst ev) \<and> snd ev \<le> u64_max"

lemma digit_not_space: "is_ascii_digit c \<Longrightarrow> c \<noteq> CHR '' ''"
  by (auto simp: ascii_defs)

lemma show_nat_not_space: "CHR '' '' \<notin> set (show_nat n)"
  using show_nat_digits [of n] digit_not_space by (auto simp: list_all_iff)

lemma show_nat_not_newline: "newline \<notin> set (show_nat n)"
  using show_nat_digits [of n] by (auto simp: list_all_iff ascii_defs)

lemma parse_authority_event_print:
  assumes "valid_event (inst, epoch)"
  shows "parse_authority_event (authority_event inst epoch) = Some (inst, epoch)"
proof -
  have "split_once_str '' instance='' (show_nat epoch @ '' instance='' @ inst @ [newline])
          = Some (show_nat epoch, inst @ [newline])"
    by (rule split_once_str_append) (simp_all add: show_nat_not_space)
  moreover have "strip_prefix ''EPOCH '' (authority_event inst epoch)
          = Some (show_nat epoch @ '' instance='' @ inst @ [newline])"
    unfolding authority_event_def by (rule strip_prefix_append)
  ultimately show ?thesis
    using assms by (simp add: parse_authority_event_def valid_event_def)
qed

interpretation event_codec: codec valid_event "\<lambda>(i, e). authority_event i e" parse_authority_event
  by unfold_locales (auto simp: parse_authority_event_print)

lemma parse_authority_event_valid:
  assumes "parse_authority_event line = Some (inst, epoch)"
  shows "valid_event (inst, epoch)"
    and "\<exists>ds. line = ''EPOCH '' @ ds @ '' instance='' @ inst @ [newline]
           \<and> list_all is_ascii_digit ds \<and> ds \<noteq> [] \<and> dec_value ds = epoch"
  using assms
  by (auto simp: parse_authority_event_def valid_event_def parse_uint_digits strip_prefix_Some
      strip_suffix_Some dest!: split_once_str_sound split: option.splits if_splits)

section \<open>Lifetimes on the command line\<close>

lemma ttl_multiplier_Some:
  "ttl_multiplier c = Some m \<longleftrightarrow>
     c = CHR ''s'' \<and> m = 1 \<or> c = CHR ''m'' \<and> m = 60 \<or> c = CHR ''h'' \<and> m = 3600"
  by (auto simp: ttl_multiplier_def)

lemma parse_ttl_Some:
  "parse_ttl v = Some secs \<longleftrightarrow>
     list_all is_ascii v \<and> 2 \<le> length v \<and>
     (\<exists>n m. ttl_multiplier (last v) = Some m \<and> parse_uint u64_max (butlast v) = Some n
        \<and> secs = n * m \<and> 0 < secs \<and> secs \<le> u64_max)"
  by (auto simp: parse_ttl_def split: option.splits)

lemma parse_ttl_bounds: "parse_ttl v = Some secs \<Longrightarrow> 0 < secs \<and> secs \<le> u64_max"
  by (auto simp: parse_ttl_Some)

lemma show_nat_ascii: "list_all is_ascii (show_nat n)"
  using show_nat_digits [of n] by (auto simp: list_all_iff ascii_defs)

lemma parse_ttl_print:
  assumes "ttl_multiplier u = Some m"
  shows "parse_ttl (show_nat n @ [u]) = (if 0 < n \<and> n * m \<le> u64_max then Some (n * m) else None)"
proof -
  have "1 \<le> m" and "is_ascii u"
    using assms by (auto simp: ttl_multiplier_Some ascii_defs)
  moreover have "2 \<le> length (show_nat n @ [u])"
    by (cases "show_nat n") (use show_nat_not_Nil [of n] in auto)
  moreover have "n * m \<le> u64_max \<Longrightarrow> n \<le> u64_max"
    using \<open>1 \<le> m\<close> le_trans [of n "n * m" u64_max] by simp
  ultimately show ?thesis
    using assms show_nat_ascii [of n] by (auto simp: parse_ttl_def)
qed

section \<open>Broker responses reach the client unchanged\<close>

lemma sanitize_line [simp]: "newline \<notin> set (sanitize t)" "tab \<notin> set (sanitize t)"
  by (auto simp: sanitize_def)

lemma sanitize_id:
  "newline \<notin> set t \<Longrightarrow> CHR 0x0D \<notin> set t \<Longrightarrow> tab \<notin> set t \<Longrightarrow> sanitize t = t"
  unfolding sanitize_def by (rule map_idI) auto

lemma sanitize_header_bytes: "list_all header_byte t \<Longrightarrow> list_all header_byte (sanitize t)"
  by (auto simp: sanitize_def list_all_iff header_byte_def)

lemma wire_bytes: "list_all header_byte (wire code)" "newline \<notin> set (wire code)" "tab \<notin> set (wire code)"
  by (cases code; simp add: header_byte_def ascii_defs)+

lemma digit_header_byte: "is_ascii_digit c \<Longrightarrow> header_byte c"
  by (auto simp: header_byte_def ascii_defs)

lemma show_nat_header_bytes: "list_all header_byte (show_nat n)"
  using show_nat_digits [of n] by (auto simp: list_all_iff digit_header_byte)


text \<open>Headers of the four shapes the broker writes.\<close>

lemma parse_header_ok: "parse_header ''OK'' = Ok HOk"
  by (simp add: parse_header_def header_byte_def ascii_defs)

lemma parse_header_fields:
  assumes "list_all header_byte flds" and "\<not> starts_with ''len='' flds"
  shows "parse_header (''OK'' @ tab # flds) = Ok (HFields flds)"
proof -
  have "strip_prefix (''OK'' @ tab # ''len='') (''OK'' @ tab # flds) = None"
    using assms(2) by (simp add: starts_with_def)
  then show ?thesis
    using assms(1) by (simp add: parse_header_def header_byte_def ascii_defs)
qed

lemma parse_header_len:
  assumes "n \<le> MAX_FRAME_BYTES"
  shows "parse_header (''OK'' @ tab # ''len='' @ show_nat n) = Ok (HBytes n)"
proof -
  have "n \<le> u64_max"
    using assms by (simp add: MAX_FRAME_BYTES_def u64_max_def)
  then show ?thesis
    using assms show_nat_header_bytes [of n]
    by (simp add: parse_header_def parse_len_header_def header_byte_def ascii_defs)
qed

lemma parse_header_err:
  assumes "list_all header_byte message"
  shows "parse_header (''ERR'' @ tab # wire code @ tab # message) = Ok (HError code)"
  using assms wire_bytes [of code]
  by (simp add: parse_header_def parse_err_header_def header_byte_def ascii_defs)

lemma parse_response_line:
  assumes "newline \<notin> set head"
  shows "parse_response (head @ newline # payload) =
     and_then (parse_header head)
       (\<lambda>header. case header of
            HBytes len \<Rightarrow> payload_from_slice payload len
          | _ \<Rightarrow> if payload = [] then finish_header header else Err InvalidResponse)"
  using assms by (simp add: parse_response_def)

lemma parse_response_ok: "parse_response (format_response ROk) = Ok BrOk"
  using parse_response_line [of "''OK''" "[]"] parse_header_ok by simp

lemma parse_response_fields:
  assumes "list_all header_byte flds" and "tab \<notin> set flds" and "\<not> starts_with ''len='' flds"
  shows "parse_response (format_response (ROkFields flds)) = Ok (BrFields flds)"
proof -
  have "newline \<notin> set flds" "CHR 0x0D \<notin> set flds"
    using assms(1) by (auto simp: list_all_iff header_byte_def ascii_defs)
  then show ?thesis
    using parse_response_line [of "''OK'' @ tab # flds" "[]"] parse_header_fields [of flds] assms
    by (simp add: sanitize_id)
qed

lemma parse_response_bytes:
  assumes "length payload \<le> MAX_FRAME_BYTES" and "CHR 0x00 \<notin> set payload"
  shows "parse_response (format_response (ROkBytes (length payload)) @ payload) = Ok (BrBytes payload)"
  using assms parse_response_line [of "''OK'' @ tab # ''len='' @ show_nat (length payload)" payload]
    parse_header_len [of "length payload"] show_nat_not_newline [of "length payload"]
  by (simp add: payload_from_slice_def)

lemma parse_response_failed:
  assumes "list_all header_byte (sanitize message)"
  shows "parse_response (format_response (RFailed code message)) = Err (CeBroker code)"
  using assms wire_bytes [of code] parse_header_err [of "sanitize message" code]
    parse_response_line [of "''ERR'' @ tab # wire code @ tab # sanitize message" "[]"]
  by simp

section \<open>The streaming reader is the slice parser\<close>

definition delivers :: "instant option \<Rightarrow> connection \<Rightarrow> string \<Rightarrow> bool" where
  "delivers deadline conn bytes \<longleftrightarrow>
     map snd (events conn) = map ReadByte bytes
     \<and> list_all (\<lambda>t. \<not> deadline_passed deadline t) (closed_at conn # map fst (events conn))"

lemma next_clock_in_time:
  "list_all (\<lambda>t. \<not> deadline_passed d t) (closed # map fst es) \<Longrightarrow> \<not> deadline_passed d (next_clock es closed)"
  by (cases es) auto

lemma read_header_line_bytes:
  assumes "list_all (\<lambda>t. \<not> deadline_passed d t) (closed # map fst es)"
    and "map snd es = map ReadByte bytes"
    and "length line + length (takeWhile (\<lambda>c. c \<noteq> newline) bytes) \<le> MAX_FRAME_BYTES"
  shows "case split_once newline bytes of
           None \<Rightarrow> read_header_line d closed line es = Err InvalidResponse
         | Some (head, payload) \<Rightarrow>
             \<exists>rest. read_header_line d closed line es = Ok (line @ head @ [newline], rest)
               \<and> map snd rest = map ReadByte payload \<and> set rest \<subseteq> set es"
  using assms
proof (induction bytes arbitrary: line es)
  case Nil
  then show ?case
    by (simp add: read_header_line.simps next_clock_in_time)
next
  case (Cons b bytes)
  then obtain t es' where es: "es = (t, ReadByte b) # es'"
    by (cases es) auto
  have step: "read_header_line d closed line es =
      (if b = newline then Ok (line @ [b], es') else read_header_line d closed (line @ [b]) es')"
    using Cons.prems by (subst read_header_line.simps) (auto simp: es)
  show ?case
  proof (cases "b = newline")
    case True
    then show ?thesis
      using Cons.prems step by (auto simp: es)
  next
    case False
    then show ?thesis
      using Cons.IH [of es' "line @ [b]"] Cons.prems step
      by (auto simp: es split: option.splits)
  qed
qed


lemma read_payload_bytes:
  "map snd es = map ReadByte bytes \<Longrightarrow>
   read_payload n es =
     (if n \<le> length bytes then Ok (take n bytes, drop n es) else Err InvalidResponse)"
proof (induction n arbitrary: es bytes)
  case (Suc n)
  show ?case
  proof (cases bytes)
    case Nil
    then show ?thesis
      using Suc.prems by simp
  next
    case (Cons b bs)
    then obtain t es' where "es = (t, ReadByte b) # es'" "map snd es' = map ReadByte bs"
      using Suc.prems by (cases es) auto
    then show ?thesis
      using Suc.IH [of es' bs] Cons by simp
  qed
qed simp

lemma reject_trailing_bytes_iff:
  "map snd es = map ReadByte bytes \<Longrightarrow>
   reject_trailing_bytes es = (if bytes = [] then Ok () else Err InvalidResponse)"
  by (cases es rule: reject_trailing_bytes.cases; cases bytes) auto

lemma read_exactly:
  assumes "map snd es = map ReadByte bytes"
  shows "and_then (read_payload n es)
           (\<lambda>(payload, rest). and_then (reject_trailing_bytes rest) (\<lambda>_. bytes_response payload))
         = payload_from_slice bytes n"
proof -
  have "map snd (drop n es) = map ReadByte (drop n bytes)"
    using assms by (metis drop_map)
  then have "reject_trailing_bytes (drop n es) = (if length bytes \<le> n then Ok () else Err InvalidResponse)"
    using reject_trailing_bytes_iff by fastforce
  then show ?thesis
    using read_payload_bytes [OF assms, of n]
    by (auto simp: payload_from_slice_def bytes_response_def)
qed

lemma read_response_by_eq_parse:
  assumes "delivers deadline conn bytes"
    and "length (takeWhile (\<lambda>c. c \<noteq> newline) bytes) \<le> MAX_FRAME_BYTES"
  shows "read_response_by conn deadline = parse_response bytes"
proof (cases "split_once newline bytes")
  case None
  then show ?thesis
    using assms read_header_line_bytes [of deadline "closed_at conn" "events conn" bytes "[]"]
    by (simp add: delivers_def read_response_by_def parse_response_def)
next
  case (Some hp)
  obtain head payload where hp: "hp = (head, payload)"
    by (cases hp)
  obtain rest where rest: "read_header_line deadline (closed_at conn) [] (events conn) = Ok (head @ [newline], rest)"
      "map snd rest = map ReadByte payload" "set rest \<subseteq> set (events conn)"
    using assms Some hp read_header_line_bytes [of deadline "closed_at conn" "events conn" bytes "[]"]
    by (auto simp: delivers_def)
  have "\<not> deadline_passed deadline (next_clock rest (closed_at conn))"
    using assms(1) rest(3) by (intro next_clock_in_time) (auto simp: delivers_def list_all_iff)
  then show ?thesis
    using rest Some hp
    by (auto simp: read_response_by_def parse_response_def read_exactly reject_trailing_bytes_iff
        split: header.splits intro!: arg_cong [where f = "and_then (parse_header head)"] ext)
qed

lemma read_header_line_bound:
  "read_header_line d closed line es = Ok (raw, rest) \<Longrightarrow> length raw \<le> Suc MAX_FRAME_BYTES"
proof (induction d closed line es rule: read_header_line.induct)
  case (1 d closed line es)
  then show ?case
    by (subst (asm) (3) read_header_line.simps)
      (auto split: if_splits list.splits prod.splits read_event.splits)
qed

text \<open>Whatever arrives, an accepted payload is within the frame bound and free of NUL bytes.\<close>

lemma payload_from_slice_Ok:
  "payload_from_slice payload n = Ok r \<longleftrightarrow> r = BrBytes payload \<and> length payload = n \<and> CHR 0x00 \<notin> set payload"
  by (auto simp: payload_from_slice_def)

lemma parse_header_HBytes: "parse_header h = Ok (HBytes n) \<Longrightarrow> n \<le> MAX_FRAME_BYTES"
  by (auto simp: parse_header_def parse_len_header_def parse_err_header_def
      split: if_splits option.splits)

lemma parse_response_BrBytes:
  assumes "parse_response r = Ok (BrBytes payload)"
  shows "length payload \<le> MAX_FRAME_BYTES \<and> CHR 0x00 \<notin> set payload"
proof -
  obtain head rest hdr where *: "split_once newline r = Some (head, rest)" "parse_header head = Ok hdr"
    using assms by (auto simp: parse_response_def and_then_Ok split: option.splits)
  then show ?thesis
    using assms parse_header_HBytes [of head]
    by (cases hdr) (auto simp: parse_response_def payload_from_slice_Ok split: if_splits)
qed

section \<open>Handshake fields\<close>

definition named_values :: "string \<Rightarrow> string list \<Rightarrow> string list" where
  "named_values name fs =
     concat (map (\<lambda>f. case split_once (CHR ''='') f of
                        Some (n, v) \<Rightarrow> if n = name then [v] else []
                      | None \<Rightarrow> []) fs)"

lemma named_values_simps [simp]:
  "named_values name [] = []"
  "named_values name (f # fs) =
     (case split_once (CHR ''='') f of
        Some (n, v) \<Rightarrow> if n = name then v # named_values name fs else named_values name fs
      | None \<Rightarrow> named_values name fs)"
  by (auto simp: named_values_def split: option.splits)

lemma hello_required_loop_seen:
  "hello_required_loop name (Some w) fs = (if named_values name fs = [] then Ok w else Err InvalidResponse)"
  by (induction fs) (auto split: option.splits)

lemma hello_required_loop_fresh:
  "hello_required_loop name None fs =
     (case named_values name fs of
        [v] \<Rightarrow> if v = [] then Err InvalidResponse else Ok v
      | _ \<Rightarrow> Err InvalidResponse)"
  by (induction fs) (auto simp: hello_required_loop_seen split: option.splits list.splits)

lemma hello_required_Ok:
  "hello_required flds name = Ok v \<longleftrightarrow>
     named_values name (split_on (CHR '' '') flds) = [v] \<and> v \<noteq> []"
  by (auto simp: hello_required_def hello_required_loop_fresh split: list.splits if_splits)


section \<open>Request frames\<close>

text \<open>A frame written field by field, and the conditions under which it reads back.\<close>

definition print_field :: "string \<times> string \<Rightarrow> string" where
  "print_field kv = fst kv @ CHR ''='' # snd kv"

definition print_frame :: "string \<Rightarrow> field_list \<Rightarrow> string" where
  "print_frame op flds = join_with tab (op # map print_field flds)"

definition valid_fields :: "field_list \<Rightarrow> bool" where
  "valid_fields flds \<longleftrightarrow>
     distinct (map fst flds)
     \<and> list_all (\<lambda>(k, v). CHR ''='' \<notin> set k \<and> tab \<notin> set k \<and> tab \<notin> set v) flds"

lemma field_None_iff: "field flds name = None \<longleftrightarrow> name \<notin> fst ` set flds"
  by (force simp: field_def find_None_iff)

lemma parse_fields_distinct:
  "parse_fields acc parts = Ok flds \<Longrightarrow> distinct (map fst acc) \<Longrightarrow> distinct (map fst flds)"
proof (induction acc parts rule: parse_fields.induct)
  case (2 acc part parts)
  then show ?case
    by (auto simp del: not_None_eq simp: field_None_iff split: option.splits if_splits)
qed simp

lemma parse_fields_print:
  "valid_fields (acc @ flds) \<Longrightarrow> parse_fields acc (map print_field flds) = Ok (acc @ flds)"
proof (induction flds arbitrary: acc)
  case (Cons kv flds)
  have "field acc (fst kv) = None"
    using Cons.prems by (auto simp: field_None_iff valid_fields_def)
  moreover have "split_once (CHR ''='') (print_field kv) = Some kv"
    using Cons.prems by (cases kv) (auto simp: print_field_def valid_fields_def)
  moreover have "parse_fields (acc @ [kv]) (map print_field flds) = Ok (acc @ kv # flds)"
    using Cons.IH [of "acc @ [kv]"] Cons.prems by simp
  ultimately show ?case
    by (cases kv) simp
qed simp

lemma split_on_print_frame:
  assumes "valid_fields flds" and "tab \<notin> set op"
  shows "split_on tab (print_frame op flds) = op # map print_field flds"
  unfolding print_frame_def
  using assms by (intro split_on_join_with) (auto simp: valid_fields_def print_field_def list_all_iff)

lemma parse_frame_print:
  assumes "valid_fields flds" and "tab \<notin> set op" and "op \<noteq> []"
    and "utf8_valid (print_frame op flds)" and "length (print_frame op flds) \<le> MAX_FRAME_BYTES"
  shows "parse_frame (print_frame op flds) = Ok (op, flds)"
proof -
  have "print_frame op flds \<noteq> []"
    using assms(3) by (cases flds) (auto simp: print_frame_def)
  then show ?thesis
    using assms parse_fields_print [of "[]" flds] by (simp add: parse_frame_def split_on_print_frame)
qed

lemma parse_frame_distinct: "parse_frame line = Ok (op, flds) \<Longrightarrow> distinct (map fst flds)"
  by (auto simp: parse_frame_def and_then_Ok dest: parse_fields_distinct split: if_splits list.splits)

text \<open>A frame that reads back as \<open>op\<close> and \<open>flds\<close> is that printed frame and nothing else.\<close>

lemma parse_fields_sound:
  "parse_fields acc parts = Ok flds \<Longrightarrow> \<exists>new. flds = acc @ new \<and> parts = map print_field new"
proof (induction acc parts rule: parse_fields.induct)
  case (2 acc part parts)
  then obtain k v where kv: "split_once (CHR ''='') part = Some (k, v)" "field acc k = None"
      "parse_fields (acc @ [(k, v)]) parts = Ok flds"
    by (auto split: option.splits if_splits)
  then obtain new where "flds = (acc @ [(k, v)]) @ new" "parts = map print_field new"
    using 2 by fastforce
  moreover have "part = print_field (k, v)"
    using kv by (simp add: split_once_Some print_field_def)
  ultimately show ?case
    by (intro exI [of _ "(k, v) # new"]) simp
qed simp

lemma parse_frame_sound: "parse_frame line = Ok (op, flds) \<Longrightarrow> line = print_frame op flds"
  by (auto simp: parse_frame_def and_then_Ok print_frame_def split: if_splits list.splits
      dest!: parse_fields_sound) (metis join_with_split_on)

lemma parse_request_errors: "parse_request line = Err e \<Longrightarrow> e = BadRequest \<or> e = UnknownOp"
proof -
  have "parse_fields acc parts = Err e' \<Longrightarrow> e' = BadRequest" for acc parts e'
    by (induction acc parts rule: parse_fields.induct) (auto split: option.splits if_splits)
  then have frame: "parse_frame l = Err e' \<Longrightarrow> e' = BadRequest" for l e'
    by (auto simp: parse_frame_def and_then_Err split: if_splits list.splits)
  have "ttl_secs flds n = Err e' \<Longrightarrow> e' = BadRequest" for flds n e'
    by (auto simp: ttl_secs_def split: option.splits if_splits)
  moreover assume "parse_request line = Err e"
  ultimately show ?thesis
    by (auto simp: parse_request_def and_then_Err request_of_def required_def frame split: if_splits)
qed

lemma ttl_secs_positive: "ttl_secs flds n = Ok (Some s) \<Longrightarrow> 0 < s \<and> s \<le> u64_max"
  by (auto simp: ttl_secs_def dest: parse_uint_le split: option.splits if_splits)

section \<open>Properties\<close>

definition valid_frame :: "string \<Rightarrow> field_list \<Rightarrow> bool" where
  "valid_frame op flds \<longleftrightarrow>
     valid_fields flds \<and> tab \<notin> set op \<and> print_frame op flds \<noteq> []
     \<and> utf8_valid (print_frame op flds) \<and> length (print_frame op flds) \<le> MAX_FRAME_BYTES"

lemma parse_fields_valid:
  "parse_fields acc parts = Ok flds \<Longrightarrow> valid_fields acc \<Longrightarrow> (\<And>p. p \<in> set parts \<Longrightarrow> tab \<notin> set p) \<Longrightarrow>
   valid_fields flds"
proof (induction acc parts rule: parse_fields.induct)
  case (2 acc part parts)
  then obtain k v where kv: "split_once (CHR ''='') part = Some (k, v)" "field acc k = None"
      "parse_fields (acc @ [(k, v)]) parts = Ok flds"
    by (auto split: option.splits if_splits)
  have "valid_fields (acc @ [(k, v)])"
    using 2(3) 2(4) [of part] kv(1,2) by (auto simp: valid_fields_def field_None_iff split_once_Some)
  then show ?case
    using 2(1) kv 2(4) by fastforce
qed simp

lemma parse_frame_valid: "parse_frame line = Ok (op, flds) \<Longrightarrow> valid_frame op flds"
proof -
  assume parsed: "parse_frame line = Ok (op, flds)"
  then obtain parts where "split_on tab line = op # parts" "parse_fields [] parts = Ok flds"
      "line \<noteq> []" "utf8_valid line" "length line \<le> MAX_FRAME_BYTES"
    by (auto simp: parse_frame_def and_then_Ok split: if_splits list.splits)
  moreover from this have "tab \<notin> set p" if "p \<in> set (op # parts)" for p
    using that split_on_parts [of p tab line] by simp
  ultimately show ?thesis
    using parse_frame_sound [OF parsed] parse_fields_valid [of "[]" parts flds]
    by (auto simp: valid_frame_def valid_fields_def)
qed

text \<open>The broker's frame grammar: a line is read as an operation with its fields exactly when it
  is the tab-separated printing of them, at most 4096 bytes of UTF-8, with pairwise distinct
  field names; so no line has two readings and a repeated field is always refused.\<close>

theorem parse_frame_iff:
  "parse_frame line = Ok (op, flds) \<longleftrightarrow> line = print_frame op flds \<and> valid_frame op flds"
proof
  assume "parse_frame line = Ok (op, flds)"
  then show "line = print_frame op flds \<and> valid_frame op flds"
    using parse_frame_sound parse_frame_valid by blast
next
  assume "line = print_frame op flds \<and> valid_frame op flds"
  then show "parse_frame line = Ok (op, flds)"
    using parse_fields_print [of "[]" flds]
    by (simp add: valid_frame_def parse_frame_def split_on_print_frame)
qed

fun valid_reply :: "response \<Rightarrow> string \<Rightarrow> bool" where
  "valid_reply ROk payload = (payload = [])"
| "valid_reply (ROkFields flds) payload =
     (payload = [] \<and> list_all header_byte flds \<and> tab \<notin> set flds \<and> \<not> starts_with ''len='' flds)"
| "valid_reply (ROkBytes n) payload =
     (length payload = n \<and> n \<le> MAX_FRAME_BYTES \<and> CHR 0x00 \<notin> set payload)"
| "valid_reply (RFailed code message) payload =
     (payload = [] \<and> list_all header_byte (sanitize message))"

fun client_view :: "response \<Rightarrow> string \<Rightarrow> (broker_response, client_error) result" where
  "client_view ROk payload = Ok BrOk"
| "client_view (ROkFields flds) payload = Ok (BrFields flds)"
| "client_view (ROkBytes n) payload = Ok (BrBytes payload)"
| "client_view (RFailed code message) payload = Err (CeBroker code)"



text \<open>Reading a reply from the connection, byte by byte with the deadline checked at each, gives
  the same answer as parsing the whole reply at once, whenever the bytes arrive before the
  deadline and the header is within the frame bound.\<close>

theorem read_response_by_is_parse_response:
  assumes "delivers deadline conn bytes"
    and "length (takeWhile (\<lambda>c. c \<noteq> newline) bytes) \<le> MAX_FRAME_BYTES"
  shows "read_response_by conn deadline = parse_response bytes"
  using assms by (rule read_response_by_eq_parse)

theorem read_response_by_is_parse_response_witness:
  "read_response_by \<lparr>events = map (\<lambda>b. (5, ReadByte b)) (''OK'' @ [newline]), closed_at = 6\<rparr> (Some 7)
     = parse_response (''OK'' @ [newline])"
proof -
  let ?conn = "\<lparr>events = map (\<lambda>b. (5, ReadByte b)) (''OK'' @ [newline]), closed_at = 6\<rparr>"
  have "delivers (Some 7) ?conn (''OK'' @ [newline])"
    by (simp add: delivers_def deadline_passed_def)
  then show ?thesis
    using read_response_by_is_parse_response [of "Some 7" ?conn "''OK'' @ [newline]"]
    by (simp add: MAX_FRAME_BYTES_def)
qed

text \<open>Authority events: the event the broker renders for its instance and epoch is parsed back to
  exactly that instance and epoch, and a line that is parsed at all is a complete event whose
  epoch fits 64 bits and whose instance is a non-empty graphic token.\<close>

theorem authority_event_round_trip:
  "(valid_event (inst, epoch) \<longrightarrow> parse_authority_event (authority_event inst epoch) = Some (inst, epoch))
   \<and> (parse_authority_event line = Some (inst, epoch) \<longrightarrow>
        valid_event (inst, epoch)
        \<and> (\<exists>ds. line = ''EPOCH '' @ ds @ '' instance='' @ inst @ [newline] \<and> dec_value ds = epoch
              \<and> list_all is_ascii_digit ds))"
  using parse_authority_event_print parse_authority_event_valid by blast

theorem authority_event_round_trip_witness:
  "parse_authority_event (authority_event ''6e57'' 42) = Some (''6e57'', 42)"
proof -
  have "valid_event (''6e57'', 42)"
    by (simp add: valid_event_def ascii_defs u64_max_def)
  then show ?thesis
    using authority_event_round_trip by blast
qed

text \<open>The lifetime shorthand: a value is accepted exactly when it is a decimal \<open>u64\<close> followed by
  \<open>s\<close>, \<open>m\<close> or \<open>h\<close> whose product with 1, 60 or 3600 is non-zero and does not overflow 64 bits, and
  the result is that product.\<close>

theorem parse_ttl_iff:
  "parse_ttl v = Some secs \<longleftrightarrow>
     list_all is_ascii v \<and> 2 \<le> length v \<and>
     (\<exists>n m. (last v, m) \<in> {(CHR ''s'', 1), (CHR ''m'', 60), (CHR ''h'', 3600)}
        \<and> parse_uint u64_max (butlast v) = Some n \<and> secs = n * m \<and> 0 < secs \<and> secs \<le> u64_max)"
  unfolding parse_ttl_Some ttl_multiplier_Some by auto

text \<open>A handshake field is returned exactly when it occurs once and is not empty: a missing,
  empty or repeated field makes the broker's answer malformed.\<close>

theorem hello_required_iff:
  "hello_required flds name = Ok v \<longleftrightarrow>
     named_values name (split_on (CHR '' '') flds) = [v] \<and> v \<noteq> []"
  by (rule hello_required_Ok)

end
