(* ===== verification/Names.thy ===== *)
theory Names
  imports Wire
begin

text \<open>
  Secret names, capability names and the plaintext of a key file:
  \<open>crates/secrets/src/secret.rs\<close> and \<open>crates/secrets/src/capability.rs\<close>.

  A validated name is kept as its \<^typ>\<open>string\<close>.  The theory shows that a validated name is safe as
  a file name, that the two kinds of key file are told apart without loss, that a capability
  always has a valid and distinct key, and that a decrypted file yields a value only when it is
  exactly one assignment to the expected name.
\<close>

section \<open>Secret names (\<open>secret.rs\<close>)\<close>

type_synonym secret_name = string

definition MAX_NAME_LEN :: nat where
  "MAX_NAME_LEN = 128"

fun name_characters :: "string \<Rightarrow> bool" where
  "name_characters [] = False"
| "name_characters (first # rest) \<longleftrightarrow>
     (is_ascii_alphabetic first \<or> first = CHR ''_'')
     \<and> list_all (\<lambda>c. is_ascii_alphanumeric c \<or> c = CHR ''_'') rest"

definition parse_name :: "string \<Rightarrow> (secret_name, err_code) result" where
  "parse_name raw =
     (if raw = [] \<or> length raw > MAX_NAME_LEN then Err BadRequest
      else if \<not> name_characters raw then Err BadRequest
      else Ok raw)"

definition file_name :: "secret_name \<Rightarrow> string" where
  "file_name n = n @ ''.env''"

definition local_file_name :: "secret_name \<Rightarrow> string" where
  "local_file_name n = n @ ''.local.env''"

datatype human_file_name = Ignored | Key secret_name bool | Invalid

definition parse_human_file_name :: "string \<Rightarrow> human_file_name" where
  "parse_human_file_name f =
     (case strip_suffix ''.env'' f of
        None \<Rightarrow> Ignored
      | Some stem \<Rightarrow>
          (let (raw, loc) = (case strip_suffix ''.local'' stem of
                                 None \<Rightarrow> (stem, False) | Some r \<Rightarrow> (r, True))
           in case parse_name raw of Ok n \<Rightarrow> Key n loc | Err e \<Rightarrow> Invalid))"

section \<open>The plaintext of a key file\<close>

definition strip_cr :: "string \<Rightarrow> string" where
  "strip_cr line = (case strip_suffix [CHR 0x0D] line of Some l \<Rightarrow> l | None \<Rightarrow> line)"

definition skipped_line :: "string \<Rightarrow> bool" where
  "skipped_line line \<longleftrightarrow> line = [] \<or> hd line = CHR ''#''"

fun assignment_loop :: "string option \<Rightarrow> secret_name \<Rightarrow> string list \<Rightarrow> (string, err_code) result" where
  "assignment_loop found expected [] = ok_or Internal found"
| "assignment_loop found expected (raw # lines) =
     (let line = strip_cr raw in
      if skipped_line line then assignment_loop found expected lines
      else case split_once (CHR ''='') line of
        None \<Rightarrow> Err Internal
      | Some (name, value) \<Rightarrow>
          if name \<noteq> expected \<or> found \<noteq> None \<or> CHR 0x00 \<in> set value then Err Internal
          else assignment_loop (Some value) expected lines)"

definition parse_single_assignment :: "string \<Rightarrow> secret_name \<Rightarrow> (string, err_code) result" where
  "parse_single_assignment plaintext expected = assignment_loop None expected (split_on newline plaintext)"

section \<open>Capabilities (\<open>capability.rs\<close>)\<close>

type_synonym capability = string

definition CAPABILITY_KEY_PREFIX :: string where
  "CAPABILITY_KEY_PREFIX = ''CAP_''"

definition MAX_CAPABILITY_LEN :: nat where
  "MAX_CAPABILITY_LEN = 32"

definition capability_byte :: "char \<Rightarrow> bool" where
  "capability_byte b \<longleftrightarrow> is_ascii_lowercase b \<or> is_ascii_digit b \<or> b = CHR ''_''"

definition parse_capability :: "string \<Rightarrow> (capability, err_code) result" where
  "parse_capability raw =
     (if raw = [] \<or> length raw > MAX_CAPABILITY_LEN then Err BadRequest
      else if \<not> is_ascii_lowercase (hd raw) \<or> \<not> list_all capability_byte raw then Err BadRequest
      else Ok raw)"

definition key_name :: "capability \<Rightarrow> string" where
  "key_name cap = CAPABILITY_KEY_PREFIX @ map to_ascii_uppercase cap"

section \<open>Names\<close>

definition name_char :: "char \<Rightarrow> bool" where
  "name_char c \<longleftrightarrow> is_ascii_alphanumeric c \<or> c = CHR ''_''"

lemma name_characters_all: "name_characters s \<Longrightarrow> list_all name_char s"
  by (cases s rule: name_characters.cases) (auto simp: name_char_def is_ascii_alphanumeric_def list_all_iff)

lemma name_char_not:
  "\<not> name_char (CHR ''.'')" "\<not> name_char (CHR ''/'')" "\<not> name_char (CHR 0x00)"
  "\<not> name_char (CHR ''='')" "\<not> name_char tab" "\<not> name_char newline" "\<not> name_char (CHR ''#'')"
  by (simp_all add: name_char_def ascii_defs)

lemma parse_name_Ok:
  "parse_name raw = Ok n \<longleftrightarrow> n = raw \<and> name_characters raw \<and> length raw \<le> MAX_NAME_LEN"
  by (cases raw) (auto simp: parse_name_def)

lemma parse_name_self: "parse_name raw = Ok n \<Longrightarrow> parse_name n = Ok n"
  by (simp add: parse_name_Ok)

lemma valid_name_chars: "parse_name n = Ok n \<Longrightarrow> c \<in> set n \<Longrightarrow> name_char c"
  using name_characters_all [of n] by (auto simp: parse_name_Ok list_all_iff)

lemma valid_name_notin:
  assumes "parse_name n = Ok n"
  shows "CHR ''.'' \<notin> set n" "CHR ''/'' \<notin> set n" "CHR 0x00 \<notin> set n" "CHR ''='' \<notin> set n"
    "tab \<notin> set n" "newline \<notin> set n"
  using valid_name_chars [OF assms] name_char_not by blast+

lemma valid_name_not_Nil: "parse_name n = Ok n \<Longrightarrow> n \<noteq> []"
  by (auto simp: parse_name_def)

lemma strip_local_None:
  assumes "CHR ''.'' \<notin> set n" shows "strip_suffix ''.local'' n = None"
proof (cases "strip_suffix ''.local'' n")
  case (Some r)
  then have "n = r @ ''.local''"
    by (simp add: strip_suffix_Some)
  then show ?thesis
    using assms by simp
qed simp

lemma parse_file_name:
  "parse_name n = Ok n \<Longrightarrow> parse_human_file_name (file_name n) = Key n False"
  by (simp add: parse_human_file_name_def file_name_def strip_local_None valid_name_notin)

lemma parse_local_file_name:
  assumes "parse_name n = Ok n"
  shows "parse_human_file_name (local_file_name n) = Key n True"
proof -
  have "local_file_name n = (n @ ''.local'') @ ''.env''"
    by (simp add: local_file_name_def)
  then show ?thesis
    using assms strip_suffix_append [of "''.env''" "n @ ''.local''"] strip_suffix_append [of "''.local''" n]
    by (simp only: parse_human_file_name_def option.case prod.case Let_def) simp
qed

definition human_file :: "secret_name \<times> bool \<Rightarrow> string" where
  "human_file kl = (if snd kl then local_file_name (fst kl) else file_name (fst kl))"

definition classify_file :: "string \<Rightarrow> (secret_name \<times> bool) option" where
  "classify_file f = (case parse_human_file_name f of Key n l \<Rightarrow> Some (n, l) | _ \<Rightarrow> None)"

lemma parse_human_file_name_sound:
  "parse_human_file_name f = Key n l \<Longrightarrow> parse_name n = Ok n \<and> f = human_file (n, l)"
  by (auto simp: parse_human_file_name_def human_file_def local_file_name_def file_name_def
      strip_suffix_Some parse_name_self parse_name_Ok Let_def split: option.splits result.splits)

interpretation store_file:
  canonical_codec "\<lambda>kl. parse_name (fst kl) = Ok (fst kl)" human_file classify_file
proof (unfold_locales, goal_cases)
  case (1 kl)
  then show ?case
    by (cases kl) (auto simp: classify_file_def human_file_def parse_file_name parse_local_file_name)
next
  case (2 s kl)
  then show ?case
    by (cases kl) (auto simp: classify_file_def dest: parse_human_file_name_sound
        split: human_file_name.splits)
qed

section \<open>Capability keys\<close>

lemma upper_name_char: "capability_byte c \<Longrightarrow> name_char (to_ascii_uppercase c)"
  by (auto simp: capability_byte_def to_ascii_uppercase_def name_char_def is_ascii_alphanumeric_def
      is_ascii_alphabetic_def is_ascii_lowercase_def is_ascii_uppercase_def is_ascii_digit_def
      in_range_def char_code_char_of)

lemma upper_not_lower: "\<not> is_ascii_lowercase (to_ascii_uppercase c)"
  by (auto simp: to_ascii_uppercase_def is_ascii_lowercase_def in_range_def char_code_char_of)

lemma upper_inj_on_capability:
  assumes "capability_byte c" and "capability_byte d" and "to_ascii_uppercase c = to_ascii_uppercase d"
  shows "c = d"
proof -
  have up: "char_code (to_ascii_uppercase x) = (if is_ascii_lowercase x then char_code x - 32 else char_code x)" for x
    by (auto simp: to_ascii_uppercase_def char_code_char_of is_ascii_lowercase_def in_range_def)
  have rng: "char_code x < 65 \<or> char_code x = 95 \<or> is_ascii_lowercase x" if "capability_byte x" for x
    using that by (auto simp: capability_byte_def is_ascii_digit_def in_range_def char_code_def)
  have "char_code c = char_code d"
    using arg_cong [OF assms(3), of char_code] rng [OF assms(1)] rng [OF assms(2)]
    by (auto simp: up is_ascii_lowercase_def in_range_def simp del: char_code_inject split: if_splits)
  then show ?thesis
    by simp
qed

lemma parse_capability_Ok:
  "parse_capability raw = Ok cap \<longleftrightarrow>
     cap = raw \<and> raw \<noteq> [] \<and> length raw \<le> MAX_CAPABILITY_LEN
     \<and> is_ascii_lowercase (hd raw) \<and> list_all capability_byte raw"
  by (auto simp: parse_capability_def)

lemma key_name_valid:
  assumes "parse_capability raw = Ok cap"
  shows "parse_name (key_name cap) = Ok (key_name cap)"
proof -
  have "list_all name_char (map to_ascii_uppercase cap)"
    using assms upper_name_char by (auto simp: parse_capability_Ok list_all_iff)
  then have "name_characters (key_name cap)"
    by (auto simp: key_name_def CAPABILITY_KEY_PREFIX_def name_char_def list_all_iff ascii_defs)
  moreover have "length (key_name cap) \<le> MAX_NAME_LEN"
    using assms by (auto simp: parse_capability_Ok key_name_def CAPABILITY_KEY_PREFIX_def
        MAX_NAME_LEN_def MAX_CAPABILITY_LEN_def)
  ultimately show ?thesis
    by (simp add: parse_name_Ok)
qed

lemma key_name_inject:
  assumes "parse_capability c = Ok c" and "parse_capability d = Ok d"
  shows "key_name c = key_name d \<longleftrightarrow> c = d"
proof
  assume "key_name c = key_name d"
  then have "map to_ascii_uppercase c = map to_ascii_uppercase d"
    by (simp add: key_name_def)
  moreover have "inj_on to_ascii_uppercase (set c \<union> set d)"
    using assms upper_inj_on_capability
    by (auto simp: parse_capability_Ok list_all_iff intro!: inj_onI)
  ultimately show "c = d"
    by (rule inj_on_map_eq_map [THEN iffD1, rotated])
qed simp

section \<open>One assignment per file\<close>

definition significant_lines :: "string \<Rightarrow> string list" where
  "significant_lines plaintext =
     filter (\<lambda>l. \<not> skipped_line l) (map strip_cr (split_on newline plaintext))"

lemma assignment_loop_found:
  "assignment_loop (Some v) n raws = Ok w \<longleftrightarrow>
     v = w \<and> filter (\<lambda>l. \<not> skipped_line l) (map strip_cr raws) = []"
  by (induction raws) (auto simp: Let_def split: option.splits)

lemma assignment_loop_fresh:
  "CHR ''='' \<notin> set n \<Longrightarrow>
   assignment_loop None n raws = Ok w \<longleftrightarrow>
     filter (\<lambda>l. \<not> skipped_line l) (map strip_cr raws) = [n @ CHR ''='' # w] \<and> CHR 0x00 \<notin> set w"
  by (induction raws)
    (auto simp: Let_def assignment_loop_found split_once_Some split_once_None first_sep_unique
      split: option.splits)

lemma assignment_loop_error: "assignment_loop f n raws = Err e \<Longrightarrow> e = Internal"
  by (induction f n raws rule: assignment_loop.induct)
    (auto simp: Let_def split: option.splits if_splits)

section \<open>Properties\<close>

text \<open>A validated secret name is a safe file name: the committed and the local file it names are
  one path component each (no slash, no NUL, not \<open>.\<close> or \<open>..\<close>, not hidden), short enough for a
  directory entry, and different from each other.\<close>

theorem secret_name_path_safe:
  assumes "parse_name raw = Ok n" and "f = file_name n \<or> f = local_file_name n"
  shows "CHR ''/'' \<notin> set f \<and> CHR 0x00 \<notin> set f \<and> hd f \<noteq> CHR ''.'' \<and> length f \<le> 138
         \<and> file_name n \<noteq> local_file_name n"
proof -
  have n: "parse_name n = Ok n" "length n \<le> 128"
    using assms(1) by (auto simp: parse_name_Ok MAX_NAME_LEN_def)
  then have "hd n \<noteq> CHR ''.''"
    using valid_name_notin(1) [of n] valid_name_not_Nil [of n] by (metis hd_in_set)
  then show ?thesis
    using assms(2) n valid_name_notin [of n] valid_name_not_Nil [of n]
    by (auto simp: file_name_def local_file_name_def)
qed

theorem secret_name_path_safe_witness:
  "CHR ''/'' \<notin> set ''API_KEY.env'' \<and> CHR 0x00 \<notin> set ''API_KEY.env'' \<and> hd ''API_KEY.env'' \<noteq> CHR ''.''
   \<and> length ''API_KEY.env'' \<le> 138 \<and> file_name ''API_KEY'' \<noteq> local_file_name ''API_KEY''"
proof -
  have "parse_name ''API_KEY'' = Ok ''API_KEY''"
    by code_simp
  then show ?thesis
    using secret_name_path_safe [of "''API_KEY''" "''API_KEY''" "''API_KEY.env''"]
    by (simp add: file_name_def)
qed

text \<open>The classification of directory entries inverts the naming of key files: a file name is
  classified as the key \<open>n\<close>, local or committed, exactly when \<open>n\<close> is a valid name and the file
  name is the one this key and locality produce.\<close>

theorem parse_human_file_name_iff:
  "parse_human_file_name f = Key n l \<longleftrightarrow>
     parse_name n = Ok n \<and> f = (if l then local_file_name n else file_name n)"
  using store_file.parse_Some_iff [of f "(n, l)"]
  by (cases "parse_human_file_name f") (auto simp: classify_file_def human_file_def)

text \<open>C30: Anti-swap: for a valid name, a decrypted file yields the value \<open>v\<close> exactly when its only
  line that is neither blank nor a comment is the assignment of \<open>v\<close> to that name and \<open>v\<close> has
  no NUL byte; every other plaintext is refused as \<open>Internal\<close>.\<close>

theorem parse_single_assignment_iff:
  assumes "parse_name raw = Ok n"
  shows "parse_single_assignment plaintext n =
           (case significant_lines plaintext of
              [line] \<Rightarrow> (case strip_prefix (n @ ''='') line of
                          Some v \<Rightarrow> if CHR 0x00 \<in> set v then Err Internal else Ok v
                        | None \<Rightarrow> Err Internal)
            | _ \<Rightarrow> Err Internal)"
proof -
  have "CHR ''='' \<notin> set n"
    using assms valid_name_notin(4) parse_name_self by blast
  then have ok: "parse_single_assignment plaintext n = Ok v \<longleftrightarrow>
      significant_lines plaintext = [n @ ''='' @ v] \<and> CHR 0x00 \<notin> set v" for v
    by (simp add: parse_single_assignment_def assignment_loop_fresh significant_lines_def)
  show ?thesis
  proof (cases "parse_single_assignment plaintext n")
    case (Ok v)
    then show ?thesis
      using ok [of v] strip_prefix_append [of "n @ ''=''" v] by simp
  next
    case (Err e)
    then have "e = Internal" and no: "\<not> (significant_lines plaintext = [n @ ''='' @ v] \<and> CHR 0x00 \<notin> set v)" for v
      using ok [of v] assignment_loop_error by (auto simp: parse_single_assignment_def)
    then show ?thesis
      using Err by (auto simp: strip_prefix_Some split: list.splits option.splits)
  qed
qed

theorem parse_single_assignment_iff_witness:
  "parse_single_assignment ''TOKEN=s3cr3t'' ''TOKEN'' = Ok ''s3cr3t''
   \<and> parse_single_assignment ''OTHER=s3cr3t'' ''TOKEN'' = Err Internal"
proof -
  have "parse_name ''TOKEN'' = Ok ''TOKEN''"
    by code_simp
  moreover have "significant_lines ''TOKEN=s3cr3t'' = [''TOKEN=s3cr3t'']"
    "significant_lines ''OTHER=s3cr3t'' = [''OTHER=s3cr3t'']"
    by code_simp+
  ultimately show ?thesis
    using parse_single_assignment_iff [of "''TOKEN''" "''TOKEN''"] by simp
qed

text \<open>Every accepted capability has a backing key that is itself a valid secret name in the
  reserved \<open>CAP_\<close> namespace, and two different capabilities never share a key.\<close>

theorem capability_key_valid_distinct:
  assumes "parse_capability raw = Ok cap" and "parse_capability raw' = Ok cap'"
  shows "parse_name (key_name cap) = Ok (key_name cap) \<and> starts_with CAPABILITY_KEY_PREFIX (key_name cap)
         \<and> (key_name cap = key_name cap' \<longleftrightarrow> cap = cap')"
  using assms key_name_valid [of raw cap] key_name_inject [of cap cap']
  by (auto simp: parse_capability_Ok key_name_def)

theorem capability_key_valid_distinct_witness:
  "parse_name (key_name ''browser'') = Ok (key_name ''browser'')
   \<and> starts_with CAPABILITY_KEY_PREFIX (key_name ''browser'') \<and> key_name ''browser'' \<noteq> key_name ''agent''"
proof -
  have "parse_capability ''browser'' = Ok ''browser''" "parse_capability ''agent'' = Ok ''agent''"
    by code_simp+
  then show ?thesis
    using capability_key_valid_distinct [of "''browser''" "''browser''" "''agent''" "''agent''"] by simp
qed

end
