(* ===== verification/Containment.thy ===== *)
theory Containment
  imports Wire
begin

text \<open>
  Process containment: the crate \<open>crates/containment\<close> (\<open>lib.rs\<close>, \<open>pinned.rs\<close>, \<open>anchored.rs\<close>,
  \<open>uid.rs\<close>).

  The process table is a parameter: what \<open>/proc\<close> returns for a pid, or a function from a pid to
  the process read.  A \<open>u32\<close> pid is a \<^typ>\<open>nat\<close> and an \<open>i32\<close> pid an \<^typ>\<open>int\<close>.  The parent
  walk with its visited set is shown equal to the bounded search along the chain of parents, and
  both containment tests are characterised by that chain.
\<close>

section \<open>The shared walk (\<open>lib.rs\<close>)\<close>

datatype step = Match | Continue nat | Stop

fun walk_loop :: "nat \<Rightarrow> nat list \<Rightarrow> nat \<Rightarrow> (nat \<Rightarrow> step) \<Rightarrow> bool" where
  "walk_loop 0 visited current visit = False"
| "walk_loop (Suc hops) visited current visit =
     (if current \<in> set visited then False
      else case visit current of
        Match \<Rightarrow> True
      | Stop \<Rightarrow> False
      | Continue parent \<Rightarrow> walk_loop hops (visited @ [current]) parent visit)"

definition walk :: "nat \<Rightarrow> nat \<Rightarrow> (nat \<Rightarrow> step) \<Rightarrow> bool" where
  "walk start max_hops visit = walk_loop max_hops [] start visit"

text \<open>\<open>str::lines\<close>: split at newlines, drop the part after a final newline, strip one CR.\<close>

definition lines_of :: "string \<Rightarrow> string list" where
  "lines_of s =
     (let parts = split_on newline s;
          kept = (if last parts = [] then butlast parts else parts)
      in map (\<lambda>l. case strip_suffix [CHR 0x0D] l of Some l' \<Rightarrow> l' | None \<Rightarrow> l) kept)"

fun find_map :: "('a \<Rightarrow> 'b option) \<Rightarrow> 'a list \<Rightarrow> 'b option" where
  "find_map f [] = None"
| "find_map f (x # xs) = (case f x of Some y \<Rightarrow> Some y | None \<Rightarrow> find_map f xs)"

definition status_field :: "string \<Rightarrow> string \<Rightarrow> int option" where
  "status_field contents key =
     (case find_map (strip_prefix key) (lines_of contents) of
        None \<Rightarrow> None
      | Some v \<Rightarrow> parse_i32 (trim v))"

text \<open>\<open>rfind\<close> of a byte, and \<open>str::get(begin..)\<close> with its character boundary.\<close>

fun rfind :: "'a \<Rightarrow> 'a list \<Rightarrow> nat option" where
  "rfind c [] = None"
| "rfind c (x # xs) =
     (case rfind c xs of Some i \<Rightarrow> Some (Suc i) | None \<Rightarrow> if x = c then Some 0 else None)"

definition str_get_from :: "string \<Rightarrow> nat \<Rightarrow> string option" where
  "str_get_from s begin =
     (if begin < length s \<and> \<not> utf8_cont (char_code (s ! begin)) \<or> begin = length s
      then Some (drop begin s) else None)"

definition stat_fields :: "string \<Rightarrow> string option" where
  "stat_fields stat =
     (case rfind (CHR '')'') stat of
        None \<Rightarrow> None
      | Some i \<Rightarrow> str_get_from stat (i + 2))"

section \<open>Pinned peers (\<open>pinned.rs\<close>)\<close>

definition MAX_ANCESTRY_DEPTH :: nat where
  "MAX_ANCESTRY_DEPTH = 64"

text \<open>A pinned peer is its descriptor; \<open>fdinfo\<close> is what the kernel reports for a descriptor.\<close>

type_synonym pinned_peer = nat

definition pinned_pid :: "(nat \<Rightarrow> string option) \<Rightarrow> pinned_peer \<Rightarrow> int option" where
  "pinned_pid fdinfo peer =
     (case fdinfo peer of
        None \<Rightarrow> None
      | Some info \<Rightarrow>
          (case status_field info ''Pid:'' of
             None \<Rightarrow> None
           | Some v \<Rightarrow> if v > 0 then Some v else None))"

definition is_alive :: "(nat \<Rightarrow> string option) \<Rightarrow> pinned_peer \<Rightarrow> bool" where
  "is_alive fdinfo peer \<longleftrightarrow> pinned_pid fdinfo peer \<noteq> None"

definition i32_max :: int where
  "i32_max = 2 ^ 31 - 1"

definition parent_of :: "(int \<Rightarrow> string option) \<Rightarrow> int \<Rightarrow> int option" where
  "parent_of stat pid =
     (case stat pid of
        None \<Rightarrow> None
      | Some line \<Rightarrow>
          (case stat_fields line of
             None \<Rightarrow> None
           | Some tail \<Rightarrow>
               (case nth_opt (split_whitespace tail) 1 of
                  None \<Rightarrow> None
                | Some f \<Rightarrow> parse_i32 f)))"

definition descends_visit :: "(int \<Rightarrow> string option) \<Rightarrow> int \<Rightarrow> nat \<Rightarrow> step" where
  "descends_visit stat ancestor current =
     (let signed = int current in
      if signed > i32_max then Stop
      else if signed = ancestor then Match
      else if signed \<le> 1 then Stop
      else case parent_of stat signed of
        None \<Rightarrow> Stop
      | Some parent \<Rightarrow> if parent < 0 then Stop else Continue (nat parent))"

definition descends_from_pid :: "(int \<Rightarrow> string option) \<Rightarrow> int \<Rightarrow> int \<Rightarrow> bool" where
  "descends_from_pid stat caller ancestor =
     (if caller < 0 then False
      else walk (nat caller) MAX_ANCESTRY_DEPTH (descends_visit stat ancestor))"

definition descends_from ::
  "(nat \<Rightarrow> string option) \<Rightarrow> (int \<Rightarrow> string option) \<Rightarrow> pinned_peer \<Rightarrow> pinned_peer \<Rightarrow> bool" where
  "descends_from fdinfo stat peer root =
     (case (pinned_pid fdinfo peer, pinned_pid fdinfo root) of
        (Some caller, Some ancestor) \<Rightarrow> descends_from_pid stat caller ancestor
      | _ \<Rightarrow> False)"

section \<open>Anchored peers (\<open>anchored.rs\<close>)\<close>

definition MAX_ANCESTRY_HOPS :: nat where
  "MAX_ANCESTRY_HOPS = 12"

record process =
  argv :: "string list"
  parent :: nat
  start :: nat

record anchored_peer =
  peer_pid :: nat
  peer_start :: nat

type_synonym process_table = "nat \<Rightarrow> process option"

definition contains_visit :: "process_table \<Rightarrow> anchored_peer \<Rightarrow> nat \<Rightarrow> step" where
  "contains_visit lookup a current =
     (case lookup current of
        None \<Rightarrow> Stop
      | Some p \<Rightarrow>
          if current = peer_pid a then (if start p = peer_start a then Match else Stop)
          else if parent p \<le> 1 then Stop
          else Continue (parent p))"

definition contains_with :: "process_table \<Rightarrow> anchored_peer \<Rightarrow> nat \<Rightarrow> bool" where
  "contains_with lookup a pid = walk pid MAX_ANCESTRY_HOPS (contains_visit lookup a)"

fun groups_match :: "nat list \<Rightarrow> string list \<Rightarrow> bool" where
  "groups_match [] parts = (parts = [])"
| "groups_match (w # ws) [] = False"
| "groups_match (w # ws) (p # ps) =
     (length p = w \<and> list_all is_ascii_hexdigit p \<and> groups_match ws ps)"

definition is_session_id :: "string \<Rightarrow> bool" where
  "is_session_id v = groups_match [8, 4, 4, 4, 12] (split_on (CHR ''-'') v)"

fun resume_argument :: "string list \<Rightarrow> string option" where
  "resume_argument [] = None"
| "resume_argument (a # as) =
     (if a = ''--resume''
      then (case as of [] \<Rightarrow> None | v # _ \<Rightarrow> if is_session_id v then Some v else None)
      else resume_argument as)"

definition session_of :: "process \<Rightarrow> string option" where
  "session_of p =
     (case argv p of
        [] \<Rightarrow> None
      | command # _ \<Rightarrow>
          if command \<noteq> ''omp'' \<and> strip_suffix ''/omp'' command = None then None
          else resume_argument (argv p))"

fun anchor_loop ::
  "nat \<Rightarrow> nat \<Rightarrow> process_table \<Rightarrow> (nat \<Rightarrow> bool) \<Rightarrow> nat \<Rightarrow> anchored_peer option \<Rightarrow> anchored_peer option"
where
  "anchor_loop 0 par lookup is_omp current fallback = fallback"
| "anchor_loop (Suc hops) par lookup is_omp current fallback =
     (case lookup current of
        None \<Rightarrow> fallback
      | Some p \<Rightarrow>
          (let fallback' = (if current = par then Some \<lparr>peer_pid = current, peer_start = start p\<rparr>
                            else fallback)
           in if session_of p \<noteq> None \<and> is_omp current
              then Some \<lparr>peer_pid = current, peer_start = start p\<rparr>
              else if parent p \<le> 1 \<or> parent p = current then fallback'
              else anchor_loop hops par lookup is_omp (parent p) fallback'))"

definition anchor_for_with :: "nat \<Rightarrow> process_table \<Rightarrow> (nat \<Rightarrow> bool) \<Rightarrow> anchored_peer option" where
  "anchor_for_with pid lookup is_omp =
     (case lookup pid of
        None \<Rightarrow> None
      | Some p \<Rightarrow>
          if parent p \<le> 1 \<or> parent p = pid then None
          else anchor_loop MAX_ANCESTRY_HOPS (parent p) lookup is_omp (parent p) None)"

fun session_label_loop :: "nat \<Rightarrow> process_table \<Rightarrow> (nat \<Rightarrow> bool) \<Rightarrow> nat \<Rightarrow> string option" where
  "session_label_loop 0 lookup is_omp current = None"
| "session_label_loop (Suc hops) lookup is_omp current =
     (case lookup current of
        None \<Rightarrow> None
      | Some p \<Rightarrow>
          (case session_of p of
             Some session \<Rightarrow> if is_omp current then Some session else None
           | None \<Rightarrow>
               if parent p \<le> 1 \<or> parent p = current then None
               else session_label_loop hops lookup is_omp (parent p)))"

definition session_label_with :: "nat \<Rightarrow> process_table \<Rightarrow> (nat \<Rightarrow> bool) \<Rightarrow> string option" where
  "session_label_with pid lookup is_omp = session_label_loop MAX_ANCESTRY_HOPS lookup is_omp pid"

text \<open>\<open>exe\<close> is the file name of the target of \<open>/proc/<pid>/exe\<close>, if it can be read.\<close>

definition is_omp_executable :: "(nat \<Rightarrow> string option) \<Rightarrow> nat \<Rightarrow> bool" where
  "is_omp_executable exe pid = (case exe pid of None \<Rightarrow> False | Some name \<Rightarrow> name = ''omp'')"

definition read_process :: "(nat \<Rightarrow> string option) \<Rightarrow> (nat \<Rightarrow> string option) \<Rightarrow> process_table" where
  "read_process cmdline stat pid =
     (case cmdline pid of
        None \<Rightarrow> None
      | Some raw \<Rightarrow>
          (case stat pid of
             None \<Rightarrow> None
           | Some line \<Rightarrow>
               (case stat_fields line of
                  None \<Rightarrow> None
                | Some tail \<Rightarrow>
                    (case (nth_opt (split_whitespace tail) 1, nth_opt (split_whitespace tail) 19) of
                       (Some par, Some started) \<Rightarrow>
                         (case (parse_uint u32_max par, parse_uint u64_max started) of
                            (Some p, Some s) \<Rightarrow>
                              Some \<lparr>argv = map from_utf8_lossy
                                             (filter (\<lambda>part. part \<noteq> []) (split_on (CHR 0x00) raw)),
                                    parent = p, start = s\<rparr>
                          | _ \<Rightarrow> None)
                     | _ \<Rightarrow> None))))"

definition process_start :: "process_table \<Rightarrow> nat \<Rightarrow> nat option" where
  "process_start lookup pid = map_option start (lookup pid)"

section \<open>Same user (\<open>uid.rs\<close>)\<close>

definition OVERFLOW_UID :: nat where
  "OVERFLOW_UID = 65534"

definition same_user :: "nat \<Rightarrow> nat \<Rightarrow> bool" where
  "same_user peer_uid own_uid \<longleftrightarrow> peer_uid = own_uid \<or> peer_uid = OVERFLOW_UID"

section \<open>The walk is a bounded search along the parents\<close>

fun plain_walk :: "nat \<Rightarrow> nat \<Rightarrow> (nat \<Rightarrow> step) \<Rightarrow> bool" where
  "plain_walk 0 current visit = False"
| "plain_walk (Suc n) current visit =
     (case visit current of Match \<Rightarrow> True | Stop \<Rightarrow> False | Continue p \<Rightarrow> plain_walk n p visit)"

fun chain :: "(nat \<Rightarrow> step) \<Rightarrow> nat \<Rightarrow> nat \<Rightarrow> nat option" where
  "chain visit current 0 = Some current"
| "chain visit current (Suc k) =
     (case visit current of Continue p \<Rightarrow> chain visit p k | _ \<Rightarrow> None)"

lemma plain_walk_mono: "plain_walk m current visit \<Longrightarrow> m \<le> n \<Longrightarrow> plain_walk n current visit"
proof (induction m arbitrary: current n)
  case (Suc m)
  then show ?case
    by (cases n) (auto split: step.splits)
qed simp

lemma walk_loop_plain: "walk_loop n visited current visit \<Longrightarrow> plain_walk n current visit"
  by (induction n arbitrary: visited current) (auto split: step.splits if_splits)

text \<open>Every visited process is further from a match than the current one, so none is met again.\<close>

lemma plain_walk_loop:
  assumes "plain_walk (Suc m) current visit" and "\<not> plain_walk m current visit"
    and "\<And>v. v \<in> set visited \<Longrightarrow> \<not> plain_walk (Suc m) v visit"
  shows "walk_loop (Suc m + j) visited current visit"
  using assms
proof (induction m arbitrary: current visited)
  case 0
  then have "current \<notin> set visited" and "visit current = Match"
    by (metis, auto split: step.splits)
  then show ?case
    by simp
next
  case (Suc m)
  then have fresh: "current \<notin> set visited"
    by metis
  show ?case
  proof (cases "visit current")
    case (Continue p)
    have "walk_loop (Suc m + j) (visited @ [current]) p visit"
    proof (rule Suc.IH)
      show "plain_walk (Suc m) p visit" "\<not> plain_walk m p visit"
        using Suc.prems(1,2) Continue by simp_all
      show "\<not> plain_walk (Suc m) v visit" if "v \<in> set (visited @ [current])" for v
        using that Suc.prems(2,3) plain_walk_mono [of "Suc m" v visit "Suc (Suc m)"] by auto
    qed
    then show ?thesis
      using fresh Continue by simp
  qed (use Suc.prems(1) fresh in simp_all)
qed

lemma walk_eq_plain: "walk pid n visit \<longleftrightarrow> plain_walk n pid visit"
proof
  assume "plain_walk n pid visit"
  then obtain m where m: "plain_walk m pid visit" "\<And>k. k < m \<Longrightarrow> \<not> plain_walk k pid visit" "m \<le> n"
    using exists_least_iff [of "\<lambda>m. plain_walk m pid visit"] by (metis linorder_not_less)
  then obtain m' where "m = Suc m'"
    by (cases m) auto
  then show "walk pid n visit"
    using m plain_walk_loop [of m' pid visit "[]" "n - m"] by (simp add: walk_def)
qed (auto simp: walk_def dest: walk_loop_plain)

lemma plain_walk_chain:
  "plain_walk n pid visit \<longleftrightarrow> (\<exists>k < n. \<exists>p. chain visit pid k = Some p \<and> visit p = Match)"
proof (induction n arbitrary: pid)
  case (Suc n)
  have "(\<exists>k < Suc n. P k) \<longleftrightarrow> P 0 \<or> (\<exists>k < n. P (Suc k))" for P
    by (auto simp: less_Suc_eq_0_disj)
  then show ?case
    using Suc by (cases "visit pid") auto
qed simp

lemmas walk_chain = trans [OF walk_eq_plain plain_walk_chain]

text \<open>The parents of a process in a table, up to but not including init.\<close>

fun ancestor :: "process_table \<Rightarrow> nat \<Rightarrow> nat \<Rightarrow> nat option" where
  "ancestor lookup pid 0 = Some pid"
| "ancestor lookup pid (Suc k) =
     (case lookup pid of
        None \<Rightarrow> None
      | Some p \<Rightarrow> if parent p \<le> 1 then None else ancestor lookup (parent p) k)"

lemma chain_ancestor: "chain (contains_visit lookup a) pid k = Some q \<Longrightarrow> ancestor lookup pid k = Some q"
  by (induction k arbitrary: pid)
    (auto simp: contains_visit_def split: step.splits option.splits if_splits)

lemma contains_visit_Match:
  "contains_visit lookup a q = Match \<longleftrightarrow>
     q = peer_pid a \<and> (\<exists>p. lookup q = Some p \<and> start p = peer_start a)"
  by (auto simp: contains_visit_def split: option.splits if_splits)

lemma ancestor_chain_hit:
  assumes "ancestor lookup pid k = Some (peer_pid a)"
  shows "\<exists>j \<le> k. chain (contains_visit lookup a) pid j = Some (peer_pid a)"
  using assms
proof (induction k arbitrary: pid)
  case (Suc k)
  show ?case
  proof (cases "pid = peer_pid a")
    case True
    then show ?thesis
      by (intro exI [of _ 0]) simp
  next
    case False
    obtain p where p: "lookup pid = Some p" "\<not> parent p \<le> 1" "ancestor lookup (parent p) k = Some (peer_pid a)"
      using Suc.prems by (auto split: option.splits if_splits)
    then obtain j where "j \<le> k" "chain (contains_visit lookup a) (parent p) j = Some (peer_pid a)"
      using Suc.IH by blast
    moreover have "contains_visit lookup a pid = Continue (parent p)"
      using False p by (simp add: contains_visit_def)
    ultimately show ?thesis
      by (intro exI [of _ "Suc j"]) simp
  qed
qed simp

lemma contains_with_ancestor:
  "contains_with lookup a pid \<longleftrightarrow>
     (\<exists>k < MAX_ANCESTRY_HOPS. ancestor lookup pid k = Some (peer_pid a))
     \<and> (\<exists>p. lookup (peer_pid a) = Some p \<and> start p = peer_start a)"
  (is "?l \<longleftrightarrow> ?r")
proof
  assume ?l
  then obtain k where "k < MAX_ANCESTRY_HOPS" "chain (contains_visit lookup a) pid k = Some (peer_pid a)"
      "contains_visit lookup a (peer_pid a) = Match"
    by (auto simp: contains_with_def walk_chain contains_visit_Match)
  then show ?r
    using chain_ancestor by (auto simp: contains_visit_Match)
next
  assume ?r
  then obtain k j where "k < MAX_ANCESTRY_HOPS" "j \<le> k"
      "chain (contains_visit lookup a) pid j = Some (peer_pid a)"
    using ancestor_chain_hit by blast
  moreover have "contains_visit lookup a (peer_pid a) = Match"
    using \<open>?r\<close> by (simp add: contains_visit_Match)
  ultimately show ?l
    unfolding contains_with_def walk_chain by (meson le_less_trans)
qed

section \<open>Anchors\<close>

lemma ancestor_Suc_step:
  "ancestor lookup pid (Suc k) =
     (case ancestor lookup pid k of
        None \<Rightarrow> None
      | Some q \<Rightarrow> (case lookup q of None \<Rightarrow> None | Some p \<Rightarrow> if parent p \<le> 1 then None else Some (parent p)))"
proof (induction k arbitrary: pid)
  case (Suc k)
  then show ?case
    by (cases "lookup pid") (simp_all only: ancestor.simps option.case if_cancel split: if_split, simp_all)
qed (simp split: option.splits)

text \<open>What an anchor is: a live ancestor, either the verified session or the immediate parent.\<close>

definition anchors :: "process_table \<Rightarrow> (nat \<Rightarrow> bool) \<Rightarrow> nat \<Rightarrow> anchored_peer \<Rightarrow> nat \<Rightarrow> bool" where
  "anchors lookup is_omp pid a k \<longleftrightarrow>
     ancestor lookup pid k = Some (peer_pid a) \<and> 1 < peer_pid a
     \<and> (\<exists>p. lookup (peer_pid a) = Some p \<and> start p = peer_start a
            \<and> (k = 1 \<or> session_of p \<noteq> None \<and> is_omp (peer_pid a)))"

lemma anchor_loop_sound:
  assumes "anchor_loop hops par lookup is_omp current fallback = Some a"
    and "ancestor lookup pid k = Some current" and "1 < current" and "1 \<le> k"
    and "ancestor lookup pid 1 = Some par"
    and "\<And>b. fallback = Some b \<Longrightarrow> anchors lookup is_omp pid b 1"
  shows "\<exists>j \<ge> 1. (j = 1 \<or> j < k + hops) \<and> anchors lookup is_omp pid a j"
  using assms
proof (induction hops arbitrary: current fallback k)
  case 0
  then show ?case
    by auto
next
  case (Suc hops)
  show ?case
  proof (cases "lookup current")
    case None
    then show ?thesis
      using Suc.prems by auto
  next
    case (Some p)
    define here where "here = \<lparr>peer_pid = current, peer_start = start p\<rparr>"
    define fallback' where "fallback' = (if current = par then Some here else fallback)"
    have fb: "anchors lookup is_omp pid b 1" if "fallback' = Some b" for b
      using that Suc.prems(3,5,6) Some by (auto simp: fallback'_def here_def anchors_def split: if_splits)
    have "anchor_loop (Suc hops) par lookup is_omp current fallback =
        (if session_of p \<noteq> None \<and> is_omp current then Some here
         else if parent p \<le> 1 \<or> parent p = current then fallback'
         else anchor_loop hops par lookup is_omp (parent p) fallback')"
      using Some by (simp add: Let_def fallback'_def here_def)
    then consider (session) "session_of p \<noteq> None" "is_omp current" "a = here"
      | (fallback) "fallback' = Some a"
      | (up) "1 < parent p" "anchor_loop hops par lookup is_omp (parent p) fallback' = Some a"
      using Suc.prems(1) by (auto simp del: anchor_loop.simps split: if_splits)
    then show ?thesis
    proof cases
      case session
      then have "anchors lookup is_omp pid a k"
        using Suc.prems Some by (auto simp: anchors_def here_def)
      then show ?thesis
        using Suc.prems(4) by (intro exI [of _ k]) simp
    next
      case fallback
      then show ?thesis
        using fb by auto
    next
      case up
      then have "ancestor lookup pid (Suc k) = Some (parent p)"
        using Suc.prems(2) Some by (simp only: ancestor_Suc_step) simp
      then show ?thesis
        using Suc.IH [OF up(2) _ up(1) _ Suc.prems(5) fb, of "Suc k"] by auto
    qed
  qed
qed

lemma anchor_for_with_anchors:
  assumes "anchor_for_with pid lookup is_omp = Some a"
  shows "\<exists>k \<ge> 1. k \<le> MAX_ANCESTRY_HOPS \<and> anchors lookup is_omp pid a k"
proof -
  obtain p where p: "lookup pid = Some p" "1 < parent p"
      "anchor_loop MAX_ANCESTRY_HOPS (parent p) lookup is_omp (parent p) None = Some a"
    using assms by (auto simp: anchor_for_with_def split: option.splits if_splits)
  then have "ancestor lookup pid 1 = Some (parent p)"
    by simp
  then show ?thesis
    using anchor_loop_sound [OF p(3), of pid 1] p(2) by (auto simp: MAX_ANCESTRY_HOPS_def)
qed

section \<open>Fields of a stat line\<close>

lemma rfind_last: "c \<notin> set ys \<Longrightarrow> rfind c (xs @ c # ys) = Some (length xs)"
proof (induction xs)
  case Nil
  have "rfind c ys = None"
    using Nil by (induction ys) auto
  then show ?case
    by simp
qed simp

lemma stat_fields_last_paren:
  assumes "CHR '')'' \<notin> set tail" and "tail \<noteq> []" and "is_ascii (hd tail)"
  shows "stat_fields (pre @ '') '' @ tail) = Some tail"
proof -
  have "rfind (CHR '')'') (pre @ '') '' @ tail) = Some (length pre)"
    using assms(1) rfind_last [of "CHR '')''" "CHR '' '' # tail" pre] by simp
  moreover have "\<not> utf8_cont (char_code (hd tail))"
    using assms(3) by (simp add: is_ascii_def utf8_cont_def)
  ultimately show ?thesis
    using assms(2) by (simp add: stat_fields_def str_get_from_def nth_append hd_conv_nth)
qed

section \<open>Descent from a pinned root\<close>

fun pid_ancestor :: "(int \<Rightarrow> string option) \<Rightarrow> int \<Rightarrow> nat \<Rightarrow> int option" where
  "pid_ancestor stat pid 0 = Some pid"
| "pid_ancestor stat pid (Suc k) =
     (if pid \<le> 1 then None
      else case parent_of stat pid of
        None \<Rightarrow> None
      | Some p \<Rightarrow> if p < 0 then None else pid_ancestor stat p k)"

lemma parse_i32_range: "parse_i32 s = Some v \<Longrightarrow> - (2 ^ 31) \<le> v \<and> v \<le> i32_max"
  by (auto simp: parse_i32_def i32_max_def Let_def split: if_splits prod.splits list.splits)

lemma parent_of_range: "parent_of stat pid = Some p \<Longrightarrow> p \<le> i32_max"
  by (auto simp: parent_of_def dest!: parse_i32_range split: option.splits)

lemma descends_chain:
  assumes "0 \<le> pid" and "pid \<le> i32_max"
  shows "(\<exists>k < n. \<exists>q. chain (descends_visit stat anc) (nat pid) k = Some q \<and> descends_visit stat anc q = Match)
         \<longleftrightarrow> (\<exists>k < n. pid_ancestor stat pid k = Some anc)"
  using assms
proof (induction n arbitrary: pid)
  case (Suc n)
  have ex: "(\<exists>k < Suc n. P k) \<longleftrightarrow> P 0 \<or> (\<exists>k < n. P (Suc k))" for P
    by (auto simp: less_Suc_eq_0_disj)
  show ?case
  proof (cases "\<exists>p. descends_visit stat anc (nat pid) = Continue p")
    case True
    then obtain par where par: "parent_of stat pid = Some par" "0 \<le> par" "pid \<noteq> anc" "\<not> pid \<le> 1"
        "descends_visit stat anc (nat pid) = Continue (nat par)"
      using Suc.prems by (auto simp: descends_visit_def Let_def split: if_splits option.splits)
    then show ?thesis
      using Suc.IH [OF par(2) parent_of_range [OF par(1)]] by (simp add: ex)
  next
    case False
    then show ?thesis
      using Suc.prems unfolding ex
      by (auto simp: descends_visit_def Let_def split: if_splits option.splits step.splits)
  qed
qed simp

section \<open>Properties\<close>

text \<open>The parent walk with its visited set and hop bound answers exactly whether the chain of
  parents reaches a match within the bound: cycle detection never changes the answer, and the
  walk always returns.\<close>

theorem walk_iff_chain:
  "walk pid max_hops visit \<longleftrightarrow>
     (\<exists>k < max_hops. \<exists>p. chain visit pid k = Some p \<and> visit p = Match)"
  by (rule walk_chain)

text \<open>The authorization test of a browser grant's endpoint: a pid is contained in an anchor
  exactly when the anchor's pid is among its first twelve self-or-ancestors below init and the
  process now at that pid has the anchored start time, so a recycled pid never matches.\<close>

theorem contains_with_iff:
  "contains_with lookup a pid \<longleftrightarrow>
     (\<exists>k < 12. ancestor lookup pid k = Some (peer_pid a))
     \<and> map_option start (lookup (peer_pid a)) = Some (peer_start a)"
  unfolding contains_with_ancestor MAX_ANCESTRY_HOPS_def by auto


text \<open>C34: A process cannot forge its parent through its own name: whatever bytes the command name
  holds, parentheses, spaces and newlines included, the parent read from the stat line is the
  one the kernel wrote after the last parenthesis.\<close>

theorem parent_of_unforgeable:
  assumes "stat pid = Some (show_nat (nat pid) @ '' ('' @ comm @ '') '' @ [st] @ '' '' @ show_nat ppid @ '' '' @ rest)"
    and "is_ascii_graphic st" and "st \<noteq> CHR '')''" and "CHR '')'' \<notin> set rest" and "int ppid \<le> i32_max"
  shows "parent_of stat pid = Some (int ppid)"
proof -
  let ?tail = "[st] @ '' '' @ show_nat ppid @ '' '' @ rest"
  have digit: "is_ascii_graphic c \<and> c \<noteq> CHR '')''" if "c \<in> set (show_nat ppid)" for c
    using that show_nat_digits [of ppid] by (auto simp: list_all_iff ascii_defs)
  then have "stat_fields ((show_nat (nat pid) @ '' ('' @ comm) @ '') '' @ ?tail) = Some ?tail"
    using assms(2-4) by (intro stat_fields_last_paren) (auto simp: ascii_defs)
  moreover have "split_whitespace ?tail = [st] # show_nat ppid # split_whitespace rest"
    using assms(2) digit split_whitespace_word [of "[st]"] split_whitespace_word [of "show_nat ppid"]
    by (simp add: list_all_iff)
  ultimately show ?thesis
    using assms(1,5) by (simp add: parent_of_def nth_opt_def parse_i32_show_nat i32_max_def)
qed

text \<open>An anchor derived for a caller is a live proper ancestor within twelve hops, never init,
  recorded with its current start time; it is either a process whose argument vector and
  executable are both those of a session, or the caller's immediate parent.  Unless it is the
  twelfth ancestor, the caller itself is contained in the anchor it was given.\<close>

theorem anchor_for_with_sound:
  assumes "anchor_for_with pid lookup is_omp = Some a"
  shows "\<exists>k p. 1 \<le> k \<and> k \<le> 12 \<and> ancestor lookup pid k = Some (peer_pid a) \<and> 1 < peer_pid a
           \<and> lookup (peer_pid a) = Some p \<and> start p = peer_start a
           \<and> (k = 1 \<or> session_of p \<noteq> None \<and> is_omp (peer_pid a))
           \<and> (k \<noteq> 12 \<longrightarrow> contains_with lookup a pid)"
proof -
  obtain k p where *: "1 \<le> k" "k \<le> 12" "ancestor lookup pid k = Some (peer_pid a)" "1 < peer_pid a"
      "lookup (peer_pid a) = Some p" "start p = peer_start a"
      "k = 1 \<or> session_of p \<noteq> None \<and> is_omp (peer_pid a)"
    using anchor_for_with_anchors [OF assms]
    by (auto simp: anchors_def MAX_ANCESTRY_HOPS_def simp del: ancestor.simps)
  then have "k \<noteq> 12 \<longrightarrow> contains_with lookup a pid"
    unfolding contains_with_ancestor MAX_ANCESTRY_HOPS_def by (metis le_neq_implies_less)
  then show ?thesis
    using * by blast
qed

text \<open>A process tree for the witnesses: a session at pid 100 and a line of descendants below it.\<close>

definition line_table :: process_table where
  "line_table pid =
     (if pid = 100 then Some \<lparr>argv = [''omp'', ''--resume'', ''01234567-89ab-cdef-0123-456789abcdef''],
                              parent = 50, start = 7\<rparr>
      else if 100 < pid \<and> pid \<le> 120 then Some \<lparr>argv = [''sh''], parent = pid - 1, start = pid\<rparr>
      else None)"

theorem parent_of_unforgeable_witness:
  "parent_of (\<lambda>_. Some (''42 (a) S 1 (b) R 77 42 0'')) 42 = Some 77"
proof -
  have "show_nat (nat 42) = ''42''" "show_nat 77 = ''77''"
    by code_simp+
  then show ?thesis
    using parent_of_unforgeable [of "\<lambda>_. Some (''42 (a) S 1 (b) R 77 42 0'')" 42 "''a) S 1 (b''" "CHR ''R''" 77 "''42 0''"]
    by (simp add: ascii_defs i32_max_def)
qed

theorem anchor_for_with_sound_witness:
  "\<exists>k p. 1 \<le> k \<and> k \<le> 12 \<and> ancestor line_table 104 k = Some 100 \<and> (1 :: nat) < 100
     \<and> line_table 100 = Some p \<and> start p = 7 \<and> (k = 1 \<or> session_of p \<noteq> None \<and> (\<lambda>_. True) (100 :: nat))
     \<and> (k \<noteq> 12 \<longrightarrow> contains_with line_table \<lparr>peer_pid = 100, peer_start = 7\<rparr> 104)"
proof -
  have "anchor_for_with 104 line_table (\<lambda>_. True) = Some \<lparr>peer_pid = 100, peer_start = 7\<rparr>"
    by code_simp
  from anchor_for_with_sound [OF this] show ?thesis
    by (simp del: ancestor.simps)
qed

text \<open>The anchor search and the containment test disagree by one hop: in a line of processes
  whose twelfth ancestor is the session, the search returns that session as the anchor and the
  containment test then refuses the very caller it was derived for.\<close>

theorem anchor_twelfth_ancestor_excludes_caller:
  "anchor_for_with 112 line_table (\<lambda>_. True) = Some \<lparr>peer_pid = 100, peer_start = 7\<rparr>
   \<and> \<not> contains_with line_table \<lparr>peer_pid = 100, peer_start = 7\<rparr> 112
   \<and> contains_with line_table \<lparr>peer_pid = 100, peer_start = 7\<rparr> 111"
  by code_simp

end
