(* ===== verification/Store.thy ===== *)
theory Store
  imports Names "HOL-Library.Char_ord" "HOL-Library.List_Lexorder"
begin

text \<open>
  The human-tier store: \<open>crates/secrets/src/store.rs\<close>.

  The file system is a parameter, a record of what the four system calls the code makes return:
  listing a directory, opening it, opening an entry below it without following links, and
  \<open>fstat\<close> of the descriptor.  The theory shows that a key is served only when exactly one
  file of all sources backs it, that the file opened is the file located, and that a malformed
  name in any source refuses every request.
\<close>

section \<open>Definitions\<close>

record file_timestamp =
  seconds :: int
  nanoseconds :: int

record file_identity =
  device :: nat
  inode :: nat
  size_bytes :: int
  modified :: file_timestamp
  changed :: file_timestamp

record file_stat =
  regular :: bool
  stat_identity :: file_identity

datatype dir_listing = DirMissing | DirError | DirEntries "string option list"

record filesystem =
  read_dir :: "string \<Rightarrow> dir_listing"
  open_dir :: "string \<Rightarrow> bool"
  openat :: "string \<Rightarrow> string \<Rightarrow> nat option"
  fstat :: "nat \<Rightarrow> file_stat option"

record human_source =
  label :: string
  dir :: string

record opened_human_file =
  opened_label :: string
  identity :: file_identity
  file_fd :: nat

record candidate =
  cand_label :: string
  cand_dir :: string
  cand_file :: string

type_synonym human_store = "human_source list"

definition directory_entries ::
  "filesystem \<Rightarrow> string \<Rightarrow> (string option list option, err_code) result" where
  "directory_entries fs d =
     (case read_dir fs d of
        DirEntries es \<Rightarrow> Ok (Some es)
      | DirMissing \<Rightarrow> Ok None
      | DirError \<Rightarrow> Err Internal)"

text \<open>A name that is not UTF-8 is skipped; an \<open>.env\<close> name that is no key is an error.\<close>

definition store_file_name :: "string \<Rightarrow> ((secret_name \<times> bool \<times> string) option, err_code) result" where
  "store_file_name f =
     (if \<not> utf8_valid f then Ok None
      else case parse_human_file_name f of
        Ignored \<Rightarrow> Ok None
      | Invalid \<Rightarrow> Err Internal
      | Key n l \<Rightarrow> Ok (Some (n, l, f)))"

definition candidate_label :: "human_source \<Rightarrow> bool \<Rightarrow> string" where
  "candidate_label src loc = (if loc then label src @ ''.local'' else label src)"

fun source_candidates ::
  "human_source \<Rightarrow> secret_name \<Rightarrow> string option list \<Rightarrow> (candidate list, err_code) result" where
  "source_candidates src requested [] = Ok []"
| "source_candidates src requested (None # es) = Err Internal"
| "source_candidates src requested (Some f # es) =
     and_then (store_file_name f)
       (\<lambda>found. and_then (source_candidates src requested es)
         (\<lambda>rest. case found of
             Some (n, loc, name) \<Rightarrow>
               if n = requested
               then Ok (\<lparr>cand_label = candidate_label src loc, cand_dir = dir src, cand_file = name\<rparr> # rest)
               else Ok rest
           | None \<Rightarrow> Ok rest))"

fun candidates :: "filesystem \<Rightarrow> human_store \<Rightarrow> secret_name \<Rightarrow> (candidate list, err_code) result" where
  "candidates fs [] requested = Ok []"
| "candidates fs (src # srcs) requested =
     and_then (directory_entries fs (dir src))
       (\<lambda>listing. case listing of
           None \<Rightarrow> candidates fs srcs requested
         | Some es \<Rightarrow>
             and_then (source_candidates src requested es)
               (\<lambda>here. and_then (candidates fs srcs requested) (\<lambda>rest. Ok (here @ rest))))"

definition locate :: "filesystem \<Rightarrow> human_store \<Rightarrow> secret_name \<Rightarrow> (string, err_code) result" where
  "locate fs store n =
     and_then (candidates fs store n)
       (\<lambda>cs. case cs of
           [] \<Rightarrow> Err NotHumanKey
         | [c] \<Rightarrow> Ok (cand_label c)
         | _ \<Rightarrow> Err AmbiguousKey)"

definition open_candidate :: "filesystem \<Rightarrow> candidate \<Rightarrow> (opened_human_file, err_code) result" where
  "open_candidate fs c =
     (if \<not> open_dir fs (cand_dir c) then Err NotHumanKey
      else case openat fs (cand_dir c) (cand_file c) of
        None \<Rightarrow> Err NotHumanKey
      | Some fd \<Rightarrow>
          (case fstat fs fd of
             None \<Rightarrow> Err NotHumanKey
           | Some st \<Rightarrow>
               if \<not> regular st then Err NotHumanKey
               else Ok \<lparr>opened_label = cand_label c, identity = stat_identity st, file_fd = fd\<rparr>))"

definition open_key :: "filesystem \<Rightarrow> human_store \<Rightarrow> secret_name \<Rightarrow> (opened_human_file, err_code) result" where
  "open_key fs store n =
     and_then (candidates fs store n)
       (\<lambda>cs. case cs of
           [] \<Rightarrow> Err NotHumanKey
         | [c] \<Rightarrow> open_candidate fs c
         | _ \<Rightarrow> Err AmbiguousKey)"

definition key_identity :: "filesystem \<Rightarrow> human_store \<Rightarrow> secret_name \<Rightarrow> (file_identity, err_code) result" where
  "key_identity fs store n = and_then (open_key fs store n) (\<lambda>f. Ok (identity f))"

fun source_names :: "string option list \<Rightarrow> (secret_name list, err_code) result" where
  "source_names [] = Ok []"
| "source_names (None # es) = Err Internal"
| "source_names (Some f # es) =
     and_then (store_file_name f)
       (\<lambda>found. and_then (source_names es)
         (\<lambda>rest. case found of Some (n, loc, name) \<Rightarrow> Ok (n # rest) | None \<Rightarrow> Ok rest))"

fun all_names :: "filesystem \<Rightarrow> human_store \<Rightarrow> (secret_name list, err_code) result" where
  "all_names fs [] = Ok []"
| "all_names fs (src # srcs) =
     and_then (directory_entries fs (dir src))
       (\<lambda>listing. case listing of
           None \<Rightarrow> all_names fs srcs
         | Some es \<Rightarrow>
             and_then (source_names es)
               (\<lambda>here. and_then (all_names fs srcs) (\<lambda>rest. Ok (here @ rest))))"

definition key_names :: "filesystem \<Rightarrow> human_store \<Rightarrow> (secret_name list, err_code) result" where
  "key_names fs store = and_then (all_names fs store) (\<lambda>ns. Ok (sorted_list_of_set (set ns)))"

section \<open>Every file of every source\<close>

fun entries_of :: "dir_listing \<Rightarrow> string list" where
  "entries_of (DirEntries es) = concat (map (\<lambda>e. case e of Some f \<Rightarrow> [f] | None \<Rightarrow> []) es)"
| "entries_of DirMissing = []"
| "entries_of DirError = []"

text \<open>A listing the store can work with: no error and no \<open>.env\<close> name that is not a key.\<close>

fun good_entry :: "string option \<Rightarrow> bool" where
  "good_entry None = False"
| "good_entry (Some f) = (\<not> utf8_valid f \<or> parse_human_file_name f \<noteq> Invalid)"

fun good_listing :: "dir_listing \<Rightarrow> bool" where
  "good_listing DirMissing = True"
| "good_listing DirError = False"
| "good_listing (DirEntries es) = list_all good_entry es"

definition backing :: "filesystem \<Rightarrow> human_store \<Rightarrow> secret_name \<Rightarrow> (human_source \<times> bool) list" where
  "backing fs store n =
     concat (map (\<lambda>src. concat (map (\<lambda>f.
         if f = file_name n then [(src, False)] else if f = local_file_name n then [(src, True)] else [])
       (entries_of (read_dir fs (dir src))))) store)"

definition candidate_of :: "secret_name \<Rightarrow> human_source \<times> bool \<Rightarrow> candidate" where
  "candidate_of n sl =
     \<lparr>cand_label = candidate_label (fst sl) (snd sl), cand_dir = dir (fst sl), cand_file = human_file (n, snd sl)\<rparr>"

lemma name_char_ascii: "name_char c \<Longrightarrow> is_ascii c"
  by (auto simp: name_char_def ascii_defs)

lemma human_file_utf8: "parse_name n = Ok n \<Longrightarrow> utf8_valid (human_file (n, l))"
  using valid_name_chars [of n] name_char_ascii
  by (intro utf8_valid_ascii) (auto simp: human_file_def file_name_def local_file_name_def list_all_iff is_ascii_def char_code_def)

lemma file_names_differ: "parse_name n = Ok n \<Longrightarrow> file_name n \<noteq> local_file_name n"
  using parse_file_name [of n] parse_local_file_name [of n] by auto

lemma store_file_name_cases:
  "store_file_name f =
     (if \<not> good_entry (Some f) then Err Internal
      else case (if utf8_valid f then classify_file f else None) of
        None \<Rightarrow> Ok None
      | Some (n, l) \<Rightarrow> Ok (Some (n, l, f)))"
  by (auto simp: store_file_name_def classify_file_def split: human_file_name.splits)

definition entry_backing :: "human_source \<Rightarrow> secret_name \<Rightarrow> string \<Rightarrow> (human_source \<times> bool) list" where
  "entry_backing src n f =
     (if f = file_name n then [(src, False)] else if f = local_file_name n then [(src, True)] else [])"

lemma entry_backing_classify:
  assumes "parse_name n = Ok n"
  shows "entry_backing src n f =
     (case (if utf8_valid f then classify_file f else None) of
        Some (m, l) \<Rightarrow> if m = n then [(src, l)] else []
      | None \<Rightarrow> [])"
proof (cases "\<exists>l. f = human_file (n, l)")
  case True
  then obtain l where "f = human_file (n, l)"
    by blast
  then show ?thesis
    using assms store_file.parse_print [of "(n, l)"] human_file_utf8 [of n l] file_names_differ [of n]
    by (auto simp: entry_backing_def human_file_def)
next
  case False
  then have "f \<noteq> file_name n" "f \<noteq> local_file_name n"
    by (auto simp: human_file_def dest: spec [of _ True] spec [of _ False])
  moreover have "m \<noteq> n" if "classify_file f = Some (m, l)" for m l
    using that False store_file.parse_sound by blast
  ultimately show ?thesis
    by (auto simp: entry_backing_def split: option.splits)
qed

lemma source_candidates_eq:
  assumes "parse_name n = Ok n"
  shows "source_candidates src n es =
     (if list_all good_entry es
      then Ok (map (candidate_of n) (concat (map (entry_backing src n) (entries_of (DirEntries es)))))
      else Err Internal)"
proof (induction es)
  case (Cons e es)
  show ?case
  proof (cases e)
    case (Some f)
    show ?thesis
    proof (cases "if utf8_valid f then classify_file f else None")
      case None
      then show ?thesis
        using Cons Some entry_backing_classify [OF assms, of src f] by (simp add: store_file_name_cases)
    next
      case (Some ml)
      then obtain m l where ml: "ml = (m, l)" "classify_file f = Some (m, l)" "utf8_valid f"
        by (cases ml) (auto split: if_splits)
      then have "f = human_file (m, l)"
        using store_file.parse_sound by blast
      then show ?thesis
        using Cons \<open>e = Some f\<close> ml entry_backing_classify [OF assms, of src f]
        by (auto simp: store_file_name_cases candidate_of_def)
    qed
  qed simp
qed simp

lemma backing_Cons:
  "backing fs (src # srcs) n =
     concat (map (entry_backing src n) (entries_of (read_dir fs (dir src)))) @ backing fs srcs n"
  by (simp add: backing_def entry_backing_def [abs_def])

lemma backing_source: "sl \<in> set (backing fs store n) \<Longrightarrow> fst sl \<in> set store"
  by (auto simp: backing_def split: if_splits)

lemma candidates_eq:
  assumes "parse_name n = Ok n"
  shows "candidates fs store n =
     (if list_all (\<lambda>src. good_listing (read_dir fs (dir src))) store
      then Ok (map (candidate_of n) (backing fs store n)) else Err Internal)"
proof (induction store)
  case Nil
  then show ?case
    by (simp add: backing_def)
next
  case (Cons src srcs)
  then show ?case
    by (cases "read_dir fs (dir src)")
      (auto simp: directory_entries_def backing_Cons source_candidates_eq [OF assms] simp del: entries_of.simps(1))
qed

lemma open_key_backing:
  assumes "parse_name raw = Ok n" and "open_key fs store n = Ok f"
  shows "locate fs store n = Ok (opened_label f)
    \<and> (\<exists>src loc st. backing fs store n = [(src, loc)] \<and> src \<in> set store
         \<and> openat fs (dir src) (if loc then local_file_name n else file_name n) = Some (file_fd f)
         \<and> fstat fs (file_fd f) = Some st \<and> regular st \<and> identity f = stat_identity st)"
proof -
  obtain cs where cs: "candidates fs store n = Ok cs" "cs = map (candidate_of n) (backing fs store n)"
    using assms candidates_eq [OF parse_name_self [OF assms(1)], of fs store]
    by (auto simp: open_key_def and_then_Ok split: if_splits)
  then obtain sl where sl: "backing fs store n = [sl]" "open_candidate fs (candidate_of n sl) = Ok f"
    using assms(2) by (auto simp: open_key_def split: list.splits)
  then have "fst sl \<in> set store"
    using backing_source [of sl fs store n] by simp
  then show ?thesis
    using sl cs
    by (cases sl) (auto simp: locate_def open_candidate_def candidate_of_def human_file_def
        split: option.splits if_splits)
qed

lemma open_locate: "parse_name raw = Ok n \<Longrightarrow> open_key fs store n = Ok f \<Longrightarrow> locate fs store n = Ok (opened_label f)"
  using open_key_backing by blast

section \<open>Properties\<close>

text \<open>C32: A key is located exactly when every source directory can be listed and holds no malformed
  key file, and one single file of all sources together backs the key; no file is
  \<open>NotHumanKey\<close>, several are \<open>AmbiguousKey\<close>, and an unreadable or malformed source is \<open>Internal\<close>.\<close>

theorem locate_spec:
  assumes "parse_name raw = Ok n"
  shows "locate fs store n =
     (if \<not> list_all (\<lambda>src. good_listing (read_dir fs (dir src))) store then Err Internal
      else case backing fs store n of
        [] \<Rightarrow> Err NotHumanKey
      | [(src, loc)] \<Rightarrow> Ok (if loc then label src @ ''.local'' else label src)
      | _ \<Rightarrow> Err AmbiguousKey)"
  using candidates_eq [OF parse_name_self [OF assms], of fs store]
  by (auto simp: locate_def candidate_of_def candidate_label_def split: list.splits)

text \<open>The file opened for decryption is the file that was located: opening a key succeeds only
  if locating it does, with the same source label, on a regular file whose name in that source
  is the key's own committed or local file name.\<close>

theorem open_key_sound:
  assumes "parse_name raw = Ok n" and "open_key fs store n = Ok f"
  shows "locate fs store n = Ok (opened_label f)
    \<and> (\<exists>src loc st. backing fs store n = [(src, loc)] \<and> src \<in> set store
         \<and> openat fs (dir src) (if loc then local_file_name n else file_name n) = Some (file_fd f)
         \<and> fstat fs (file_fd f) = Some st \<and> regular st \<and> identity f = stat_identity st)"
  using assms by (rule open_key_backing)

text \<open>A store of one source for the witnesses.\<close>

definition demo_identity :: file_identity where
  "demo_identity = \<lparr>device = 1, inode = 2, size_bytes = 3, modified = \<lparr>seconds = 4, nanoseconds = 5\<rparr>,
     changed = \<lparr>seconds = 6, nanoseconds = 7\<rparr>\<rparr>"

definition demo_fs :: filesystem where
  "demo_fs = \<lparr>read_dir = (\<lambda>d. if d = ''/s'' then DirEntries [Some ''A.env'', Some ''B.local.env'', Some ''README''] else DirMissing),
     open_dir = (\<lambda>d. True), openat = (\<lambda>d f. Some 9),
     fstat = (\<lambda>fd. Some \<lparr>regular = True, stat_identity = demo_identity\<rparr>)\<rparr>"

definition demo_store :: human_store where
  "demo_store = [\<lparr>label = ''main'', dir = ''/s''\<rparr>]"

theorem locate_spec_witness:
  "locate demo_fs demo_store ''A'' = Ok ''main'' \<and> locate demo_fs demo_store ''B'' = Ok ''main.local''
   \<and> locate demo_fs demo_store ''C'' = Err NotHumanKey"
proof -
  have "parse_name ''A'' = Ok ''A''" "parse_name ''B'' = Ok ''B''" "parse_name ''C'' = Ok ''C''"
    by code_simp+
  moreover have "list_all (\<lambda>src. good_listing (read_dir demo_fs (dir src))) demo_store"
    "backing demo_fs demo_store ''A'' = [(hd demo_store, False)]"
    "backing demo_fs demo_store ''B'' = [(hd demo_store, True)]" "backing demo_fs demo_store ''C'' = []"
    "label (hd demo_store) = ''main''"
    by code_simp+
  ultimately show ?thesis
    using locate_spec [of "''A''" "''A''" demo_fs demo_store] locate_spec [of "''B''" "''B''" demo_fs demo_store]
      locate_spec [of "''C''" "''C''" demo_fs demo_store]
    by simp
qed

theorem open_key_sound_witness: "locate demo_fs demo_store ''B'' = Ok ''main.local''"
proof -
  have "parse_name ''B'' = Ok ''B''"
    "open_key demo_fs demo_store ''B'' = Ok \<lparr>opened_label = ''main.local'', identity = demo_identity, file_fd = 9\<rparr>"
    by code_simp+
  then show ?thesis
    using open_key_sound [of "''B''" "''B''"] by fastforce
qed

end
