(* ===== verification/Grants.thy ===== *)
theory Grants
  imports Hex Store Containment
begin

text \<open>
  Sessions, scopes and cached grants: \<open>crates/secrets/src/grants\<close> (\<open>token.rs\<close>, \<open>scope.rs\<close>,
  \<open>registry.rs\<close>, \<open>table.rs\<close>) and \<open>crates/secrets/src/peer.rs\<close>.

  A token is its 32 bytes.  A peer is the pinned descriptor of \<open>Containment\<close>, and the descent
  test a registry applies is an argument, the function \<open>descends_from\<close> of that theory at the
  process table of the moment.  Whether a terminal's device node exists is an argument too.  The
  registry keeps one binding per token and per session; the grant table is shown to be a map
  from scope and key to the last grant inserted, with a hard lifetime.
\<close>

section \<open>Session tokens (\<open>token.rs\<close>)\<close>

definition TOKEN_LEN :: nat where
  "TOKEN_LEN = 32"

type_synonym session_token = "byte list"

fun token_bytes :: "nat \<Rightarrow> nat \<Rightarrow> string \<Rightarrow> (byte list, err_code) result" where
  "token_bytes 0 index raw = Ok []"
| "token_bytes (Suc left) index raw =
     (case u8_from_str_radix16 (take 2 (drop (index * 2) raw)) of
        None \<Rightarrow> Err BadRequest
      | Some slot \<Rightarrow> and_then (token_bytes left (Suc index) raw) (\<lambda>rest. Ok (slot # rest)))"

definition parse_token :: "string \<Rightarrow> (session_token, err_code) result" where
  "parse_token raw =
     (if length raw \<noteq> TOKEN_LEN * 2 then Err BadRequest else token_bytes TOKEN_LEN 0 raw)"

section \<open>Scopes (\<open>scope.rs\<close>)\<close>

datatype scope = Session session_token | Tty string string

datatype scope_kind = VerifiedSession | TokenlessTty

fun kind :: "scope \<Rightarrow> scope_kind" where
  "kind (Session t) = VerifiedSession"
| "kind (Tty tty boot) = TokenlessTty"

section \<open>The registry (\<open>registry.rs\<close>)\<close>

record registration =
  token :: session_token
  session :: string
  root :: pinned_peer

record registry =
  sessions :: "registration list"
  agent_ttys :: "string list"
  boot_id :: string

definition registry_new :: "string \<Rightarrow> registry" where
  "registry_new boot = \<lparr>sessions = [], agent_ttys = [], boot_id = boot\<rparr>"

definition register :: "registration \<Rightarrow> registry \<Rightarrow> (session_token list, err_code) result \<times> registry" where
  "register reg r =
     (if list_ex (\<lambda>e. token e = token reg) (sessions r)
      then (if list_ex (\<lambda>e. token e = token reg \<and> session e = session reg) (sessions r)
            then Ok [] else Err BadRequest, r)
      else (Ok (map token (filter (\<lambda>e. session e = session reg) (sessions r))),
            r\<lparr>sessions := filter (\<lambda>e. session e \<noteq> session reg) (sessions r) @ [reg]\<rparr>))"

definition unregister :: "string \<Rightarrow> registry \<Rightarrow> session_token list \<times> registry" where
  "unregister name r =
     (map token (filter (\<lambda>e. session e = name) (sessions r)),
      r\<lparr>sessions := filter (\<lambda>e. session e \<noteq> name) (sessions r)\<rparr>)"

definition registration_of :: "session_token \<Rightarrow> registry \<Rightarrow> registration option" where
  "registration_of t r = find (\<lambda>e. token e = t) (sessions r)"

definition is_agent_tty :: "string \<Rightarrow> registry \<Rightarrow> bool" where
  "is_agent_tty tty r \<longleftrightarrow> list_ex (\<lambda>known. known = tty) (agent_ttys r)"

definition learn_tty :: "string option \<Rightarrow> registry \<Rightarrow> registry" where
  "learn_tty tty r =
     (case tty of
        None \<Rightarrow> r
      | Some t \<Rightarrow> if is_agent_tty t r then r else r\<lparr>agent_ttys := agent_ttys r @ [t]\<rparr>)"

definition resolve ::
  "(pinned_peer \<Rightarrow> pinned_peer \<Rightarrow> bool) \<Rightarrow> session_token option \<Rightarrow> string option \<Rightarrow> pinned_peer option
   \<Rightarrow> registry \<Rightarrow> (scope, err_code) result \<times> registry" where
  "resolve descends tok tty caller r =
     (case tok of
        Some presented \<Rightarrow>
          (case find (\<lambda>e. token e = presented) (sessions r) of
             None \<Rightarrow> (Err UnknownToken, r)
           | Some e \<Rightarrow>
               if \<not> (case caller of None \<Rightarrow> False | Some c \<Rightarrow> descends c (root e))
               then (Err ForeignCaller, r)
               else (Ok (Session presented), learn_tty tty r))
      | None \<Rightarrow>
          (case tty of
             Some t \<Rightarrow>
               if is_agent_tty t r then (Err AgentTty, r) else (Ok (Tty t (boot_id r)), r)
           | None \<Rightarrow> (Err NoScope, r)))"

section \<open>The grant table (\<open>table.rs\<close>)\<close>

record grant_origin =
  origin_source :: string
  origin_identity :: file_identity

record grant =
  gscope :: scope
  gkey :: secret_name
  gvalue :: string
  gorigin :: grant_origin
  gcreated :: instant
  gttl :: duration

type_synonym grant_table = "grant list"

definition matches :: "scope \<Rightarrow> secret_name \<Rightarrow> grant \<Rightarrow> bool" where
  "matches sc k g \<longleftrightarrow> gscope g = sc \<and> gkey g = k"

definition grant_live :: "instant \<Rightarrow> grant \<Rightarrow> bool" where
  "grant_live now g \<longleftrightarrow> duration_since now (gcreated g) < gttl g"

definition lookup ::
  "grant_table \<Rightarrow> scope \<Rightarrow> secret_name \<Rightarrow> instant \<Rightarrow> (string \<times> string \<times> file_identity) option" where
  "lookup t sc k now =
     map_option (\<lambda>g. (gvalue g, origin_source (gorigin g), origin_identity (gorigin g)))
       (find (\<lambda>g. matches sc k g \<and> grant_live now g) t)"

definition checked_sub :: "nat \<Rightarrow> nat \<Rightarrow> nat option" where
  "checked_sub a b = (if b \<le> a then Some (a - b) else None)"

definition remaining_secs :: "grant_table \<Rightarrow> scope \<Rightarrow> secret_name \<Rightarrow> instant \<Rightarrow> nat option" where
  "remaining_secs t sc k now =
     (case find (matches sc k) t of
        None \<Rightarrow> None
      | Some g \<Rightarrow> map_option as_secs (checked_sub (gttl g) (duration_since now (gcreated g))))"

definition insert_grant ::
  "scope \<Rightarrow> secret_name \<Rightarrow> string \<Rightarrow> instant \<Rightarrow> grant_origin \<Rightarrow> duration \<Rightarrow> grant_table \<Rightarrow> grant_table" where
  "insert_grant sc k v created origin ttl t =
     filter (\<lambda>g. \<not> matches sc k g) t
     @ [\<lparr>gscope = sc, gkey = k, gvalue = v, gorigin = origin, gcreated = created, gttl = ttl\<rparr>]"

definition revoke :: "scope \<Rightarrow> secret_name \<Rightarrow> grant_table \<Rightarrow> grant_table" where
  "revoke sc k t = filter (\<lambda>g. \<not> matches sc k g) t"

definition revoke_scope :: "scope \<Rightarrow> grant_table \<Rightarrow> grant_table" where
  "revoke_scope sc t = filter (\<lambda>g. gscope g \<noteq> sc) t"

definition revoke_tokens :: "session_token list \<Rightarrow> grant_table \<Rightarrow> grant_table" where
  "revoke_tokens tokens t =
     filter (\<lambda>g. case gscope g of Session tok \<Rightarrow> \<not> List.member tokens tok | Tty _ _ \<Rightarrow> True) t"

definition revoke_expired :: "instant \<Rightarrow> grant_table \<Rightarrow> nat \<times> grant_table" where
  "revoke_expired now t =
     (let kept = filter (grant_live now) t in (length t - length kept, kept))"

definition revoke_all :: "grant_table \<Rightarrow> grant_table" where
  "revoke_all t = []"

definition revoke_missing_ttys :: "(string \<Rightarrow> bool) \<Rightarrow> grant_table \<Rightarrow> grant_table" where
  "revoke_missing_ttys exists t =
     filter (\<lambda>g. case gscope g of Session _ \<Rightarrow> True | Tty tty _ \<Rightarrow> exists tty) t"

definition table_is_empty :: "grant_table \<Rightarrow> bool" where
  "table_is_empty t \<longleftrightarrow> t = []"

fun render_scope :: "scope \<Rightarrow> string" where
  "render_scope (Session _) = ''session''"
| "render_scope (Tty tty _) = ''tty '' @ tty"

definition render_line :: "instant \<Rightarrow> grant \<Rightarrow> string" where
  "render_line now g =
     gkey g @ [tab] @ render_scope (gscope g) @ [tab]
     @ show_nat (as_secs (duration_since now (gcreated g))) @ ''s'' @ [newline]"

definition render :: "instant \<Rightarrow> grant_table \<Rightarrow> string" where
  "render now t =
     (if t = [] then ''no active grants'' @ [newline]
      else ''KEY'' @ [tab] @ ''SCOPE'' @ [tab] @ ''AGE'' @ [newline] @ concat (map (render_line now) t))"

section \<open>Tokens\<close>

text \<open>What a pair of characters may be: two hex digits, or a plus sign and one.\<close>

definition token_pair :: "char \<Rightarrow> char \<Rightarrow> bool" where
  "token_pair a b \<longleftrightarrow> is_ascii_hexdigit b \<and> (is_ascii_hexdigit a \<or> a = CHR ''+'')"

lemma u8_pair_None_iff: "u8_from_str_radix16 [a, b] = None \<longleftrightarrow> \<not> token_pair a b"
proof (cases "token_pair a b")
  case True
  then show ?thesis
  proof (cases "a = CHR ''+''")
    case True
    then show ?thesis
      using \<open>token_pair a b\<close> hex_val_less [of b]
      by (auto simp: u8_from_str_radix16_def token_pair_def)
  next
    case False
    then show ?thesis
      using \<open>token_pair a b\<close> u8_pair [of a b] by (simp add: token_pair_def)
  qed
next
  case False
  then show ?thesis
    by (auto simp: u8_from_str_radix16_def token_pair_def Let_def)
qed

lemma take_drop_pair:
  "Suc (index * 2) < length raw \<Longrightarrow> take 2 (drop (index * 2) raw) = [raw ! (index * 2), raw ! Suc (index * 2)]"
  by (simp add: numeral_2_eq_2 take_Suc_conv_app_nth)

lemma token_bytes_iff:
  assumes "length raw = (index + left) * 2"
  shows "(\<exists>bs. token_bytes left index raw = Ok bs) \<longleftrightarrow>
     (\<forall>i \<in> {index ..< index + left}. token_pair (raw ! (i * 2)) (raw ! Suc (i * 2)))"
  using assms
proof (induction left arbitrary: index)
  case (Suc left)
  have split: "{index ..< index + Suc left} = insert index {Suc index ..< Suc index + left}"
    by auto
  have pair: "take 2 (drop (index * 2) raw) = [raw ! (index * 2), raw ! Suc (index * 2)]"
    using Suc.prems by (intro take_drop_pair) simp
  show ?case
    using Suc.IH [of "Suc index"] Suc.prems u8_pair_None_iff [of "raw ! (index * 2)" "raw ! Suc (index * 2)"]
    unfolding split by (auto simp: pair and_then_Ok split: option.splits)
qed simp

lemma token_bytes_encode:
  "token_bytes (length bs) (length pre) (encode pre @ encode bs) = Ok bs"
proof (induction bs arbitrary: pre)
  case (Cons b bs)
  have "of_nat (16 * (unat b div 16) + unat b mod 16) = b"
    by simp
  then have "u8_from_str_radix16 (take 2 (encode (b # bs))) = Some b"
    by (simp add: u8_pair hex_digit_high hex_digit_low numeral_2_eq_2 del: of_nat_add of_nat_mult)
  moreover have "drop (length pre * 2) (encode pre @ encode (b # bs)) = encode (b # bs)"
    by simp
  moreover have "token_bytes (length bs) (length (pre @ [b])) (encode (pre @ [b]) @ encode bs) = Ok bs"
    by (rule Cons.IH)
  ultimately show ?case
    by (simp add: encode_append)
qed simp

lemma parse_token_encode: "length bs = TOKEN_LEN \<Longrightarrow> parse_token (encode bs) = Ok bs"
  using token_bytes_encode [of bs "[]"] by (simp add: parse_token_def)

section \<open>The registry\<close>

definition registry_inv :: "registry \<Rightarrow> bool" where
  "registry_inv r \<longleftrightarrow>
     distinct (map token (sessions r)) \<and> distinct (map session (sessions r)) \<and> distinct (agent_ttys r)"

lemma registry_inv_new: "registry_inv (registry_new b)"
  by (simp add: registry_inv_def registry_new_def)

lemma registry_inv_register:
  assumes "registry_inv r" shows "registry_inv (snd (register reg r))"
  using assms unfolding registry_inv_def register_def
  by (auto simp: list_ex_iff distinct_map_filter)

lemma registry_inv_unregister: "registry_inv r \<Longrightarrow> registry_inv (snd (unregister s r))"
  by (auto simp: registry_inv_def unregister_def distinct_map_filter)

lemma registry_inv_learn: "registry_inv r \<Longrightarrow> registry_inv (learn_tty tty r)"
  by (auto simp: registry_inv_def learn_tty_def is_agent_tty_def list_ex_iff split: option.splits)

lemma sessions_resolve [simp]: "sessions (snd (resolve d tok tty c r)) = sessions r"
  by (auto simp: resolve_def learn_tty_def split: option.splits)

lemma registry_inv_resolve: "registry_inv r \<Longrightarrow> registry_inv (snd (resolve d tok tty c r))"
  by (auto simp: resolve_def registry_inv_learn split: option.splits)

inductive registry_step :: "registry \<Rightarrow> registry \<Rightarrow> bool" where
  step_register: "registry_step r (snd (register reg r))"
| step_unregister: "registry_step r (snd (unregister name r))"
| step_resolve: "registry_step r (snd (resolve d tok tty caller r))"

inductive_cases registry_stepE: "registry_step r r'"

interpretation registry_sys: invariant_system "\<lambda>r. \<exists>b. r = registry_new b" registry_step registry_inv
  by unfold_locales
    (auto simp: registry_inv_new registry_inv_register registry_inv_unregister registry_inv_resolve
      elim!: registry_stepE)

lemma registration_of_step:
  assumes "registry_inv r" and "registry_step r r'"
    and "registration_of t r = Some e" and "registration_of t r' = Some e'"
  shows "e' = e"
  using assms(2)
proof cases
  case (step_register reg)
  show ?thesis
  proof (cases "list_ex (\<lambda>x. token x = token reg) (sessions r)")
    case True
    then show ?thesis
      using assms(3,4) step_register by (simp add: register_def)
  next
    case False
    then have "t \<noteq> token reg"
      using assms(3) find_SomeD by (force simp: registration_of_def list_ex_iff)
    then have "e' \<in> set (sessions r)" "token e' = t"
      using assms(4) step_register False
      by (auto simp: register_def registration_of_def find_append dest!: find_SomeD split: option.splits)
    then show ?thesis
      using assms(1,3) find_distinct [of token "sessions r" e' t]
      by (auto simp: registry_inv_def registration_of_def)
  qed
next
  case (step_unregister name)
  then have "e' \<in> set (sessions r)" "token e' = t"
    using assms(4) by (auto simp: unregister_def registration_of_def dest!: find_SomeD)
  then show ?thesis
    using assms(1,3) find_distinct [of token "sessions r" e' t]
    by (auto simp: registry_inv_def registration_of_def)
next
  case (step_resolve d tok tty caller)
  then show ?thesis
    using assms(3,4) by (simp add: registration_of_def)
qed

lemma is_agent_tty_step: "registry_step r r' \<Longrightarrow> is_agent_tty tty r \<Longrightarrow> is_agent_tty tty r'"
  by (auto simp: is_agent_tty_def register_def unregister_def resolve_def learn_tty_def
      elim!: registry_stepE split: option.splits)

lemma is_agent_tty_steps: "registry_step\<^sup>*\<^sup>* r r' \<Longrightarrow> is_agent_tty tty r \<Longrightarrow> is_agent_tty tty r'"
  by (induction rule: rtranclp_induct) (auto intro: is_agent_tty_step)

lemma resolve_learns: "resolve d (Some t) (Some tty) c r = (Ok sc, r') \<Longrightarrow> is_agent_tty tty r'"
  by (auto simp: resolve_def learn_tty_def is_agent_tty_def split: option.splits if_splits)

section \<open>The grant table as a map\<close>

definition grant_id :: "grant \<Rightarrow> scope \<times> secret_name" where
  "grant_id g = (gscope g, gkey g)"

definition table_inv :: "grant_table \<Rightarrow> bool" where
  "table_inv t \<longleftrightarrow> distinct (map grant_id t)"

definition abs_table :: "grant_table \<Rightarrow> (scope \<times> secret_name) \<rightharpoonup> grant" where
  "abs_table t sk = find (\<lambda>g. grant_id g = sk) t"

lemma matches_id: "matches sc k = (\<lambda>g. grant_id g = (sc, k))"
  by (auto simp: matches_def grant_id_def fun_eq_iff)

lemma table_inv_filter: "table_inv t \<Longrightarrow> table_inv (filter P t)"
  by (simp add: table_inv_def distinct_map_filter)

lemma table_inv_insert: "table_inv t \<Longrightarrow> table_inv (insert_grant sc k v c o' ttl t)"
  by (auto simp: table_inv_def insert_grant_def distinct_map_filter matches_def grant_id_def)

lemma table_inv_ops:
  assumes "table_inv t"
  shows "table_inv (revoke sc k t)" "table_inv (revoke_scope sc t)" "table_inv (revoke_tokens ts t)"
    "table_inv (snd (revoke_expired now t))" "table_inv (revoke_all t)" "table_inv (revoke_missing_ttys ex t)"
  using assms
  by (simp_all add: table_inv_filter revoke_def revoke_scope_def revoke_tokens_def revoke_expired_def
      revoke_missing_ttys_def Let_def) (simp add: revoke_all_def table_inv_def)

lemma abs_table_iff: "table_inv t \<Longrightarrow> abs_table t sk = Some g \<longleftrightarrow> g \<in> set t \<and> grant_id g = sk"
  unfolding abs_table_def table_inv_def using find_distinct [of grant_id t g sk] find_SomeD by fastforce

lemma abs_table_filter:
  assumes "table_inv t"
  shows "abs_table (filter P t) sk = (case abs_table t sk of Some g \<Rightarrow> if P g then Some g else None | None \<Rightarrow> None)"
  using assms unfolding table_inv_def abs_table_def
proof (induction t)
  case (Cons g t)
  have "grant_id g = sk \<Longrightarrow> find (\<lambda>x. grant_id x = sk) (filter P t) = None"
    using Cons.prems by (auto simp: find_None_iff image_iff)
  then show ?case
    using Cons by auto
qed simp

lemma abs_table_SomeD: "abs_table t sk = Some g \<Longrightarrow> g \<in> set t \<and> grant_id g = sk"
  by (auto simp: abs_table_def dest: find_SomeD)

lemma abs_insert_grant:
  assumes "table_inv t"
  shows "abs_table (insert_grant sc k v c og ttl t) =
     (abs_table t)((sc, k) \<mapsto> \<lparr>gscope = sc, gkey = k, gvalue = v, gorigin = og, gcreated = c, gttl = ttl\<rparr>)"
proof
  fix sk
  show "abs_table (insert_grant sc k v c og ttl t) sk = ((abs_table t)((sc, k) \<mapsto>
      \<lparr>gscope = sc, gkey = k, gvalue = v, gorigin = og, gcreated = c, gttl = ttl\<rparr>)) sk"
  proof (cases "sk = (sc, k)")
    case True
    then show ?thesis
      by (simp add: abs_table_def insert_grant_def find_append find_filter_drop matches_id) (simp add: grant_id_def)
  next
    case False
    then have "find (\<lambda>g. grant_id g = sk) (filter (\<lambda>g. \<not> matches sc k g) t) = find (\<lambda>g. grant_id g = sk) t"
      by (intro find_filter_keep) (auto simp: matches_id)
    then show ?thesis
      using False by (auto simp: abs_table_def insert_grant_def find_append grant_id_def split: option.splits)
  qed
qed

definition grant_view :: "grant \<Rightarrow> string \<times> string \<times> file_identity" where
  "grant_view g = (gvalue g, origin_source (gorigin g), origin_identity (gorigin g))"

lemma lookup_abs:
  assumes "table_inv t"
  shows "lookup t sc k now =
     (case abs_table t (sc, k) of
        Some g \<Rightarrow> if grant_live now g then Some (grant_view g) else None
      | None \<Rightarrow> None)"
proof -
  have "find (\<lambda>g. matches sc k g \<and> grant_live now g) t = abs_table (filter (grant_live now) t) (sc, k)"
    unfolding abs_table_def matches_id by (induction t) auto
  then show ?thesis
    using abs_table_filter [OF assms, of "grant_live now" "(sc, k)"]
    by (auto simp: lookup_def grant_view_def [abs_def] split: option.splits)
qed

lemma grant_live_antimono: "grant_live now' g \<Longrightarrow> now \<le> now' \<Longrightarrow> grant_live now g"
  by (auto simp: grant_live_def duration_since_def)

text \<open>The table provides the contract of a cache with a hard lifetime.\<close>

definition cache_get :: "grant_table \<Rightarrow> scope \<times> secret_name \<Rightarrow> instant \<Rightarrow> (string \<times> string \<times> file_identity) option"
where
  "cache_get t sk now = lookup t (fst sk) (snd sk) now"

definition cache_put ::
  "scope \<times> secret_name \<Rightarrow> string \<times> string \<times> file_identity \<Rightarrow> instant \<Rightarrow> duration \<Rightarrow> grant_table \<Rightarrow> grant_table"
where
  "cache_put sk v c ttl t =
     insert_grant (fst sk) (snd sk) (fst v) c \<lparr>origin_source = fst (snd v), origin_identity = snd (snd v)\<rparr> ttl t"

interpretation grants: expiring_cache table_inv cache_get cache_put "\<lambda>sk. revoke (fst sk) (snd sk)"
  "\<lambda>now t. snd (revoke_expired now t)"
proof (unfold_locales, goal_cases)
  case (1 t k v c ttl)
  then show ?case
    by (simp add: cache_put_def table_inv_insert)
next
  case (2 t k)
  then show ?case
    by (simp add: table_inv_ops)
next
  case (3 t now)
  then show ?case
    by (simp add: table_inv_ops)
next
  case (4 t k v c ttl k' now)
  then show ?case
    by (cases k; cases k'; cases v)
      (simp add: cache_get_def cache_put_def lookup_abs table_inv_insert abs_insert_grant grant_view_def
        grant_live_def duration_since_def)
next
  case (5 t k k' now)
  then show ?case
    by (cases k; cases k')
      (auto simp: cache_get_def lookup_abs table_inv_ops revoke_def abs_table_filter matches_id
        table_inv_filter dest: abs_table_SomeD split: option.splits)
next
  case (6 t now now' k)
  then show ?case
    by (auto simp: cache_get_def lookup_abs table_inv_ops revoke_expired_def abs_table_filter Let_def
        table_inv_filter dest: grant_live_antimono split: option.splits)
next
  case (7 t k now' v now)
  then show ?case
    by (auto simp: cache_get_def lookup_abs dest: grant_live_antimono split: option.splits if_splits)
qed

section \<open>Properties\<close>

text \<open>Through any sequence of registrations, unregistrations and resolutions, a token is bound to
  at most one session and a session to at most one token, and no terminal is recorded twice.\<close>

theorem registry_bindings_unique:
  assumes "reach (\<lambda>r. \<exists>b. r = registry_new b) registry_step r"
  shows "distinct (map token (sessions r)) \<and> distinct (map session (sessions r)) \<and> distinct (agent_ttys r)"
  using registry_sys.reach_inv [OF assms] by (simp add: registry_inv_def)

text \<open>A registry of one session for the witnesses.\<close>

definition demo_registration :: registration where
  "demo_registration = \<lparr>token = replicate 32 1, session = ''s1'', root = 7\<rparr>"

definition demo_registry :: registry where
  "demo_registry = snd (register demo_registration (registry_new ''boot''))"

lemma demo_registry_reach: "reach (\<lambda>r. \<exists>b. r = registry_new b) registry_step demo_registry"
  unfolding demo_registry_def by (rule reach_step, rule reach_init, blast, rule step_register)

lemma demo_registration_of: "registration_of (replicate 32 1) demo_registry = Some demo_registration"
  by code_simp

theorem registry_bindings_unique_witness:
  "distinct (map token (sessions demo_registry)) \<and> distinct (map session (sessions demo_registry))
   \<and> distinct (agent_ttys demo_registry)"
  by (rule registry_bindings_unique [OF demo_registry_reach])

text \<open>C19: No operation can move a session's root: while a token stays registered, its registration,
  with the kernel-pinned root it was created with, is the same one, whoever re-presents the
  token and from wherever.\<close>

theorem session_root_fixed:
  assumes "reach (\<lambda>r. \<exists>b. r = registry_new b) registry_step r" and "registry_step r r'"
    and "registration_of t r = Some e" and "registration_of t r' = Some e'"
  shows "e' = e"
  using registration_of_step [OF registry_sys.reach_inv [OF assms(1)] assms(2-4)] .

theorem session_root_fixed_witness:
  "registration_of (replicate 32 1) (snd (register \<lparr>token = replicate 32 1, session = ''s1'', root = 8\<rparr> demo_registry))
     = Some demo_registration"
proof -
  let ?r' = "snd (register \<lparr>token = replicate 32 1, session = ''s1'', root = 8\<rparr> demo_registry)"
  have "\<exists>e'. registration_of (replicate 32 1) ?r' = Some e'"
    by (rule exI [of _ demo_registration]) code_simp
  then show ?thesis
    using session_root_fixed [OF demo_registry_reach step_register demo_registration_of] by blast
qed


text \<open>C20: A terminal that once carried a session's request is never again usable without a token:
  after a successful resolution with a token on it, every later tokenless request on that
  terminal is refused as \<open>AgentTty\<close>.\<close>

theorem agent_tty_stays_refused:
  assumes "resolve d (Some t) (Some tty) caller r = (Ok sc, r')" and "registry_step\<^sup>*\<^sup>* r' r''"
  shows "fst (resolve d' None (Some tty) caller' r'') = Err AgentTty"
  using is_agent_tty_steps [OF assms(2) resolve_learns [OF assms(1)]] by (simp add: resolve_def)

theorem agent_tty_stays_refused_witness:
  "fst (resolve (\<lambda>_ _. True) None (Some ''/dev/pts/1'') None
     (snd (resolve (\<lambda>_ _. True) (Some (replicate 32 1)) (Some ''/dev/pts/1'') (Some 7) demo_registry))) = Err AgentTty"
proof -
  let ?p = "resolve (\<lambda>_ _. True) (Some (replicate 32 1)) (Some ''/dev/pts/1'') (Some 7) demo_registry"
  have "fst ?p = Ok (Session (replicate 32 1))"
    by code_simp
  then have "?p = (Ok (Session (replicate 32 1)), snd ?p)"
    by (metis prod.collapse)
  from agent_tty_stays_refused [OF this rtranclp.rtrancl_refl] show ?thesis .
qed

text \<open>C21: The grant table refines a map from scope and key to grants: starting from a table with at
  most one grant per scope and key, insertion overwrites that entry and nothing else, the
  revocations are restrictions of the map, and a lookup reads the entry while it is live.\<close>

theorem grant_table_refines_map:
  assumes "table_inv t"
  shows "abs_table (insert_grant sc k v c og ttl t) =
      (abs_table t)((sc, k) \<mapsto> \<lparr>gscope = sc, gkey = k, gvalue = v, gorigin = og, gcreated = c, gttl = ttl\<rparr>)
    \<and> abs_table (revoke sc k t) = (abs_table t)((sc, k) := None)
    \<and> abs_table (revoke_scope sc t) = abs_table t |` {sk. fst sk \<noteq> sc}
    \<and> abs_table (revoke_tokens ts t) = abs_table t |` {sk. \<forall>tok \<in> set ts. fst sk \<noteq> Session tok}
    \<and> lookup t sc k now = (case abs_table t (sc, k) of
        Some g \<Rightarrow> if now - gcreated g < gttl g then Some (grant_view g) else None | None \<Rightarrow> None)
    \<and> table_inv (insert_grant sc k v c og ttl t) \<and> table_inv (revoke sc k t)
    \<and> table_inv (revoke_scope sc t) \<and> table_inv (revoke_tokens ts t)"
proof (intro conjI)
  show "abs_table (revoke sc k t) = (abs_table t)((sc, k) := None)"
    using assms by (auto simp: revoke_def abs_table_filter matches_id fun_eq_iff dest!: abs_table_SomeD split: option.splits)
  show "abs_table (revoke_scope sc t) = abs_table t |` {sk. fst sk \<noteq> sc}"
    using assms by (auto simp: revoke_scope_def abs_table_filter restrict_map_def grant_id_def
        fun_eq_iff dest!: abs_table_SomeD split: option.splits)
  show "abs_table (revoke_tokens ts t) = abs_table t |` {sk. \<forall>tok \<in> set ts. fst sk \<noteq> Session tok}"
    using assms by (auto simp: revoke_tokens_def abs_table_filter restrict_map_def grant_id_def
        fun_eq_iff dest!: abs_table_SomeD split: option.splits scope.splits) metis
  show "lookup t sc k now = (case abs_table t (sc, k) of
        Some g \<Rightarrow> if now - gcreated g < gttl g then Some (grant_view g) else None | None \<Rightarrow> None)"
    using assms by (simp add: lookup_abs grant_live_def [abs_def] duration_since_def cong: option.case_cong)
qed (use assms in \<open>simp_all add: abs_insert_grant table_inv_insert table_inv_ops\<close>)

text \<open>A table of one grant for the witnesses.\<close>

definition demo_grants :: grant_table where
  "demo_grants = insert_grant (Session (replicate 32 1)) ''A'' ''v'' 10 \<lparr>origin_source = ''main'', origin_identity = demo_identity\<rparr> 5 []"

lemma demo_grants_inv: "table_inv demo_grants"
proof -
  have "table_inv []"
    by (simp add: table_inv_def)
  then show ?thesis
    unfolding demo_grants_def by (rule table_inv_insert)
qed

theorem grant_table_refines_map_witness:
  "abs_table (revoke (Session (replicate 32 1)) ''A'' demo_grants)
     = (abs_table demo_grants)((Session (replicate 32 1), ''A'') := None)"
  using grant_table_refines_map [OF demo_grants_inv] by blast

text \<open>The lifetime of a grant is a hard bound: a value inserted at \<open>c\<close> with lifetime \<open>ttl\<close> is
  readable at \<open>now\<close> exactly while less than \<open>ttl\<close> has passed, whether or not the periodic sweep
  has run in between, and the sweep never changes what a later lookup of any key returns.\<close>

theorem grant_lifetime_hard_bound:
  assumes "table_inv t" and "swept \<le> now"
  shows "lookup (insert_grant sc k v c og ttl t) sc k now =
           (if now - c < ttl then Some (v, origin_source og, origin_identity og) else None)
     \<and> lookup (snd (revoke_expired swept t)) sc' k' now = lookup t sc' k' now"
proof
  show "lookup (insert_grant sc k v c og ttl t) sc k now =
           (if now - c < ttl then Some (v, origin_source og, origin_identity og) else None)"
    using grants.get_put [OF assms(1), of "(sc, k)" "(v, origin_source og, origin_identity og)" c ttl "(sc, k)" now]
    by (cases og) (simp add: cache_get_def cache_put_def)
  show "lookup (snd (revoke_expired swept t)) sc' k' now = lookup t sc' k' now"
    using grants.get_sweep [OF assms, of "(sc', k')"] by (simp add: cache_get_def)
qed

theorem grant_lifetime_hard_bound_witness:
  "lookup (insert_grant (Session (replicate 32 1)) ''B'' ''w'' 10 \<lparr>origin_source = ''main'', origin_identity = demo_identity\<rparr> 5 demo_grants)
     (Session (replicate 32 1)) ''B'' 14 = Some (''w'', ''main'', demo_identity)"
  using grant_lifetime_hard_bound [OF demo_grants_inv order_refl [of 14], of "Session (replicate 32 1)" "''B''" "''w''" 10
      "\<lparr>origin_source = ''main'', origin_identity = demo_identity\<rparr>" 5] by simp

text \<open>At the very end of its lifetime a grant is no longer readable but is still reported as
  having zero seconds left, although an outlived grant is documented to report nothing.\<close>

theorem remaining_secs_at_expiry:
  assumes "table_inv t" and "abs_table t (sc, k) = Some g"
  shows "lookup t sc k (gcreated g + gttl g) = None
     \<and> remaining_secs t sc k (gcreated g + gttl g) = Some 0
     \<and> remaining_secs t sc k (gcreated g + gttl g + 1) = None"
proof -
  have "find (matches sc k) t = Some g"
    using assms(2) by (simp add: abs_table_def matches_id)
  then show ?thesis
    using assms by (simp add: lookup_abs grant_live_def remaining_secs_def checked_sub_def time_defs)
qed

theorem remaining_secs_at_expiry_witness:
  "lookup demo_grants (Session (replicate 32 1)) ''A'' 15 = None
   \<and> remaining_secs demo_grants (Session (replicate 32 1)) ''A'' 15 = Some 0"
proof -
  have "abs_table demo_grants (Session (replicate 32 1), ''A'') = Some (hd demo_grants)"
    "gcreated (hd demo_grants) + gttl (hd demo_grants) = 15"
    by code_simp+
  then show ?thesis
    using remaining_secs_at_expiry [OF demo_grants_inv, of "Session (replicate 32 1)" "''A''" "hd demo_grants"]
    by simp
qed

text \<open>A session token is parsed from 64 characters exactly when each pair of them is two hex
  digits or a plus sign and a hex digit, and the hex encoding of 32 bytes parses back to them.\<close>

theorem parse_token_iff:
  "((\<exists>bs. parse_token raw = Ok bs) \<longleftrightarrow>
      length raw = 64 \<and> (\<forall>i < 32. is_ascii_hexdigit (raw ! (2 * i + 1))
        \<and> (is_ascii_hexdigit (raw ! (2 * i)) \<or> raw ! (2 * i) = CHR ''+'')))
   \<and> (length bytes = 32 \<longrightarrow> parse_token (encode bytes) = Ok bytes)"
proof
  show "(\<exists>bs. parse_token raw = Ok bs) \<longleftrightarrow>
      length raw = 64 \<and> (\<forall>i < 32. is_ascii_hexdigit (raw ! (2 * i + 1))
        \<and> (is_ascii_hexdigit (raw ! (2 * i)) \<or> raw ! (2 * i) = CHR ''+''))"
    using token_bytes_iff [of raw 0 32]
    by (auto simp: parse_token_def TOKEN_LEN_def token_pair_def mult.commute)
qed (simp add: parse_token_encode TOKEN_LEN_def)

theorem parse_token_iff_witness: "parse_token (encode (replicate 32 0xab)) = Ok (replicate 32 0xab)"
  using parse_token_iff [where bytes = "replicate 32 0xab"] by simp

text \<open>The two readers of hex credentials differ: a token text whose pairs are a plus sign and a
  digit is accepted by the session token parser, which is documented to take a hex string, and
  refused by the shared fixed-width decoder.\<close>

theorem parse_token_accepts_plus:
  "parse_token (concat (replicate 32 ''+f'')) = Ok (replicate 32 0x0f)
   \<and> decode_exact (concat (replicate 32 ''+f'')) 32 = None"
proof
  show "parse_token (concat (replicate 32 ''+f'')) = Ok (replicate 32 0x0f)"
    by code_simp
  have "\<not> list_all is_ascii_hexdigit (concat (replicate 32 ''+f''))"
    by code_simp
  then show "decode_exact (concat (replicate 32 ''+f'')) 32 = None"
    by (simp add: decode_exact_def)
qed

end
