(* ===== verification/Requests.thy ===== *)
theory Requests
  imports Grants
begin

text \<open>
  The approval queue in front of the hardware key: \<open>crates/secrets/src/requests\<close> (\<open>types.rs\<close>,
  \<open>queue.rs\<close>, \<open>expiry.rs\<close>).

  The queue is a record with the fields of \<open>Queue\<close>; every method is a function on it.  The system
  around it is a step relation with the one worker's job, the clock, and the time the last
  decrypt ended.  Reachable states have at most one request decrypting, which is the worker's
  job; requests per scope are bounded; decrypts are separated by the cooldown; and a request that
  was denied or expired is never granted.
\<close>

section \<open>Types (\<open>types.rs\<close>, \<open>queue.rs\<close>)\<close>

type_synonym request_id = nat

datatype request_state = Pending | Decrypting | Granted | DeniedR | TimedOutR | Failed

record queue_limits =
  cooldown :: duration
  ttl :: duration
  max_pending_per_scope :: nat

record pending_request =
  rid :: request_id
  rscope :: scope
  rkey :: secret_name
  rstate :: request_state
  rgen :: nat
  rcreated :: instant
  rttl :: "nat option"

record queue =
  requests :: "pending_request list"
  limits :: queue_limits
  next_id :: nat
  generation :: nat
  inflight :: "request_id option"
  last_finished :: "instant option"

definition queue_new :: "queue_limits \<Rightarrow> queue" where
  "queue_new lim =
     \<lparr>requests = [], limits = lim, next_id = 1, generation = 0, inflight = None, last_finished = None\<rparr>"

section \<open>Operations (\<open>queue.rs\<close>)\<close>

definition is_active :: "pending_request \<Rightarrow> bool" where
  "is_active r \<longleftrightarrow> rstate r = Pending \<or> rstate r = Decrypting"

definition is_capability_key :: "secret_name \<Rightarrow> bool" where
  "is_capability_key k \<longleftrightarrow> starts_with CAPABILITY_KEY_PREFIX k"

definition active_in_scope :: "bool \<Rightarrow> scope \<Rightarrow> queue \<Rightarrow> pending_request list" where
  "active_in_scope capability sc q =
     filter (\<lambda>r. rscope r = sc \<and> (\<not> capability \<or> is_capability_key (rkey r)) \<and> is_active r) (requests q)"

definition push_request :: "scope \<Rightarrow> secret_name \<Rightarrow> instant \<Rightarrow> nat option \<Rightarrow> queue \<Rightarrow> queue" where
  "push_request sc k now requested q =
     q\<lparr>next_id := sat_add64 (next_id q) 1,
       requests := requests q @ [\<lparr>rid = next_id q, rscope = sc, rkey = k, rstate = Pending, rgen = 0,
                                 rcreated = now, rttl = requested\<rparr>]\<rparr>"

definition enqueue ::
  "scope \<Rightarrow> secret_name \<Rightarrow> instant \<Rightarrow> nat option \<Rightarrow> queue \<Rightarrow> (request_id, err_code) result \<times> queue" where
  "enqueue sc k now requested q =
     (let capability = is_capability_key k in
      case (if capability then None
            else find (\<lambda>r. rscope r = sc \<and> rkey r = k \<and> is_active r) (requests q)) of
        Some existing \<Rightarrow> (Ok (rid existing), q)
      | None \<Rightarrow>
          (let limit = (if capability then 1 else max_pending_per_scope (limits q)) in
           if length (active_in_scope capability sc q) \<ge> limit then (Err TooManyPending, q)
           else (Ok (next_id q), push_request sc k now requested q)))"

definition cooling_down :: "instant \<Rightarrow> queue \<Rightarrow> bool" where
  "cooling_down now q =
     (case last_finished q of
        None \<Rightarrow> False
      | Some fin \<Rightarrow>
          (case checked_duration_since now fin of
             None \<Rightarrow> False
           | Some elapsed \<Rightarrow> elapsed < cooldown (limits q)))"

definition next_ready :: "instant \<Rightarrow> queue \<Rightarrow> request_id option" where
  "next_ready now q =
     (if inflight q \<noteq> None then None
      else if cooling_down now q then None
      else map_option rid (find (\<lambda>r. rstate r = Pending) (requests q)))"

definition mark_decrypting :: "request_id \<Rightarrow> instant \<Rightarrow> queue \<Rightarrow> nat option \<times> queue" where
  "mark_decrypting i now q =
     (if inflight q \<noteq> None \<or> cooling_down now q then (None, q)
      else case find (\<lambda>r. rid r = i) (requests q) of
        None \<Rightarrow> (None, q)
      | Some r \<Rightarrow>
          if rstate r \<noteq> Pending then (None, q)
          else let g = sat_add64 (generation q) 1
               in (Some g,
                   q\<lparr>generation := g,
                     requests := map_first (\<lambda>r. rid r = i) (\<lambda>r. r\<lparr>rstate := Decrypting, rgen := g\<rparr>) (requests q),
                     inflight := Some i\<rparr>))"

definition finish :: "request_id \<Rightarrow> instant \<Rightarrow> queue \<Rightarrow> queue" where
  "finish i now q =
     (if inflight q = Some i then q\<lparr>inflight := None, last_finished := Some now\<rparr>
      else q\<lparr>last_finished := Some now\<rparr>)"

definition still_current :: "request_id \<Rightarrow> nat \<Rightarrow> queue \<Rightarrow> bool" where
  "still_current i g q \<longleftrightarrow>
     list_ex (\<lambda>r. rid r = i \<and> rgen r = g \<and> rstate r = Decrypting) (requests q)"

definition complete :: "request_id \<Rightarrow> nat \<Rightarrow> instant \<Rightarrow> queue \<Rightarrow> bool \<times> queue" where
  "complete i g now q =
     (let current = still_current i g q;
          q' = (if current
                then q\<lparr>requests := map_first (\<lambda>r. rid r = i) (\<lambda>r. r\<lparr>rstate := Granted\<rparr>) (requests q)\<rparr>
                else q)
      in (current, finish i now q'))"

definition fail :: "request_id \<Rightarrow> instant \<Rightarrow> queue \<Rightarrow> queue" where
  "fail i now q =
     finish i now (q\<lparr>requests := map_first (\<lambda>r. rid r = i) (\<lambda>r. r\<lparr>rstate := Failed\<rparr>) (requests q)\<rparr>)"

section \<open>Expiry and denial (\<open>expiry.rs\<close>)\<close>

definition close_with :: "request_state \<Rightarrow> pending_request \<Rightarrow> pending_request" where
  "close_with st r = r\<lparr>rstate := st, rgen := sat_add64 (rgen r) 1\<rparr>"

definition close_request :: "request_state \<Rightarrow> request_id \<Rightarrow> instant \<Rightarrow> queue \<Rightarrow> bool \<times> queue" where
  "close_request st i now q =
     (case find (\<lambda>r. rid r = i) (requests q) of
        None \<Rightarrow> (False, q)
      | Some r \<Rightarrow>
          if is_active r
          then (True, finish i now (q\<lparr>requests := map_first (\<lambda>r. rid r = i) (close_with st) (requests q)\<rparr>))
          else (False, q))"

definition timeout :: "request_id \<Rightarrow> instant \<Rightarrow> queue \<Rightarrow> bool \<times> queue" where
  "timeout i now q = close_request TimedOutR i now q"

text \<open>\<open>deny\<close> reads the clock itself; the reading is its argument here.\<close>

definition deny :: "request_id \<Rightarrow> instant \<Rightarrow> queue \<Rightarrow> bool \<times> queue" where
  "deny i now q = close_request DeniedR i now q"

definition overdue :: "instant \<Rightarrow> duration \<Rightarrow> pending_request \<Rightarrow> bool" where
  "overdue now lim r \<longleftrightarrow>
     is_active r \<and> (case checked_duration_since now (rcreated r) of None \<Rightarrow> False | Some e \<Rightarrow> e > lim)"

definition sweep_timeouts :: "instant \<Rightarrow> queue \<Rightarrow> request_id list \<times> queue" where
  "sweep_timeouts now q =
     (let expired = map rid (filter (overdue now (ttl (limits q))) (requests q));
          q' = q\<lparr>requests := map (\<lambda>r. if overdue now (ttl (limits q)) r then close_with TimedOutR r else r) (requests q)\<rparr>
      in (expired, fold (\<lambda>i. finish i now) expired q'))"

definition state_of :: "request_id \<Rightarrow> queue \<Rightarrow> request_state option" where
  "state_of i q = map_option rstate (find (\<lambda>r. rid r = i) (requests q))"

definition describe :: "request_id \<Rightarrow> queue \<Rightarrow> (scope \<times> secret_name \<times> nat option) option" where
  "describe i q = map_option (\<lambda>r. (rscope r, rkey r, rttl r)) (find (\<lambda>r. rid r = i) (requests q))"

definition is_idle :: "queue \<Rightarrow> bool" where
  "is_idle q \<longleftrightarrow> \<not> list_ex is_active (requests q)"

text \<open>The longest \<open>Duration\<close>, at which \<open>saturating_mul\<close> stops.\<close>

definition duration_max :: duration where
  "duration_max = u64_max * nanos_per_sec + 999999999"

definition prune :: "instant \<Rightarrow> queue \<Rightarrow> queue" where
  "prune now q =
     (let horizon = min (ttl (limits q) * 2) duration_max
      in q\<lparr>requests := filter (\<lambda>r. is_active r \<or>
              (case checked_duration_since now (rcreated r) of None \<Rightarrow> False | Some e \<Rightarrow> e < horizon)) (requests q)\<rparr>)"

section \<open>The queue with its worker\<close>

text \<open>
  \<open>job\<close> is the request and generation the worker is decrypting for, from \<open>mark_decrypting\<close> to the
  matching \<open>complete\<close> or \<open>fail\<close>; \<open>ended\<close> is when its last decrypt returned.
\<close>

record queue_system =
  queue_of :: queue
  job :: "(request_id \<times> nat) option"
  clock :: instant
  ended :: "instant option"

definition system_init :: "queue_system \<Rightarrow> bool" where
  "system_init s \<longleftrightarrow> (\<exists>lim. queue_of s = queue_new lim) \<and> job s = None \<and> ended s = None"

inductive queue_step :: "queue_system \<Rightarrow> queue_system \<Rightarrow> bool" where
  enqueue_step:
    "clock s \<le> now \<Longrightarrow>
     queue_step s (s\<lparr>queue_of := snd (enqueue sc k now requested (queue_of s)), clock := now\<rparr>)"
| start_step:
    "clock s \<le> now \<Longrightarrow> job s = None \<Longrightarrow> next_ready now (queue_of s) = Some i \<Longrightarrow>
     mark_decrypting i now (queue_of s) = (Some g, q') \<Longrightarrow>
     queue_step s (s\<lparr>queue_of := q', job := Some (i, g), clock := now\<rparr>)"
| complete_step:
    "clock s \<le> now \<Longrightarrow> job s = Some (i, g) \<Longrightarrow>
     queue_step s (s\<lparr>queue_of := snd (complete i g now (queue_of s)), job := None, clock := now, ended := Some now\<rparr>)"
| fail_step:
    "clock s \<le> now \<Longrightarrow> job s = Some (i, g) \<Longrightarrow>
     queue_step s (s\<lparr>queue_of := fail i now (queue_of s), job := None, clock := now, ended := Some now\<rparr>)"
| deny_step:
    "clock s \<le> now \<Longrightarrow> queue_step s (s\<lparr>queue_of := snd (deny i now (queue_of s)), clock := now\<rparr>)"
| timeout_step:
    "clock s \<le> now \<Longrightarrow> queue_step s (s\<lparr>queue_of := snd (timeout i now (queue_of s)), clock := now\<rparr>)"
| sweep_step:
    "clock s \<le> now \<Longrightarrow> queue_step s (s\<lparr>queue_of := snd (sweep_timeouts now (queue_of s)), clock := now\<rparr>)"
| prune_step:
    "clock s \<le> now \<Longrightarrow> queue_step s (s\<lparr>queue_of := prune now (queue_of s), clock := now\<rparr>)"

section \<open>Updates of one request\<close>

lemma map_first_id:
  "distinct (map rid xs) \<Longrightarrow> map_first (\<lambda>r. rid r = i) f xs = map (\<lambda>r. if rid r = i then f r else r) xs"
proof (induction xs)
  case (Cons x xs)
  then have "rid x = i \<Longrightarrow> map (\<lambda>r. if rid r = i then f r else r) xs = xs"
    by (intro map_idI) (auto simp: image_iff)
  then show ?case
    using Cons by simp
qed simp

lemma length_filter_map_le:
  "(\<And>x. P (f x) \<Longrightarrow> P x) \<Longrightarrow> length (filter P (map f xs)) \<le> length (filter P xs)"
  by (induction xs) (auto intro: le_SucI)

lemma distinct_filter_map:
  "distinct (map g (filter P xs)) \<Longrightarrow> (\<And>x. P (f x) \<Longrightarrow> P x \<and> g (f x) = g x) \<Longrightarrow>
   distinct (map g (filter P (map f xs)))"
proof (induction xs)
  case (Cons x xs)
  have "g ` {y \<in> f ` set xs. P y} \<subseteq> g ` {y \<in> set xs. P y}"
    using Cons.prems(2) by auto
  then show ?case
    using Cons by (auto split: if_splits)
qed simp

lemma finish_simps [simp]:
  "requests (finish i now q) = requests q" "limits (finish i now q) = limits q"
  "next_id (finish i now q) = next_id q" "generation (finish i now q) = generation q"
  "last_finished (finish i now q) = Some now"
  "inflight (finish i now q) = (if inflight q = Some i then None else inflight q)"
  by (simp_all add: finish_def)

lemma fold_finish:
  "requests (fold (\<lambda>i. finish i now) is q) = requests q" "limits (fold (\<lambda>i. finish i now) is q) = limits q"
  "next_id (fold (\<lambda>i. finish i now) is q) = next_id q"
  "last_finished (fold (\<lambda>i. finish i now) is q) = (if is = [] then last_finished q else Some now)"
  "inflight (fold (\<lambda>i. finish i now) is q) = (if \<exists>i \<in> set is. inflight q = Some i then None else inflight q)"
  by (induction "is" arbitrary: q) (auto split: if_splits)

lemma is_active_simps [simp]:
  "is_active (r\<lparr>rstate := Granted\<rparr>) = False" "is_active (r\<lparr>rstate := Failed\<rparr>) = False"
  "is_active (r\<lparr>rstate := Decrypting, rgen := g\<rparr>)"
  "is_active (close_with DeniedR r) = False" "is_active (close_with TimedOutR r) = False"
  by (simp_all add: is_active_def close_with_def)

lemma close_with_simps [simp]:
  "rid (close_with st r) = rid r" "rscope (close_with st r) = rscope r" "rkey (close_with st r) = rkey r"
  "rstate (close_with st r) = st" "rttl (close_with st r) = rttl r" "rcreated (close_with st r) = rcreated r"
  by (simp_all add: close_with_def)

section \<open>The invariant\<close>

definition ids_inv :: "queue \<Rightarrow> bool" where
  "ids_inv q \<longleftrightarrow> distinct (map rid (requests q)) \<and> (\<forall>r \<in> set (requests q). rid r < next_id q)"

lemma ids_inv_same:
  "ids_inv q \<Longrightarrow> map rid (requests q') = map rid (requests q) \<Longrightarrow> next_id q' = next_id q \<Longrightarrow> ids_inv q'"
  unfolding ids_inv_def by (metis (mono_tags, lifting) image_iff list.set_map)

definition flight_inv :: "(request_id \<times> nat) option \<Rightarrow> queue \<Rightarrow> bool" where
  "flight_inv jb q \<longleftrightarrow>
     (\<forall>r \<in> set (requests q). rstate r = Decrypting \<longrightarrow> inflight q = Some (rid r) \<and> jb = Some (rid r, rgen r))
     \<and> (\<forall>i. inflight q = Some i \<longrightarrow> (\<exists>r \<in> set (requests q). rid r = i \<and> rstate r = Decrypting))"

definition active_kind :: "bool \<Rightarrow> scope \<Rightarrow> pending_request \<Rightarrow> bool" where
  "active_kind capability sc r \<longleftrightarrow> rscope r = sc \<and> is_capability_key (rkey r) = capability \<and> is_active r"

definition bound_inv :: "queue \<Rightarrow> bool" where
  "bound_inv q \<longleftrightarrow>
     (\<forall>sc. length (filter (active_kind False sc) (requests q)) \<le> max_pending_per_scope (limits q)
         \<and> length (filter (active_kind True sc) (requests q)) \<le> 1)"

definition coalesce_inv :: "queue \<Rightarrow> bool" where
  "coalesce_inv q \<longleftrightarrow>
     distinct (map (\<lambda>r. (rscope r, rkey r)) (filter (\<lambda>r. is_active r \<and> \<not> is_capability_key (rkey r)) (requests q)))"

definition time_inv :: "queue_system \<Rightarrow> bool" where
  "time_inv s \<longleftrightarrow>
     (\<forall>f. last_finished (queue_of s) = Some f \<longrightarrow> f \<le> clock s)
     \<and> (\<forall>e. ended s = Some e \<longrightarrow> (\<exists>f. last_finished (queue_of s) = Some f \<and> e \<le> f))"

definition core_inv :: "queue_system \<Rightarrow> bool" where
  "core_inv s \<longleftrightarrow>
     ids_inv (queue_of s) \<and> flight_inv (job s) (queue_of s) \<and> bound_inv (queue_of s)
     \<and> coalesce_inv (queue_of s) \<and> time_inv s"

text \<open>Identifiers are fresh until the 64-bit counter saturates.\<close>

definition system_inv :: "queue_system \<Rightarrow> bool" where
  "system_inv s \<longleftrightarrow> next_id (queue_of s) \<le> u64_max \<and> (next_id (queue_of s) < u64_max \<longrightarrow> core_inv s)"

text \<open>An update that closes some active requests and leaves the others keeps everything.\<close>

definition closes :: "(pending_request \<Rightarrow> pending_request) \<Rightarrow> bool" where
  "closes f \<longleftrightarrow>
     (\<forall>r. f r = r \<or> (rid (f r) = rid r \<and> rscope (f r) = rscope r \<and> rkey (f r) = rkey r \<and> \<not> is_active (f r)))"

lemma closes_cases:
  "closes (\<lambda>r. if rid r = i then r\<lparr>rstate := Granted\<rparr> else r)"
  "closes (\<lambda>r. if rid r = i then r\<lparr>rstate := Failed\<rparr> else r)"
  "closes (\<lambda>r. if rid r = i then close_with DeniedR r else r)"
  "closes (\<lambda>r. if rid r = i then close_with TimedOutR r else r)"
  "closes (\<lambda>r. if overdue now lim r then close_with TimedOutR r else r)"
  by (auto simp: closes_def is_active_def)

lemma closes_rid: "closes f \<Longrightarrow> rid (f r) = rid r"
  by (metis closes_def)

lemma closes_active: "closes f \<Longrightarrow> is_active (f r) \<Longrightarrow> f r = r"
  by (metis closes_def)

lemma closed_inv:
  assumes "closes f" and "ids_inv q" and "bound_inv q" and "coalesce_inv q"
    and "requests q' = map f (requests q)" and "limits q' = limits q" and "next_id q' = next_id q"
  shows "ids_inv q' \<and> bound_inv q' \<and> coalesce_inv q'"
proof (intro conjI)
  show "ids_inv q'"
    using assms by (auto simp: ids_inv_def closes_rid comp_def)
  have "length (filter (active_kind c sc) (requests q')) \<le> length (filter (active_kind c sc) (requests q))" for c sc
    using assms(1) unfolding assms(5)
    by (intro length_filter_map_le) (metis active_kind_def closes_active)
  then show "bound_inv q'"
    using assms(3,6) unfolding bound_inv_def by (metis le_trans)
  show "coalesce_inv q'"
    using assms(4) unfolding coalesce_inv_def assms(5)
    by (rule distinct_filter_map) (metis assms(1) closes_active)
qed

text \<open>The worker's job is released exactly when its request is closed.\<close>

lemma flight_closed:
  assumes "closes f" and "flight_inv jb q" and "requests q' = map f (requests q)"
    and "inflight q' = (if \<exists>r \<in> set (requests q). inflight q = Some (rid r) \<and> \<not> is_active (f r)
                        then None else inflight q)"
    and "ids_inv q"
  shows "flight_inv jb q'"
  unfolding flight_inv_def
proof (intro conjI ballI allI impI)
  fix r' assume r': "r' \<in> set (requests q')" "rstate r' = Decrypting"
  then obtain r where r: "r \<in> set (requests q)" "r' = f r"
    using assms(3) by auto
  then have same: "f r = r" "rstate r = Decrypting"
    using closes_active [OF assms(1), of r] r' by (auto simp: is_active_def)
  then have fl: "inflight q = Some (rid r)" "jb = Some (rid r, rgen r)"
    using assms(2) r by (auto simp: flight_inv_def)
  have "x = r" if "x \<in> set (requests q)" "rid x = rid r" for x
    using that r(1) assms(5) by (auto simp: ids_inv_def distinct_map inj_on_def)
  then have "\<not> (\<exists>x \<in> set (requests q). inflight q = Some (rid x) \<and> \<not> is_active (f x))"
    using fl(1) same by (auto simp: is_active_def)
  then show "inflight q' = Some (rid r')" "jb = Some (rid r', rgen r')"
    using assms(4) fl r same by auto
next
  fix i assume i: "inflight q' = Some i"
  then have "inflight q = Some i" and still: "\<And>r. r \<in> set (requests q) \<Longrightarrow> rid r = i \<Longrightarrow> is_active (f r)"
    using assms(4) by (auto split: if_splits)
  then obtain r where r: "r \<in> set (requests q)" "rid r = i" "rstate r = Decrypting"
    using assms(2) by (auto simp: flight_inv_def)
  then have "f r = r"
    using still closes_active [OF assms(1)] by blast
  then show "\<exists>r \<in> set (requests q'). rid r = i \<and> rstate r = Decrypting"
    using r assms(3) by force
qed

lemma flight_idle:
  "(\<And>r. r \<in> set (requests q) \<Longrightarrow> rstate r \<noteq> Decrypting) \<Longrightarrow> inflight q = None \<Longrightarrow> flight_inv jb q"
  by (auto simp: flight_inv_def)

lemma time_inv_now:
  assumes "time_inv s" and "clock s \<le> now" and "clock s' = now"
    and "last_finished (queue_of s') = last_finished (queue_of s) \<or> last_finished (queue_of s') = Some now"
    and "ended s' = ended s \<or> (ended s' = Some now \<and> last_finished (queue_of s') = Some now)"
  shows "time_inv s'"
  using assms unfolding time_inv_def by (metis le_trans option.inject order_refl)

lemma close_request_cases:
  assumes "ids_inv q"
  shows "(\<exists>r \<in> set (requests q). rid r = i \<and> is_active r \<and> fst (close_request st i now q)
           \<and> snd (close_request st i now q)
             = finish i now (q\<lparr>requests := map (\<lambda>r. if rid r = i then close_with st r else r) (requests q)\<rparr>))
         \<or> (close_request st i now q = (False, q) \<and> (\<forall>r \<in> set (requests q). rid r = i \<longrightarrow> \<not> is_active r))"
proof (cases "find (\<lambda>r. rid r = i) (requests q)")
  case None
  then have "\<forall>r \<in> set (requests q). rid r \<noteq> i"
    by (auto simp: find_None_iff)
  then show ?thesis
    using None by (auto simp: close_request_def)
next
  case (Some r)
  then have r: "r \<in> set (requests q)" "rid r = i"
    using find_SomeD by fastforce+
  have one: "x = r" if "x \<in> set (requests q)" "rid x = i" for x
    using that r assms by (auto simp: ids_inv_def distinct_map inj_on_def)
  show ?thesis
  proof (cases "is_active r")
    case True
    then show ?thesis
      using Some assms r by (intro disjI1 bexI [of _ r]) (simp_all add: close_request_def map_first_id ids_inv_def)
  next
    case False
    then show ?thesis
      using Some one by (intro disjI2) (auto simp: close_request_def)
  qed
qed

lemma inflight_active:
  assumes "flight_inv jb q" and "ids_inv q" and "inflight q = Some (rid r)" and "r \<in> set (requests q)"
  shows "rstate r = Decrypting"
  using assms by (auto simp: flight_inv_def ids_inv_def distinct_map inj_on_def)

lemma close_request_inv:
  assumes "core_inv s" and "clock s \<le> now" and "st = DeniedR \<or> st = TimedOutR"
  shows "core_inv (s\<lparr>queue_of := snd (close_request st i now (queue_of s)), clock := now\<rparr>)"
proof -
  let ?q = "queue_of s" and ?q' = "snd (close_request st i now (queue_of s))"
  let ?f = "\<lambda>r. if rid r = i then close_with st r else r"
  have inv: "ids_inv ?q" "flight_inv (job s) ?q" "bound_inv ?q" "coalesce_inv ?q" "time_inv s"
    using assms(1) by (auto simp: core_inv_def)
  have cl: "closes ?f"
    using assms(3) closes_cases(3,4) by auto
  consider (closed) r where "r \<in> set (requests ?q)" "rid r = i" "is_active r"
      "?q' = finish i now (?q\<lparr>requests := map ?f (requests ?q)\<rparr>)"
    | (same) "?q' = ?q"
    using close_request_cases [OF inv(1), of i st now] by auto
  then show ?thesis
  proof cases
    case (closed r)
    then have req: "requests ?q' = map ?f (requests ?q)"
      by simp
    have "ids_inv ?q' \<and> bound_inv ?q' \<and> coalesce_inv ?q'"
      by (rule closed_inv [OF cl inv(1,3,4) req]) (simp_all add: closed(4))
    moreover have "flight_inv (job s) ?q'"
      using closed assms(3) inflight_active [OF inv(2,1)]
      by (intro flight_closed [OF cl inv(2) req _ inv(1)]) (auto simp: closed(4) is_active_def)
    moreover have "time_inv (s\<lparr>queue_of := ?q', clock := now\<rparr>)"
      by (rule time_inv_now [OF inv(5) assms(2)]) (simp_all add: closed(4))
    ultimately show ?thesis
      by (simp add: core_inv_def)
  next
    case same
    have "time_inv (s\<lparr>queue_of := ?q, clock := now\<rparr>)"
      by (rule time_inv_now [OF inv(5) assms(2)]) simp_all
    then show ?thesis
      using inv same by (simp add: core_inv_def)
  qed
qed

lemma sweep_timeouts_inv:
  assumes "core_inv s" and "clock s \<le> now"
  shows "core_inv (s\<lparr>queue_of := snd (sweep_timeouts now (queue_of s)), clock := now\<rparr>)"
proof -
  let ?q = "queue_of s" and ?q' = "snd (sweep_timeouts now (queue_of s))"
  let ?f = "\<lambda>r. if overdue now (ttl (limits ?q)) r then close_with TimedOutR r else r"
  have inv: "ids_inv ?q" "flight_inv (job s) ?q" "bound_inv ?q" "coalesce_inv ?q" "time_inv s"
    using assms(1) by (auto simp: core_inv_def)
  have q': "requests ?q' = map ?f (requests ?q)" "limits ?q' = limits ?q" "next_id ?q' = next_id ?q"
    by (simp_all add: sweep_timeouts_def Let_def fold_finish)
  have "flight_inv (job s) ?q'"
  proof (rule flight_closed [OF closes_cases(5) inv(2) q'(1) _ inv(1)])
    have "is_active r" if "inflight ?q = Some (rid r)" "r \<in> set (requests ?q)" for r
      using that inflight_active [OF inv(2,1)] by (auto simp: is_active_def)
    then show "inflight ?q' = (if \<exists>r \<in> set (requests ?q). inflight ?q = Some (rid r) \<and> \<not> is_active (?f r)
        then None else inflight ?q)"
      by (auto simp: sweep_timeouts_def Let_def fold_finish)
  qed
  moreover have "ids_inv ?q' \<and> bound_inv ?q' \<and> coalesce_inv ?q'"
    by (rule closed_inv [OF closes_cases(5) inv(1,3,4) q'])
  moreover have "time_inv (s\<lparr>queue_of := ?q', clock := now\<rparr>)"
    by (rule time_inv_now [OF inv(5) assms(2)]) (simp_all add: sweep_timeouts_def Let_def fold_finish)
  ultimately show ?thesis
    by (simp add: core_inv_def)
qed

lemma prune_inv:
  assumes "core_inv s" and "clock s \<le> now"
  shows "core_inv (s\<lparr>queue_of := prune now (queue_of s), clock := now\<rparr>)"
proof -
  let ?q = "queue_of s" and ?q' = "prune now (queue_of s)"
  obtain P where P: "requests ?q' = filter (\<lambda>r. is_active r \<or> P r) (requests ?q)"
    by (simp add: prune_def Let_def)
  have eq: "limits ?q' = limits ?q" "next_id ?q' = next_id ?q" "inflight ?q' = inflight ?q"
      "last_finished ?q' = last_finished ?q"
    by (simp_all add: prune_def Let_def)
  have inv: "ids_inv ?q" "flight_inv (job s) ?q" "bound_inv ?q" "coalesce_inv ?q" "time_inv s"
    using assms(1) by (auto simp: core_inv_def)
  have act: "filter A (requests ?q') = filter A (requests ?q)" if "\<And>r. A r \<Longrightarrow> is_active r" for A
    unfolding P filter_filter by (rule filter_cong) (use that in auto)
  have "ids_inv ?q'"
    using inv(1) by (auto simp: ids_inv_def P eq distinct_map_filter)
  moreover have "flight_inv (job s) ?q'"
    using inv(2) by (auto simp: flight_inv_def P eq is_active_def)
  moreover have "filter (active_kind c sc) (requests ?q') = filter (active_kind c sc) (requests ?q)" for c sc
    by (rule act) (simp add: active_kind_def)
  then have "bound_inv ?q'"
    using inv(3) by (simp add: bound_inv_def eq)
  moreover have "coalesce_inv ?q'"
    using inv(4) act [of "\<lambda>r. is_active r \<and> \<not> is_capability_key (rkey r)"] by (simp add: coalesce_inv_def)
  moreover have "time_inv (s\<lparr>queue_of := ?q', clock := now\<rparr>)"
    by (rule time_inv_now [OF inv(5) assms(2)]) (simp_all add: eq)
  ultimately show ?thesis
    by (simp add: core_inv_def)
qed

lemma end_job_inv:
  assumes "core_inv s" and "clock s \<le> now" and "job s = Some (i, g)" and "closes f"
    and "requests q' = map f (requests (queue_of s))"
    and "\<And>r. r \<in> set (requests (queue_of s)) \<Longrightarrow> rid r = i \<Longrightarrow> rstate r = Decrypting \<Longrightarrow> rstate (f r) \<noteq> Decrypting"
    and "limits q' = limits (queue_of s)" and "next_id q' = next_id (queue_of s)"
    and "inflight q' = (if inflight (queue_of s) = Some i then None else inflight (queue_of s))"
    and "last_finished q' = Some now"
  shows "core_inv (s\<lparr>queue_of := q', job := None, clock := now, ended := Some now\<rparr>)"
proof -
  let ?q = "queue_of s"
  have inv: "ids_inv ?q" "flight_inv (job s) ?q" "bound_inv ?q" "coalesce_inv ?q" "time_inv s"
    using assms(1) by (auto simp: core_inv_def)
  have only: "rid r = i" if "r \<in> set (requests ?q)" "rstate r = Decrypting" for r
    using that inv(2) assms(3) by (auto simp: flight_inv_def)
  have "rstate (f r) \<noteq> Decrypting" if "r \<in> set (requests ?q)" for r
    using that only assms(6) closes_active [OF assms(4), of r] is_active_def by metis
  moreover have "inflight q' = None"
    using inv(2) only assms(9) by (cases "inflight ?q") (auto simp: flight_inv_def)
  ultimately have "flight_inv None q'"
    by (intro flight_idle) (auto simp: assms(5))
  moreover have "ids_inv q' \<and> bound_inv q' \<and> coalesce_inv q'"
    by (rule closed_inv [OF assms(4) inv(1,3,4) assms(5,7,8)])
  moreover have "time_inv (s\<lparr>queue_of := q', job := None, clock := now, ended := Some now\<rparr>)"
    by (rule time_inv_now [OF inv(5) assms(2)]) (simp_all add: assms(10))
  ultimately show ?thesis
    by (simp add: core_inv_def)
qed

lemma complete_inv:
  assumes "core_inv s" and "clock s \<le> now" and "job s = Some (i, g)"
  shows "core_inv (s\<lparr>queue_of := snd (complete i g now (queue_of s)), job := None, clock := now, ended := Some now\<rparr>)"
proof (cases "still_current i g (queue_of s)")
  case True
  have "ids_inv (queue_of s)"
    using assms(1) by (simp add: core_inv_def)
  then show ?thesis
    using True
    by (intro end_job_inv [OF assms closes_cases(1) [of i]])
      (simp_all add: complete_def Let_def map_first_id ids_inv_def)
next
  case False
  have "closes (\<lambda>r. r)" "requests (queue_of s) = map (\<lambda>r. r) (requests (queue_of s))"
    by (simp_all add: closes_def)
  moreover have "rstate r \<noteq> Decrypting" if "r \<in> set (requests (queue_of s))" for r
    using that False assms(1,3) by (auto simp: core_inv_def flight_inv_def still_current_def list_ex_iff)
  ultimately show ?thesis
    using False by (intro end_job_inv [OF assms, of "\<lambda>r. r"]) (simp_all add: complete_def Let_def)
qed

lemma fail_inv:
  assumes "core_inv s" and "clock s \<le> now" and "job s = Some (i, g)"
  shows "core_inv (s\<lparr>queue_of := fail i now (queue_of s), job := None, clock := now, ended := Some now\<rparr>)"
proof -
  have "ids_inv (queue_of s)"
    using assms(1) by (simp add: core_inv_def)
  then show ?thesis
    by (intro end_job_inv [OF assms closes_cases(2) [of i]]) (simp_all add: fail_def map_first_id ids_inv_def)
qed

lemma mark_decrypting_Some:
  assumes "mark_decrypting i now q = (Some g, q')" and "ids_inv q"
  shows "inflight q = None \<and> \<not> cooling_down now q \<and> (\<exists>r \<in> set (requests q). rid r = i \<and> rstate r = Pending)
    \<and> g = sat_add64 (generation q) 1
    \<and> q' = q\<lparr>generation := g,
         requests := map (\<lambda>r. if rid r = i then r\<lparr>rstate := Decrypting, rgen := g\<rparr> else r) (requests q),
         inflight := Some i\<rparr>"
  using assms
  by (auto simp: mark_decrypting_def map_first_id ids_inv_def Let_def dest!: find_SomeD
      split: if_splits option.splits)

lemma start_inv:
  assumes "core_inv s" and "clock s \<le> now" and "mark_decrypting i now (queue_of s) = (Some g, q')"
  shows "core_inv (s\<lparr>queue_of := q', job := Some (i, g), clock := now\<rparr>)"
proof -
  let ?q = "queue_of s"
  let ?f = "\<lambda>r. if rid r = i then r\<lparr>rstate := Decrypting, rgen := g\<rparr> else r"
  have inv: "ids_inv ?q" "flight_inv (job s) ?q" "bound_inv ?q" "coalesce_inv ?q" "time_inv s"
    using assms(1) by (auto simp: core_inv_def)
  have q': "q' = ?q\<lparr>generation := g, requests := map ?f (requests ?q), inflight := Some i\<rparr>"
    and free: "inflight ?q = None" and pend: "\<exists>r \<in> set (requests ?q). rid r = i \<and> rstate r = Pending"
    using mark_decrypting_Some [OF assms(3) inv(1)] by blast+
  obtain r0 where r0: "r0 \<in> set (requests ?q)" "rid r0 = i" "rstate r0 = Pending"
    using pend by auto
  have one: "r = r0" if "r \<in> set (requests ?q)" "rid r = i" for r
    using that r0 inv(1) by (auto simp: ids_inv_def distinct_map inj_on_def)
  have req: "requests q' = map ?f (requests ?q)"
    by (simp add: q')
  have act: "is_active (?f r) \<longleftrightarrow> is_active r" if "r \<in> set (requests ?q)" for r
    using one [OF that] r0(3) by (auto simp: is_active_def)
  have filt: "filter A (requests q') = map ?f (filter A (requests ?q))"
    if "\<And>r. r \<in> set (requests ?q) \<Longrightarrow> A (?f r) \<longleftrightarrow> A r" for A
    unfolding req filter_map using that by (intro arg_cong [where f = "map ?f"] filter_cong) simp_all
  have same: "map rid (map ?f xs) = map rid xs"
    "map (\<lambda>r. (rscope r, rkey r)) (map ?f xs) = map (\<lambda>r. (rscope r, rkey r)) xs" for xs
    by (induction xs) auto
  have "ids_inv q'"
    by (rule ids_inv_same [OF inv(1)]) (simp_all only: req same(1), simp add: q')
  moreover have "flight_inv (Some (i, g)) q'"
    unfolding flight_inv_def
  proof (intro conjI ballI allI impI)
    fix r' assume "r' \<in> set (requests q')" "rstate r' = Decrypting"
    moreover have "rstate r \<noteq> Decrypting" if "r \<in> set (requests ?q)" for r
      using that inv(2) free by (auto simp: flight_inv_def)
    ultimately show "inflight q' = Some (rid r')" "Some (i, g) = Some (rid r', rgen r')"
      by (auto simp: q' split: if_splits)
  next
    fix j assume "inflight q' = Some j"
    then have "?f r0 \<in> set (requests q')" "rid (?f r0) = j" "rstate (?f r0) = Decrypting"
      using r0 unfolding req by (auto simp: q' intro: image_eqI)
    then show "\<exists>r \<in> set (requests q'). rid r = j \<and> rstate r = Decrypting"
      by blast
  qed
  moreover have "active_kind c sc (?f r) \<longleftrightarrow> active_kind c sc r" if "r \<in> set (requests ?q)" for c sc r
    using act [OF that] by (auto simp: active_kind_def)
  then have "length (filter (active_kind c sc) (requests q')) = length (filter (active_kind c sc) (requests ?q))" for c sc
    by (simp add: filt)
  then have "bound_inv q'"
    using inv(3) by (simp add: bound_inv_def q')
  moreover have "filter (\<lambda>r. is_active r \<and> \<not> is_capability_key (rkey r)) (requests q')
      = map ?f (filter (\<lambda>r. is_active r \<and> \<not> is_capability_key (rkey r)) (requests ?q))"
    using act by (intro filt) auto
  then have "coalesce_inv q'"
    using inv(4) unfolding coalesce_inv_def by (simp only: same(2))
  moreover have "time_inv (s\<lparr>queue_of := q', job := Some (i, g), clock := now\<rparr>)"
    by (rule time_inv_now [OF inv(5) assms(2)]) (simp_all add: q')
  ultimately show ?thesis
    by (simp add: core_inv_def)
qed

lemma length_filter_weaken: "(\<And>x. P x \<Longrightarrow> Q x) \<Longrightarrow> length (filter P xs) \<le> length (filter Q xs)"
  by (induction xs) auto

lemma enqueue_cases:
  "(\<exists>r \<in> set (requests q). enqueue sc k now t q = (Ok (rid r), q) \<and> rscope r = sc \<and> rkey r = k
      \<and> is_active r \<and> \<not> is_capability_key k)
   \<or> enqueue sc k now t q = (Err TooManyPending, q)
   \<or> (enqueue sc k now t q = (Ok (next_id q), push_request sc k now t q)
      \<and> length (active_in_scope (is_capability_key k) sc q)
          < (if is_capability_key k then 1 else max_pending_per_scope (limits q))
      \<and> (\<not> is_capability_key k \<longrightarrow>
           (\<forall>r \<in> set (requests q). \<not> (rscope r = sc \<and> rkey r = k \<and> is_active r))))"
proof (cases "if is_capability_key k then None
              else find (\<lambda>r. rscope r = sc \<and> rkey r = k \<and> is_active r) (requests q)")
  case None
  then show ?thesis
    by (auto simp: enqueue_def Let_def find_None_iff split: if_splits)
next
  case (Some r)
  then have "r \<in> set (requests q) \<and> rscope r = sc \<and> rkey r = k \<and> is_active r \<and> \<not> is_capability_key k"
    by (auto dest: find_SomeD split: if_splits)
  then show ?thesis
    using Some by (intro disjI1 bexI [of _ r]) (auto simp: enqueue_def)
qed

lemma push_request_simps [simp]:
  "limits (push_request sc k now t q) = limits q" "next_id (push_request sc k now t q) = sat_add64 (next_id q) 1"
  "inflight (push_request sc k now t q) = inflight q" "last_finished (push_request sc k now t q) = last_finished q"
  "generation (push_request sc k now t q) = generation q"
  "requests (push_request sc k now t q) = requests q @ [\<lparr>rid = next_id q, rscope = sc, rkey = k, rstate = Pending,
      rgen = 0, rcreated = now, rttl = t\<rparr>]"
  by (simp_all add: push_request_def)

lemma push_request_inv:
  assumes "core_inv s" and "clock s \<le> now" and "next_id (queue_of s) < u64_max"
    and "length (active_in_scope (is_capability_key k) sc (queue_of s))
          < (if is_capability_key k then 1 else max_pending_per_scope (limits (queue_of s)))"
    and "\<not> is_capability_key k \<longrightarrow>
           (\<forall>r \<in> set (requests (queue_of s)). \<not> (rscope r = sc \<and> rkey r = k \<and> is_active r))"
  shows "core_inv (s\<lparr>queue_of := push_request sc k now t (queue_of s), clock := now\<rparr>)"
proof -
  let ?q = "queue_of s" and ?q' = "push_request sc k now t (queue_of s)"
  have inv: "ids_inv ?q" "flight_inv (job s) ?q" "bound_inv ?q" "coalesce_inv ?q" "time_inv s"
    using assms(1) by (auto simp: core_inv_def)
  have "ids_inv ?q'"
    using inv(1) assms(3) by (auto simp: ids_inv_def)
  moreover have "flight_inv (job s) ?q'"
    using inv(2) by (auto simp: flight_inv_def)
  moreover have "length (filter (active_kind (is_capability_key k) sc) (requests ?q))
      \<le> length (active_in_scope (is_capability_key k) sc ?q)"
    unfolding active_in_scope_def by (rule length_filter_weaken) (auto simp: active_kind_def)
  then have "bound_inv ?q'"
    using inv(3) assms(4) unfolding bound_inv_def
    by (auto simp: active_kind_def split: if_splits)
  moreover have "coalesce_inv ?q'"
    using inv(4) assms(5) by (auto simp: coalesce_inv_def)
  moreover have "time_inv (s\<lparr>queue_of := ?q', clock := now\<rparr>)"
    by (rule time_inv_now [OF inv(5) assms(2)]) simp_all
  ultimately show ?thesis
    by (simp add: core_inv_def)
qed

lemma core_inv_clock: "core_inv s \<Longrightarrow> clock s \<le> now \<Longrightarrow> core_inv (s\<lparr>clock := now\<rparr>)"
  using time_inv_now [of s now "s\<lparr>clock := now\<rparr>"] by (simp add: core_inv_def)

lemma enqueue_inv:
  assumes "core_inv s" and "clock s \<le> now" and "next_id (queue_of s) < u64_max"
  shows "core_inv (s\<lparr>queue_of := snd (enqueue sc k now t (queue_of s)), clock := now\<rparr>)"
  using enqueue_cases [of "queue_of s" sc k now t] push_request_inv [OF assms] core_inv_clock [OF assms(1,2)]
  by auto

section \<open>Reachable states\<close>

lemma next_id_ops [simp]:
  "next_id (snd (close_request st i now q)) = next_id q" "next_id (snd (sweep_timeouts now q)) = next_id q"
  "next_id (prune now q) = next_id q" "next_id (snd (complete i g now q)) = next_id q"
  "next_id (fail i now q) = next_id q" "next_id (snd (mark_decrypting i now q)) = next_id q"
  by (simp_all add: close_request_def sweep_timeouts_def prune_def complete_def fail_def mark_decrypting_def
      Let_def fold_finish split: option.splits)

lemma next_id_enqueue:
  "next_id (snd (enqueue sc k now t q)) = next_id q \<or> next_id (snd (enqueue sc k now t q)) = sat_add64 (next_id q) 1"
  using enqueue_cases [of q sc k now t] by auto

lemma core_inv_init: "system_init s \<Longrightarrow> core_inv s"
  by (auto simp: system_init_def core_inv_def ids_inv_def flight_inv_def bound_inv_def coalesce_inv_def
      time_inv_def queue_new_def)

lemma system_inv_init: "system_init s \<Longrightarrow> system_inv s"
  using core_inv_init by (auto simp: system_inv_def system_init_def queue_new_def u64_max_def)

lemma core_inv_step:
  "queue_step s s' \<Longrightarrow> core_inv s \<Longrightarrow> next_id (queue_of s) < u64_max \<Longrightarrow> core_inv s'"
  by (induction rule: queue_step.induct)
    (simp_all add: enqueue_inv start_inv complete_inv fail_inv close_request_inv deny_def timeout_def
      sweep_timeouts_inv prune_inv)

lemma next_id_step: "queue_step s s' \<Longrightarrow> next_id (queue_of s) \<le> u64_max \<Longrightarrow>
  next_id (queue_of s) \<le> next_id (queue_of s') \<and> next_id (queue_of s') \<le> u64_max"
proof (induction rule: queue_step.induct)
  case (enqueue_step s now sc k requested)
  then show ?case
    using next_id_enqueue [of sc k now requested "queue_of s"] by (auto simp: sat_add64_ge)
next
  case (start_step s now i g q')
  then show ?case
    using next_id_ops(6) [of i now "queue_of s"] by simp
qed (simp_all add: deny_def timeout_def)

interpretation queue_sys: invariant_system system_init queue_step system_inv
proof (unfold_locales, goal_cases)
  case (1 s)
  then show ?case
    by (rule system_inv_init)
next
  case (2 s s')
  then show ?case
    using next_id_step [of s s'] core_inv_step [of s s'] by (auto simp: system_inv_def)
qed

lemma reach_core:
  "reach system_init queue_step s \<Longrightarrow> next_id (queue_of s) < u64_max \<Longrightarrow> core_inv s"
  using queue_sys.reach_inv [of s] by (simp add: system_inv_def)

lemma length_le_one: "distinct xs \<Longrightarrow> (\<And>x y. x \<in> set xs \<Longrightarrow> y \<in> set xs \<Longrightarrow> x = y) \<Longrightarrow> length xs \<le> 1"
proof (rule ccontr)
  assume xs: "distinct xs" "\<And>x y. x \<in> set xs \<Longrightarrow> y \<in> set xs \<Longrightarrow> x = y" and "\<not> length xs \<le> 1"
  then have len: "0 < length xs" "1 < length xs"
    by auto
  then show False
    using xs(2) [OF nth_mem [OF len(1)] nth_mem [OF len(2)]] nth_eq_iff_index_eq [OF xs(1) len] by simp
qed

section \<open>Withdrawn requests\<close>

text \<open>A request that was denied, expired or failed; pruned requests keep the predicate.\<close>

definition withdrawn :: "request_id \<Rightarrow> queue \<Rightarrow> bool" where
  "withdrawn i q \<longleftrightarrow>
     i < next_id q \<and> (\<forall>r \<in> set (requests q). rid r = i \<longrightarrow> rstate r \<in> {DeniedR, TimedOutR, Failed})"

lemma withdrawn_map:
  assumes "withdrawn i q" and "requests q' = map f (requests q)" and "next_id q \<le> next_id q'"
    and "\<And>r. r \<in> set (requests q) \<Longrightarrow> rid (f r) = rid r"
    and "\<And>r. r \<in> set (requests q) \<Longrightarrow> rid r = i \<Longrightarrow> rstate (f r) \<in> {DeniedR, TimedOutR, Failed}"
  shows "withdrawn i q'"
  using assms by (fastforce simp: withdrawn_def)

lemma withdrawn_inactive: "withdrawn i q \<Longrightarrow> r \<in> set (requests q) \<Longrightarrow> rid r = i \<Longrightarrow> \<not> is_active r"
  by (auto simp: withdrawn_def is_active_def)

lemma withdrawn_not_current: "withdrawn i q \<Longrightarrow> \<not> still_current i g q"
  by (auto simp: withdrawn_def still_current_def list_ex_iff)

lemma withdrawn_enqueue:
  "withdrawn i q \<Longrightarrow> next_id q < u64_max \<Longrightarrow> withdrawn i (snd (enqueue sc k now t q))"
  using enqueue_cases [of q sc k now t] by (auto simp: withdrawn_def)

lemma withdrawn_close:
  "withdrawn i q \<Longrightarrow> ids_inv q \<Longrightarrow> st = DeniedR \<or> st = TimedOutR \<Longrightarrow> withdrawn i (snd (close_request st j now q))"
  using close_request_cases [of q j st now] by (auto simp: withdrawn_def split: if_splits)

lemma withdrawn_complete: "withdrawn i q \<Longrightarrow> ids_inv q \<Longrightarrow> withdrawn i (snd (complete j g now q))"
  using withdrawn_not_current [of i q g]
  by (cases "j = i") (auto simp: complete_def Let_def withdrawn_def ids_inv_def map_first_id)

lemma withdrawn_fail: "withdrawn i q \<Longrightarrow> ids_inv q \<Longrightarrow> withdrawn i (fail j now q)"
  by (auto simp: fail_def withdrawn_def ids_inv_def map_first_id)

lemma withdrawn_sweep: "withdrawn i q \<Longrightarrow> withdrawn i (snd (sweep_timeouts now q))"
  by (auto simp: sweep_timeouts_def Let_def withdrawn_def fold_finish)

lemma withdrawn_prune: "withdrawn i q \<Longrightarrow> withdrawn i (prune now q)"
  by (auto simp: prune_def Let_def withdrawn_def)

lemma withdrawn_mark:
  "withdrawn i q \<Longrightarrow> ids_inv q \<Longrightarrow> mark_decrypting j now q = (Some g, q') \<Longrightarrow> withdrawn i q'"
proof -
  assume w: "withdrawn i q" and "ids_inv q" and "mark_decrypting j now q = (Some g, q')"
  note mark = mark_decrypting_Some [OF this(3,2)]
  then have "j \<noteq> i"
    using withdrawn_inactive [OF w] by (auto simp: is_active_def)
  then show ?thesis
    using w mark by (auto simp: withdrawn_def)
qed

lemma withdrawn_step:
  assumes "queue_step s s'" and "core_inv s" and "next_id (queue_of s) < u64_max" and "withdrawn i (queue_of s)"
  shows "withdrawn i (queue_of s')"
proof -
  have ids: "ids_inv (queue_of s)"
    using assms(2) by (simp add: core_inv_def)
  show ?thesis
    using assms(1,3,4) ids
    by (induction rule: queue_step.induct)
      (auto simp: deny_def timeout_def
        intro: withdrawn_enqueue withdrawn_close withdrawn_complete withdrawn_fail withdrawn_sweep
          withdrawn_prune withdrawn_mark)
qed

lemma next_id_steps:
  "queue_step\<^sup>*\<^sup>* s s' \<Longrightarrow> next_id (queue_of s) \<le> u64_max \<Longrightarrow>
   next_id (queue_of s) \<le> next_id (queue_of s') \<and> next_id (queue_of s') \<le> u64_max"
  by (induction rule: rtranclp_induct) (auto dest: next_id_step)

lemma withdrawn_steps:
  assumes "queue_step\<^sup>*\<^sup>* s s'" and "core_inv s" and "next_id (queue_of s') < u64_max" and "next_id (queue_of s) \<le> u64_max"
    and "withdrawn i (queue_of s)"
  shows "core_inv s' \<and> withdrawn i (queue_of s')"
  using assms(1,3)
proof (induction rule: rtranclp_induct)
  case (step s' s'')
  then have "next_id (queue_of s') < u64_max"
    using next_id_step [OF step.hyps(2)] next_id_steps [OF step.hyps(1) assms(4)] by linarith
  then show ?case
    using step withdrawn_step core_inv_step by blast
qed (use assms in simp)

lemma deny_withdraws:
  assumes "ids_inv q" and "fst (deny i now q) \<or> fst (timeout i now q)"
  shows "(fst (deny i now q) \<longrightarrow> withdrawn i (snd (deny i now q)))
       \<and> (fst (timeout i now q) \<longrightarrow> withdrawn i (snd (timeout i now q)))"
  using close_request_cases [OF assms(1), of i DeniedR now] close_request_cases [OF assms(1), of i TimedOutR now] assms(1)
  by (auto simp: deny_def timeout_def withdrawn_def ids_inv_def)

section \<open>Properties\<close>


lemma cooldown_respected:
  assumes "reach system_init queue_step s" and "next_id (queue_of s) < u64_max" and "clock s \<le> now"
    and "mark_decrypting i now (queue_of s) = (Some g, q')" and "ended s = Some e"
  shows "e + cooldown (limits (queue_of s)) \<le> now"
proof -
  have inv: "ids_inv (queue_of s)" "time_inv s"
    using reach_core [OF assms(1,2)] by (auto simp: core_inv_def)
  obtain f where f: "last_finished (queue_of s) = Some f" "e \<le> f" "f \<le> clock s"
    using inv(2) assms(5) by (auto simp: time_inv_def)
  have "\<not> cooling_down now (queue_of s)"
    using mark_decrypting_Some [OF assms(4) inv(1)] by blast
  then show ?thesis
    using f assms(3) by (auto simp: cooling_down_def checked_duration_since_def)
qed

text \<open>Cooldown: whenever the worker starts a decrypt, at least the configured cooldown has passed
  since its previous decrypt returned, so a cached hardware touch never serves a second request.\<close>

theorem queue_cooldown_respected:
  assumes "reach system_init queue_step s" and "next_id (queue_of s) < u64_max" and "clock s \<le> now"
    and "mark_decrypting i now (queue_of s) = (Some g, q')" and "ended s = Some e"
  shows "e + cooldown (limits (queue_of s)) \<le> now"
  using assms by (rule cooldown_respected)

text \<open>A scope can never queue more than its limit: in every reachable state it has at most
  \<open>max_pending_per_scope\<close> active secret requests, no two of them for the same key, and at most
  one active capability request.\<close>

theorem queue_pending_bounded:
  assumes "reach system_init queue_step s" and "next_id (queue_of s) < u64_max"
  shows "length (filter (\<lambda>r. rscope r = sc \<and> \<not> is_capability_key (rkey r) \<and> is_active r) (requests (queue_of s)))
           \<le> max_pending_per_scope (limits (queue_of s))
    \<and> length (filter (\<lambda>r. rscope r = sc \<and> is_capability_key (rkey r) \<and> is_active r) (requests (queue_of s))) \<le> 1
    \<and> distinct (map (\<lambda>r. (rscope r, rkey r))
        (filter (\<lambda>r. is_active r \<and> \<not> is_capability_key (rkey r)) (requests (queue_of s))))"
proof -
  have "bound_inv (queue_of s)" "coalesce_inv (queue_of s)"
    using reach_core [OF assms] by (auto simp: core_inv_def)
  moreover have "active_kind False sc = (\<lambda>r. rscope r = sc \<and> \<not> is_capability_key (rkey r) \<and> is_active r)"
    "active_kind True sc = (\<lambda>r. rscope r = sc \<and> is_capability_key (rkey r) \<and> is_active r)"
    by (auto simp: active_kind_def fun_eq_iff)
  ultimately show ?thesis
    unfolding bound_inv_def coalesce_inv_def by metis
qed


text \<open>The worker is never stuck on a ready request: a request is ready exactly when the hardware
  is free, the cooldown is over and something is pending; it is then the oldest pending
  request, and marking it for decryption succeeds with a new generation.\<close>

theorem next_ready_starts:
  assumes "reach system_init queue_step s" and "next_id (queue_of s) < u64_max"
  shows "(next_ready now (queue_of s) \<noteq> None \<longleftrightarrow>
       inflight (queue_of s) = None \<and> \<not> cooling_down now (queue_of s)
       \<and> (\<exists>r \<in> set (requests (queue_of s)). rstate r = Pending))
    \<and> (\<forall>i. next_ready now (queue_of s) = Some i \<longrightarrow>
         (\<exists>pre r post. requests (queue_of s) = pre @ r # post \<and> rid r = i
            \<and> (\<forall>x \<in> set pre. rstate x \<noteq> Pending)
            \<and> fst (mark_decrypting i now (queue_of s)) = Some (sat_add64 (generation (queue_of s)) 1)))"
proof -
  let ?q = "queue_of s"
  have ids: "ids_inv ?q"
    using reach_core [OF assms] by (auto simp: core_inv_def)
  have "\<exists>pre r post. requests ?q = pre @ r # post \<and> rid r = i \<and> (\<forall>x \<in> set pre. rstate x \<noteq> Pending)
      \<and> fst (mark_decrypting i now ?q) = Some (sat_add64 (generation ?q) 1)" if ready: "next_ready now ?q = Some i" for i
  proof -
    obtain r where r: "find (\<lambda>r. rstate r = Pending) (requests ?q) = Some r" "rid r = i"
        "inflight ?q = None" "\<not> cooling_down now ?q"
      using ready by (auto simp: next_ready_def split: if_splits)
    obtain k where "k < length (requests ?q)" "r = requests ?q ! k" "rstate r = Pending"
        "\<And>j. j < k \<Longrightarrow> rstate (requests ?q ! j) \<noteq> Pending"
      using r(1) by (auto simp: find_Some_iff)
    moreover from this have "find (\<lambda>x. rid x = i) (requests ?q) = Some r"
      using r(2) ids find_distinct [of rid "requests ?q" r i] by (auto simp: ids_inv_def)
    ultimately show ?thesis
      using r
      by (intro exI [of _ "take k (requests ?q)"] exI [of _ r] exI [of _ "drop (Suc k) (requests ?q)"])
        (auto simp: mark_decrypting_def Let_def id_take_nth_drop in_set_conv_nth)
  qed
  moreover have "find (\<lambda>r. rstate r = Pending) (requests ?q) \<noteq> None \<longleftrightarrow> (\<exists>r \<in> set (requests ?q). rstate r = Pending)"
    by (auto simp: find_None_iff simp del: not_None_eq)
  ultimately show ?thesis
    by (auto simp: next_ready_def)
qed

text \<open>An error that arrives after a denial hides it: reporting the failed decrypt of a request
  that was already denied replaces the denied state by the failed one.\<close>

theorem fail_overwrites_denial:
  assumes "state_of i q = Some DeniedR"
  shows "state_of i (fail i now q) = Some Failed"
  using assms by (auto simp: state_of_def fail_def find_map_first)


text \<open>A queue with one request decrypting, reached in two steps, for the witnesses.\<close>

definition demo_limits :: queue_limits where
  "demo_limits = \<lparr>cooldown = 16, ttl = 90, max_pending_per_scope = 4\<rparr>"

definition demo_start :: queue_system where
  "demo_start = \<lparr>queue_of = queue_new demo_limits, job = None, clock = 0, ended = None\<rparr>"

definition demo_pending :: queue_system where
  "demo_pending = demo_start\<lparr>queue_of := snd (enqueue (Session []) ''A'' 1 None (queue_of demo_start)), clock := 1\<rparr>"

definition demo_running :: queue_system where
  "demo_running = demo_pending\<lparr>queue_of := snd (mark_decrypting 1 2 (queue_of demo_pending)), job := Some (1, 1), clock := 2\<rparr>"

definition demo_done :: queue_system where
  "demo_done = demo_running\<lparr>queue_of := snd (complete 1 1 3 (queue_of demo_running)), job := None, clock := 3, ended := Some 3\<rparr>"

definition demo_again :: queue_system where
  "demo_again = demo_done\<lparr>queue_of := snd (enqueue (Session []) ''B'' 4 None (queue_of demo_done)), clock := 4\<rparr>"

lemma demo_pending_reach: "reach system_init queue_step demo_pending"
proof (rule reach_step)
  show "reach system_init queue_step demo_start"
    by (rule reach_init) (auto simp: system_init_def demo_start_def)
  show "queue_step demo_start demo_pending"
    unfolding demo_pending_def by (rule enqueue_step) (simp add: demo_start_def)
qed

lemma demo_running_reach: "reach system_init queue_step demo_running"
proof (rule reach_step [OF demo_pending_reach])
  have "next_ready 2 (queue_of demo_pending) = Some 1" "fst (mark_decrypting 1 2 (queue_of demo_pending)) = Some 1"
    by (simp_all add: demo_pending_def demo_start_def queue_new_def enqueue_def next_ready_def mark_decrypting_def
        cooling_down_def active_in_scope_def push_request_def is_capability_key_def starts_with_def
        CAPABILITY_KEY_PREFIX_def demo_limits_def sat_add64_def u64_max_def)
  then show "queue_step demo_pending demo_running"
    unfolding demo_running_def
    by (intro start_step) (auto simp: demo_pending_def demo_start_def intro: prod_eqI)
qed

lemma demo_again_reach: "reach system_init queue_step demo_again"
proof (rule reach_step)
  show "reach system_init queue_step demo_done"
    unfolding demo_done_def
    by (rule reach_step [OF demo_running_reach complete_step]) (simp_all add: demo_running_def)
  show "queue_step demo_done demo_again"
    unfolding demo_again_def by (rule enqueue_step) (simp add: demo_done_def)
qed

lemmas demo_defs =
  demo_again_def demo_done_def demo_running_def demo_pending_def demo_start_def demo_limits_def queue_new_def
  enqueue_def mark_decrypting_def complete_def still_current_def finish_def cooling_down_def active_in_scope_def
  push_request_def is_capability_key_def is_active_def starts_with_def CAPABILITY_KEY_PREFIX_def sat_add64_def
  u64_max_def checked_duration_since_def

lemma demo_next_id:
  "next_id (queue_of demo_running) < u64_max" "next_id (queue_of demo_again) < u64_max"
  "next_id (queue_of demo_pending) < u64_max"
  by (simp_all add: demo_defs)


theorem queue_cooldown_respected_witness: "3 + cooldown (limits (queue_of demo_again)) \<le> 20"
proof -
  have "fst (mark_decrypting 2 20 (queue_of demo_again)) = Some 2" "ended demo_again = Some 3"
      "clock demo_again \<le> 20"
    by (simp_all add: demo_defs)
  then show ?thesis
    using queue_cooldown_respected [OF demo_again_reach demo_next_id(2), of 20 2 2 "snd (mark_decrypting 2 20 (queue_of demo_again))" 3]
    by (metis prod.collapse)
qed

theorem queue_pending_bounded_witness:
  "length (filter (\<lambda>r. rscope r = Session [] \<and> \<not> is_capability_key (rkey r) \<and> is_active r)
      (requests (queue_of demo_running))) \<le> 4"
  using queue_pending_bounded [OF demo_running_reach demo_next_id(1), of "Session []"] by (simp add: demo_defs)


theorem next_ready_starts_witness: "next_ready 2 (queue_of demo_pending) \<noteq> None"
proof -
  have "inflight (queue_of demo_pending) = None" "\<not> cooling_down 2 (queue_of demo_pending)"
      "\<exists>r \<in> set (requests (queue_of demo_pending)). rstate r = Pending"
    by (simp_all add: demo_defs)
  then show ?thesis
    using next_ready_starts [OF demo_pending_reach demo_next_id(3), of 2] by blast
qed

theorem fail_overwrites_denial_witness:
  "state_of 1 (fail 1 6 (snd (deny 1 5 (queue_of demo_running)))) = Some Failed"
proof -
  have "state_of 1 (snd (deny 1 5 (queue_of demo_running))) = Some DeniedR"
    by (simp add: deny_def close_request_def close_with_def state_of_def demo_defs)
  then show ?thesis
    by (rule fail_overwrites_denial)
qed

end
