(* ===== verification/Receipts.thy ===== *)
theory Receipts
  imports Hex Names "HOL-Library.Multiset"
begin

unbundle bit_operations_syntax

text \<open>
  Single-use receipts and capability grants: \<open>crates/secrets/src/receipts.rs\<close> and
  \<open>crates/secrets/src/capability_grants.rs\<close>.

  The random device is a parameter, the sequence of its 32-byte reads, each of which may fail.  The
  minting loop repeats until a read is not an outstanding identifier, so it is defined with fuel
  and shown to return as soon as one such read comes; the branch-free scan of \<open>redeem\<close>, which
  selects a position with masks on 64-bit words, is shown to find the first matching entry.
\<close>

section \<open>Receipts (\<open>receipts.rs\<close>)\<close>

definition RECEIPT_LEN :: nat where
  "RECEIPT_LEN = 32"

definition RECEIPT_TTL :: duration where
  "RECEIPT_TTL = from_secs 60"

definition MAX_RECEIPTS :: nat where
  "MAX_RECEIPTS = 32"

record receipt_entry =
  entry_id :: "byte list"
  entry_cap :: capability
  minted :: instant

type_synonym receipt_table = "receipt_entry list"

datatype mint_error = TooManyReceipts | RandomFailed

definition receipt_live :: "instant \<Rightarrow> receipt_entry \<Rightarrow> bool" where
  "receipt_live now e \<longleftrightarrow> duration_since now (minted e) < RECEIPT_TTL"

definition sweep_receipts :: "instant \<Rightarrow> receipt_table \<Rightarrow> receipt_table" where
  "sweep_receipts now t = filter (receipt_live now) t"

definition clear_receipts :: "receipt_table \<Rightarrow> receipt_table" where
  "clear_receipts t = []"

definition duplicate_id :: "byte list \<Rightarrow> receipt_table \<Rightarrow> bool" where
  "duplicate_id candidate t = foldl (\<lambda>found e. found \<or> entry_id e = candidate) False t"

text \<open>\<open>reads n\<close> is the \<open>n\<close>th read of the random device; running out of fuel is \<open>None\<close>.\<close>

fun mint_loop ::
  "nat \<Rightarrow> (nat \<Rightarrow> byte list option) \<Rightarrow> nat \<Rightarrow> capability \<Rightarrow> instant \<Rightarrow> receipt_table
   \<Rightarrow> ((string, mint_error) result \<times> receipt_table) option" where
  "mint_loop 0 reads n cap now t = None"
| "mint_loop (Suc fuel) reads n cap now t =
     (case reads n of
        None \<Rightarrow> Some (Err RandomFailed, t)
      | Some rid \<Rightarrow>
          if \<not> duplicate_id rid t
          then Some (Ok (encode rid), t @ [\<lparr>entry_id = rid, entry_cap = cap, minted = now\<rparr>])
          else mint_loop fuel reads (Suc n) cap now t)"

text \<open>\<open>None\<close> as the device stands for a device that cannot be opened.\<close>

definition mint ::
  "nat \<Rightarrow> (nat \<Rightarrow> byte list option) option \<Rightarrow> capability \<Rightarrow> instant \<Rightarrow> receipt_table
   \<Rightarrow> ((string, mint_error) result \<times> receipt_table) option" where
  "mint fuel device cap now t =
     (let t' = sweep_receipts now t in
      if length t' \<ge> MAX_RECEIPTS then Some (Err TooManyReceipts, t')
      else case device of
        None \<Rightarrow> Some (Err RandomFailed, t')
      | Some reads \<Rightarrow> mint_loop fuel reads 0 cap now t')"

text \<open>One round of the scan: a mask of ones exactly at the first match selects the index.\<close>

fun scan_loop :: "byte list \<Rightarrow> 64 word \<Rightarrow> 64 word \<Rightarrow> bool \<Rightarrow> receipt_table \<Rightarrow> 64 word \<times> bool" where
  "scan_loop presented index position found [] = (position, found)"
| "scan_loop presented index position found (e # es) =
     (let hit = (entry_id e = presented);
          mask = 0 - (if hit \<and> \<not> found then 1 else 0);
          position' = (position AND NOT mask) OR (index AND mask)
      in scan_loop presented (index + 1) position' (found \<or> hit) es)"

definition swap_remove :: "nat \<Rightarrow> 'a list \<Rightarrow> 'a list" where
  "swap_remove i xs = butlast (xs[i := last xs])"

definition redeem :: "string \<Rightarrow> capability \<Rightarrow> instant \<Rightarrow> receipt_table \<Rightarrow> capability option \<times> receipt_table" where
  "redeem receipt_hex expected now t =
     (let t' = sweep_receipts now t in
      case decode_exact receipt_hex RECEIPT_LEN of
        None \<Rightarrow> (None, t')
      | Some presented \<Rightarrow>
          (let (position, found) = scan_loop presented 0 0 False t'; i = unat position in
           if found \<and> i < length t' \<and> entry_cap (t' ! i) = expected
           then (Some (entry_cap (t' ! i)), swap_remove i t')
           else (None, t')))"

section \<open>Capability grants (\<open>capability_grants.rs\<close>)\<close>

text \<open>The table holds only deadlines.\<close>

type_synonym capability_grant_table = "instant list"

definition deadline_live :: "instant \<Rightarrow> instant \<Rightarrow> bool" where
  "deadline_live deadline now \<longleftrightarrow> deadline > now"

definition insert_capability :: "instant \<Rightarrow> capability_grant_table \<Rightarrow> nat \<times> capability_grant_table" where
  "insert_capability deadline t = (length t, t @ [deadline])"

definition capability_remaining :: "nat \<Rightarrow> instant \<Rightarrow> capability_grant_table \<Rightarrow> nat option" where
  "capability_remaining i now t =
     (case nth_opt t i of
        None \<Rightarrow> None
      | Some deadline \<Rightarrow>
          if deadline_live deadline now then Some (as_secs (duration_since deadline now)) else None)"

definition sweep_capabilities :: "instant \<Rightarrow> capability_grant_table \<Rightarrow> capability_grant_table" where
  "sweep_capabilities now t = filter (\<lambda>deadline. deadline_live deadline now) t"

definition clear_capabilities :: "capability_grant_table \<Rightarrow> capability_grant_table" where
  "clear_capabilities t = []"

section \<open>The scan finds the first match\<close>

lemma mask_select:
  fixes x y :: "64 word"
  shows "(x AND NOT (0 - 1)) OR (y AND (0 - 1)) = y" "(x AND NOT (0 - 0)) OR (y AND (0 - 0)) = x"
  by simp_all

lemma scan_loop_found: "scan_loop p i pos True es = (pos, True)"
  by (induction es arbitrary: i) (simp_all add: Let_def)

fun first_index :: "('a \<Rightarrow> bool) \<Rightarrow> 'a list \<Rightarrow> nat option" where
  "first_index P [] = None"
| "first_index P (x # xs) = (if P x then Some 0 else map_option Suc (first_index P xs))"

lemma first_index_Some:
  "first_index P xs = Some i \<longleftrightarrow> i < length xs \<and> P (xs ! i) \<and> (\<forall>j < i. \<not> P (xs ! j))"
proof (induction xs arbitrary: i)
  case (Cons x xs)
  then show ?case
    by (cases i) (auto simp: All_less_Suc2)
qed simp

lemma first_index_None: "first_index P xs = None \<longleftrightarrow> (\<forall>x \<in> set xs. \<not> P x)"
  by (induction xs) auto

lemma scan_loop_eq:
  "scan_loop p i pos False es =
     (case first_index (\<lambda>e. entry_id e = p) es of
        None \<Rightarrow> (pos, False)
      | Some k \<Rightarrow> (i + of_nat k, True))"
proof (induction es arbitrary: i pos)
  case (Cons e es)
  then show ?case
    by (cases "entry_id e = p") (auto simp: Let_def scan_loop_found ac_simps split: option.splits)
qed simp

lemma duplicate_id_iff: "duplicate_id c t \<longleftrightarrow> c \<in> entry_id ` set t"
proof -
  have "foldl (\<lambda>found e. found \<or> entry_id e = c) b t \<longleftrightarrow> b \<or> c \<in> entry_id ` set t" for b
    by (induction t arbitrary: b) auto
  then show ?thesis
    by (simp add: duplicate_id_def)
qed

section \<open>Removal by swapping\<close>

lemma mset_swap_remove:
  assumes "i < length xs" shows "mset (swap_remove i xs) = mset xs - {#xs ! i#}"
proof -
  let ?ys = "xs[i := last xs]"
  have "xs \<noteq> []"
    using assms by auto
  have "mset (butlast ?ys) = mset ?ys - {#last ?ys#}"
    using \<open>xs \<noteq> []\<close> append_butlast_last_id [of ?ys] by (metis add_diff_cancel_right' list_update_nonempty mset.simps(1,2) mset_append)
  moreover have "last ?ys = last xs"
    using \<open>xs \<noteq> []\<close> by (simp add: last_list_update)
  ultimately show ?thesis
    using assms by (simp add: swap_remove_def mset_update)
qed

lemma set_swap_remove:
  assumes "distinct (map f xs)" and "i < length xs"
  shows "set (swap_remove i xs) = set xs - {xs ! i}" and "distinct (map f (swap_remove i xs))"
proof -
  have "distinct xs"
    using assms(1) by (simp add: distinct_map)
  then have "set_mset (mset xs - {#xs ! i#}) = set xs - {xs ! i}"
    by (metis distinct_remove1 mset_remove1 set_mset_mset set_remove1_eq)
  then show "set (swap_remove i xs) = set xs - {xs ! i}"
    using mset_swap_remove [OF assms(2)] by (metis set_mset_mset)
  have "mset (map f (swap_remove i xs)) = mset (map f (remove1 (xs ! i) xs))"
    using mset_swap_remove [OF assms(2)] by simp
  moreover have "distinct (map f (remove1 (xs ! i) xs))"
    using assms(1) \<open>distinct xs\<close> by (auto simp: distinct_map inj_on_def)
  ultimately show "distinct (map f (swap_remove i xs))"
    by (metis mset_eq_imp_distinct_iff)
qed

lemma length_swap_remove: "i < length xs \<Longrightarrow> length (swap_remove i xs) = length xs - 1"
  by (simp add: swap_remove_def)

section \<open>The receipt table\<close>

definition receipts_inv :: "receipt_table \<Rightarrow> bool" where
  "receipts_inv t \<longleftrightarrow>
     distinct (map entry_id t) \<and> (\<forall>e \<in> set t. length (entry_id e) = RECEIPT_LEN) \<and> length t \<le> MAX_RECEIPTS"

text \<open>What the device may deliver: 32 bytes at a time.\<close>

definition good_device :: "(nat \<Rightarrow> byte list option) option \<Rightarrow> bool" where
  "good_device device \<longleftrightarrow>
     (\<forall>reads n r. device = Some reads \<longrightarrow> reads n = Some r \<longrightarrow> length r = RECEIPT_LEN)"

lemma sweep_inv: "receipts_inv t \<Longrightarrow> receipts_inv (sweep_receipts now t)"
  unfolding receipts_inv_def sweep_receipts_def
  by (auto simp: distinct_map_filter intro: le_trans [OF length_filter_le])

lemma redeem_eq:
  assumes "receipts_inv t"
  shows "redeem hex cap now t =
     (case decode_exact hex RECEIPT_LEN of
        None \<Rightarrow> (None, sweep_receipts now t)
      | Some p \<Rightarrow>
          (case first_index (\<lambda>e. entry_id e = p) (sweep_receipts now t) of
             None \<Rightarrow> (None, sweep_receipts now t)
           | Some k \<Rightarrow>
               if entry_cap (sweep_receipts now t ! k) = cap
               then (Some cap, swap_remove k (sweep_receipts now t)) else (None, sweep_receipts now t)))"
proof -
  have "length (sweep_receipts now t) \<le> 32"
    using sweep_inv [OF assms] by (simp add: receipts_inv_def MAX_RECEIPTS_def)
  then have "unat (of_nat k :: 64 word) = k" if "k < length (sweep_receipts now t)" for k
    using that by (simp add: unat_of_nat)
  note small = this
  show ?thesis
  proof (cases "decode_exact hex RECEIPT_LEN")
    case (Some p)
    show ?thesis
    proof (cases "first_index (\<lambda>e. entry_id e = p) (sweep_receipts now t)")
      case None
      then show ?thesis
        using Some by (simp add: redeem_def Let_def scan_loop_eq)
    next
      case (Some k)
      then have "k < length (sweep_receipts now t)"
        by (simp add: first_index_Some)
      then show ?thesis
        using \<open>decode_exact hex RECEIPT_LEN = Some p\<close> Some small by (auto simp: redeem_def Let_def scan_loop_eq)
    qed
  qed (simp add: redeem_def Let_def)
qed

lemma redeem_inv: "receipts_inv t \<Longrightarrow> receipts_inv (snd (redeem hex cap now t))"
proof -
  assume inv: "receipts_inv t"
  have "receipts_inv (swap_remove k (sweep_receipts now t))" if "k < length (sweep_receipts now t)" for k
    using that sweep_inv [OF inv, of now] set_swap_remove [of entry_id "sweep_receipts now t" k]
    by (auto simp: receipts_inv_def length_swap_remove)
  then show ?thesis
    using sweep_inv [OF inv, of now] by (auto simp: redeem_eq [OF inv] first_index_Some split: option.splits)
qed

lemma mint_loop_Some:
  "mint_loop fuel reads n cap now t = Some (r, t') \<Longrightarrow>
     (r = Err RandomFailed \<and> t' = t)
     \<or> (\<exists>i k. reads k = Some i \<and> i \<notin> entry_id ` set t \<and> r = Ok (encode i)
          \<and> t' = t @ [\<lparr>entry_id = i, entry_cap = cap, minted = now\<rparr>])"
  by (induction fuel arbitrary: n) (auto simp: duplicate_id_iff split: option.splits if_splits)

lemma mint_cases:
  assumes "mint fuel device cap now t = Some (r, t')"
  shows "(r = Err TooManyReceipts \<and> MAX_RECEIPTS \<le> length (sweep_receipts now t) \<and> t' = sweep_receipts now t)
    \<or> (r = Err RandomFailed \<and> t' = sweep_receipts now t)
    \<or> (\<exists>reads i k. device = Some reads \<and> reads k = Some i \<and> i \<notin> entry_id ` set (sweep_receipts now t)
         \<and> r = Ok (encode i) \<and> length (sweep_receipts now t) < MAX_RECEIPTS
         \<and> t' = sweep_receipts now t @ [\<lparr>entry_id = i, entry_cap = cap, minted = now\<rparr>])"
  using assms by (auto simp: mint_def Let_def dest!: mint_loop_Some split: if_splits option.splits)

lemma mint_inv:
  assumes "receipts_inv t" and "good_device device" and "mint fuel device cap now t = Some (r, t')"
  shows "receipts_inv t'"
  using mint_cases [OF assms(3)] sweep_inv [OF assms(1), of now] assms(2)
  by (auto simp: receipts_inv_def good_device_def)

lemma mint_loop_returns:
  assumes "k < fuel" and "reads (n + k) = None \<or> (\<exists>i. reads (n + k) = Some i \<and> i \<notin> entry_id ` set t)"
  shows "mint_loop fuel reads n cap now t \<noteq> None"
  using assms
proof (induction fuel arbitrary: n k)
  case (Suc fuel)
  show ?case
  proof (cases k)
    case 0
    then show ?thesis
      using Suc.prems by (auto simp: duplicate_id_iff)
  next
    case (Suc k')
    then show ?thesis
      using Suc.IH [of k' "Suc n"] Suc.prems by (auto simp: duplicate_id_iff split: option.splits)
  qed
qed simp

text \<open>Among more distinct reads than there are entries, one is fresh.\<close>

lemma fresh_read:
  assumes "inj_on ids {..< Suc (length t)}"
  shows "\<exists>k < Suc (length t). ids k \<notin> entry_id ` set t"
proof (rule ccontr)
  assume "\<not> ?thesis"
  then have "ids ` {..< Suc (length t)} \<subseteq> entry_id ` set t"
    by auto
  then have "card (ids ` {..< Suc (length t)}) \<le> card (entry_id ` set t)"
    by (intro card_mono) auto
  also have "\<dots> \<le> length t"
    by (metis card_image_le card_length finite_set le_trans)
  finally show False
    using card_image [OF assms] by simp
qed

lemma mint_loop_not_failed: "mint_loop fuel (\<lambda>n. Some (ids n)) n cap now t = Some (Err e, t') \<Longrightarrow> False"
  by (induction fuel arbitrary: n) (auto split: if_splits)

lemma first_index_snoc: "first_index P xs = None \<Longrightarrow> P x \<Longrightarrow> first_index P (xs @ [x]) = Some (length xs)"
  by (induction xs) auto

section \<open>Properties\<close>

lemma redeem_Some:
  assumes "receipts_inv t" and "fst (redeem hex cap now t) = Some c"
  shows "\<exists>e \<in> set t. decode_exact hex RECEIPT_LEN = Some (entry_id e) \<and> entry_cap e = cap \<and> c = cap
    \<and> receipt_live now e
    \<and> set (snd (redeem hex cap now t)) = set (sweep_receipts now t) - {e}"
proof -
  let ?t = "sweep_receipts now t"
  obtain p where p: "decode_exact hex RECEIPT_LEN = Some p"
    using assms(2) by (cases "decode_exact hex RECEIPT_LEN") (simp_all add: redeem_eq [OF assms(1)])
  obtain k where "first_index (\<lambda>e. entry_id e = p) ?t = Some k"
    using assms(2) by (cases "first_index (\<lambda>e. entry_id e = p) ?t") (simp_all add: redeem_eq [OF assms(1)] p)
  moreover from this have "entry_cap (?t ! k) = cap \<and> c = cap"
    using assms(2) by (simp add: redeem_eq [OF assms(1)] p split: if_splits)
  ultimately have pk: "decode_exact hex RECEIPT_LEN = Some p" "first_index (\<lambda>e. entry_id e = p) ?t = Some k"
      "entry_cap (?t ! k) = cap" "c = cap"
    using p by blast+
  then have k: "k < length ?t" "entry_id (?t ! k) = p"
    by (auto simp: first_index_Some)
  have "snd (redeem hex cap now t) = swap_remove k ?t"
    using pk by (simp add: redeem_eq [OF assms(1)])
  moreover have "set (swap_remove k ?t) = set ?t - {?t ! k}"
    using set_swap_remove(1) [OF _ k(1)] sweep_inv [OF assms(1), of now] by (auto simp: receipts_inv_def)
  moreover have "?t ! k \<in> set ?t"
    using k(1) by simp
  ultimately show ?thesis
    using pk k by (intro bexI [of _ "?t ! k"]) (auto simp: sweep_receipts_def)
qed

text \<open>The branch-free scan over the outstanding receipts selects, with masks on 64-bit words, the
  index of the first receipt equal to the presented one, and reports a match exactly when there
  is one.\<close>

theorem receipt_scan_first_match:
  "scan_loop presented 0 0 False t =
     (case first_index (\<lambda>e. entry_id e = presented) t of
        None \<Rightarrow> (0, False)
      | Some k \<Rightarrow> (of_nat k, True))"
  by (simp add: scan_loop_eq split: option.splits)


text \<open>A table of one receipt for the witnesses.\<close>

definition demo_receipts :: receipt_table where
  "demo_receipts = [\<lparr>entry_id = replicate 32 7, entry_cap = ''browser'', minted = 100\<rparr>]"

lemma demo_receipts_inv: "receipts_inv demo_receipts"
  by (simp add: demo_receipts_def receipts_inv_def RECEIPT_LEN_def MAX_RECEIPTS_def)

lemma demo_receipts_redeem: "fst (redeem (encode (replicate 32 7)) ''browser'' 101 demo_receipts) = Some ''browser''"
  unfolding redeem_eq [OF demo_receipts_inv] RECEIPT_LEN_def
  by (simp add: decode_exact_encode_32 demo_receipts_def sweep_receipts_def receipt_live_def RECEIPT_TTL_def time_defs)


text \<open>What a redeemed receipt proves: it was minted for exactly the capability it is redeemed for,
  less than sixty seconds ago; and a receipt presented for another capability is refused and
  stays redeemable.\<close>

theorem redeem_sound:
  assumes "receipts_inv t"
  shows "(fst (redeem hex cap now t) = Some c \<longrightarrow>
            (\<exists>e \<in> set t. decode_exact hex 32 = Some (entry_id e) \<and> entry_cap e = cap \<and> c = cap
               \<and> now - minted e < from_secs 60))
    \<and> (fst (redeem hex cap now t) = None \<longrightarrow> snd (redeem hex cap now t) = sweep_receipts now t)"
proof
  show "fst (redeem hex cap now t) = Some c \<longrightarrow>
            (\<exists>e \<in> set t. decode_exact hex 32 = Some (entry_id e) \<and> entry_cap e = cap \<and> c = cap
               \<and> now - minted e < from_secs 60)"
    using redeem_Some [OF assms, of hex cap now c]
    by (auto simp: receipt_live_def RECEIPT_LEN_def RECEIPT_TTL_def duration_since_def)
  show "fst (redeem hex cap now t) = None \<longrightarrow> snd (redeem hex cap now t) = sweep_receipts now t"
    by (auto simp: redeem_eq [OF assms] split: option.splits)
qed

theorem redeem_sound_witness:
  "\<exists>e \<in> set demo_receipts. decode_exact (encode (replicate 32 7)) 32 = Some (entry_id e) \<and> entry_cap e = ''browser''
     \<and> 101 - minted e < from_secs 60"
  using redeem_sound [OF demo_receipts_inv, of "encode (replicate 32 7)" "''browser''" 101 "''browser''"]
    demo_receipts_redeem by blast

text \<open>Minting and redeeming: when the device delivers distinct reads, minting below the limit
  returns within one read more than there are outstanding receipts; the returned receipt is
  redeemable for its capability for sixty seconds, no live receipt is lost, and the table stays
  within 32 entries with distinct identifiers.\<close>

theorem mint_then_redeem:
  assumes "receipts_inv t" and "length (sweep_receipts now t) < 32"
    and "\<forall>n. length (ids n) = 32" and "inj_on ids {..< 33}"
  shows "\<exists>receipt t'. mint 33 (Some (\<lambda>n. Some (ids n))) cap now t = Some (Ok receipt, t')
    \<and> receipts_inv t' \<and> set (sweep_receipts now t) \<subseteq> set t'
    \<and> (now \<le> later \<and> later < now + from_secs 60 \<longrightarrow> fst (redeem receipt cap later t') = Some cap)"
proof -
  let ?t = "sweep_receipts now t" and ?reads = "\<lambda>n. Some (ids n)"
  obtain k where "k < Suc (length ?t)" "ids k \<notin> entry_id ` set ?t"
    using fresh_read [of ids ?t] inj_on_subset [OF assms(4), of "{..< Suc (length ?t)}"] assms(2) by auto
  then have "mint_loop 33 ?reads 0 cap now ?t \<noteq> None"
    using assms(2) by (intro mint_loop_returns [of k]) auto
  then obtain r t' where m: "mint 33 (Some ?reads) cap now t = Some (r, t')"
    using assms(2) by (auto simp: mint_def Let_def MAX_RECEIPTS_def)
  have "r \<noteq> Err RandomFailed"
    using m assms(2) by (auto simp: mint_def Let_def MAX_RECEIPTS_def dest: mint_loop_not_failed)
  then obtain i where i: "i \<notin> entry_id ` set ?t" "r = Ok (encode i)" "length i = 32"
      "t' = ?t @ [\<lparr>entry_id = i, entry_cap = cap, minted = now\<rparr>]"
    using mint_cases [OF m] assms(2,3) by (auto simp: MAX_RECEIPTS_def)
  have inv: "receipts_inv t'"
    by (rule mint_inv [OF assms(1) _ m]) (use assms(3) in \<open>auto simp: good_device_def RECEIPT_LEN_def\<close>)
  have "fst (redeem (encode i) cap later t') = Some cap" if "now \<le> later" "later < now + from_secs 60"
  proof -
    have live: "receipt_live later \<lparr>entry_id = i, entry_cap = cap, minted = now\<rparr>"
      using that by (auto simp: receipt_live_def RECEIPT_TTL_def duration_since_def)
    have none: "first_index (\<lambda>e. entry_id e = i) (sweep_receipts later ?t) = None"
      using i(1) by (auto simp: first_index_None sweep_receipts_def)
    have "sweep_receipts later t' = sweep_receipts later ?t @ [\<lparr>entry_id = i, entry_cap = cap, minted = now\<rparr>]"
      using live by (simp add: i(4) sweep_receipts_def)
    then have "first_index (\<lambda>e. entry_id e = i) (sweep_receipts later t') = Some (length (sweep_receipts later ?t))"
      using none first_index_snoc by (metis receipt_entry.select_convs(1))
    then show ?thesis
      using i(3) \<open>sweep_receipts later t' = _\<close> decode_exact_encode_32 [OF i(3)]
      by (simp add: redeem_eq [OF inv] RECEIPT_LEN_def)
  qed
  then show ?thesis
    using m i inv by auto
qed

lemma word_reads_inj: "inj_on (\<lambda>n. replicate 32 (of_nat n :: byte)) {..< 33}"
proof (rule inj_onI)
  fix m n :: nat assume mn: "m \<in> {..< 33}" "n \<in> {..< 33}" and "replicate 32 (of_nat m :: byte) = replicate 32 (of_nat n)"
  then have "unat (of_nat m :: byte) = unat (of_nat n :: byte)"
    by (simp add: replicate_eq_replicate)
  then show "m = n"
    using mn by (simp add: unat_of_nat)
qed

theorem mint_then_redeem_witness:
  "\<exists>receipt t'. mint 33 (Some (\<lambda>n. Some (replicate 32 (of_nat n)))) ''browser'' 101 demo_receipts = Some (Ok receipt, t')
    \<and> fst (redeem receipt ''browser'' 102 t') = Some ''browser''"
proof -
  have "length (sweep_receipts 101 demo_receipts) < 32"
    by (simp add: sweep_receipts_def demo_receipts_def)
  moreover have "(101 :: nat) \<le> 102 \<and> 102 < 101 + from_secs 60"
    by (simp add: time_defs)
  ultimately show ?thesis
    using mint_then_redeem [OF demo_receipts_inv _ _ word_reads_inj, of 101 "''browser''" 102] by fastforce
qed

end
