(* ===== verification/Decrypt.thy ===== *)
theory Decrypt
  imports Store
begin

text \<open>
  Running sops on one key file: \<open>crates/secrets/src/decrypt.rs\<close> and
  \<open>crates/secrets/src/decrypt/classify.rs\<close>.

  Child processes are parameters: whether the child starts, its process id, what each poll of it
  reports and at which clock reading, and what its two pipes hold.  A loop that is still polling
  when the observed polls run out has not returned, which is the value \<open>None\<close>; it is shown to
  return at the first poll on or after its deadline.
\<close>

section \<open>Classifying sops failures (\<open>classify.rs\<close>)\<close>

definition SOPS_STDERR_SIGNATURES :: "(string \<times> string) list" where
  "SOPS_STDERR_SIGNATURES =
     [(''failed to decrypt yubikey stanza'', ''yubikey-stanza-undecryptable''),
      (''yubikey plugin'', ''yubikey-plugin-error''),
      (''pc/sc error'', ''pcsc-communication-error''),
      (''no identity matched'', ''no-matching-identity''),
      (''sops metadata not found'', ''missing-sops-metadata''),
      (''no such file or directory'', ''input-unreadable''),
      (''permission denied'', ''input-permission-denied''),
      (''failed to get the data key'', ''data-key-unavailable'')]"

fun contains_subslice :: "string \<Rightarrow> string \<Rightarrow> bool" where
  "contains_subslice [] needle = (needle = [])"
| "contains_subslice (c # cs) needle = (starts_with needle (c # cs) \<or> contains_subslice cs needle)"

definition classify_sops_stderr :: "string \<Rightarrow> string" where
  "classify_sops_stderr stderr =
     (let lowered = map to_ascii_lowercase stderr
      in case find (\<lambda>sig. contains_subslice lowered (fst sig)) SOPS_STDERR_SIGNATURES of
           None \<Rightarrow> ''unclassified''
         | Some sig \<Rightarrow> snd sig)"

definition UNREACHABLE_FAILURE_LABELS :: "string list" where
  "UNREACHABLE_FAILURE_LABELS = [''yubikey-plugin-error'', ''pcsc-communication-error'']"

definition UNTOUCHED_FAILURE_LABELS :: "string list" where
  "UNTOUCHED_FAILURE_LABELS = [''yubikey-stanza-undecryptable'']"

definition failure_code :: "string \<Rightarrow> err_code" where
  "failure_code lbl =
     (if List.member UNREACHABLE_FAILURE_LABELS lbl then YubikeyUnreachable
      else if List.member UNTOUCHED_FAILURE_LABELS lbl then Timeout
      else Internal)"

section \<open>Children\<close>

datatype wait_event = Exited bool | Running | WaitError

text \<open>One poll: what \<open>try_wait\<close> returns and the clock read after it.\<close>

type_synonym poll = "wait_event \<times> instant"

record child =
  child_pid :: nat
  polls :: "poll list"
  child_stderr :: "string option"
  child_stdout :: "string option"

definition i32_limit :: nat where
  "i32_limit = 2 ^ 31"

section \<open>Reachability (\<open>decrypt.rs\<close>)\<close>

fun probe_loop :: "instant \<Rightarrow> poll list \<Rightarrow> bool option" where
  "probe_loop deadline [] = None"
| "probe_loop deadline ((Exited success, now) # ps) = Some success"
| "probe_loop deadline ((Running, now) # ps) = (if now \<ge> deadline then Some False else probe_loop deadline ps)"
| "probe_loop deadline ((WaitError, now) # ps) = Some False"

definition responds :: "duration \<Rightarrow> instant \<Rightarrow> child option \<Rightarrow> bool option" where
  "responds limit now spawned =
     (case instant_checked_add now limit of
        None \<Rightarrow> Some False
      | Some deadline \<Rightarrow>
          (case spawned of
             None \<Rightarrow> Some False
           | Some c \<Rightarrow> if child_pid c \<ge> i32_limit then Some False else probe_loop deadline (polls c)))"

text \<open>
  \<open>socket\<close> says whether the configured PC/SC socket exists, if one is configured; \<open>probe\<close> is the
  answer of the configured probe, if there is one.
\<close>

definition is_reachable :: "bool option \<Rightarrow> bool option option \<Rightarrow> bool option" where
  "is_reachable socket probe =
     (case socket of
        None \<Rightarrow> Some True
      | Some False \<Rightarrow> Some False
      | Some True \<Rightarrow> (case probe of None \<Rightarrow> Some True | Some answer \<Rightarrow> answer))"

section \<open>Decrypting one file\<close>

definition MAX_SOPS_STDERR_BYTES :: nat where
  "MAX_SOPS_STDERR_BYTES = 300"

record decrypted_human_file =
  dsource :: string
  didentity :: file_identity
  dvalue :: string

record decryptor =
  sops_timeout :: duration

text \<open>Everything a decrypt observes of the machine.\<close>

record decrypt_env =
  env_fs :: filesystem
  reachable_answer :: "bool option"
  dup_ok :: bool
  spawned :: "child option"
  started_at :: instant

definition exit_result ::
  "opened_human_file \<Rightarrow> secret_name \<Rightarrow> child \<Rightarrow> bool \<Rightarrow> (decrypted_human_file, err_code) result" where
  "exit_result opened key c success =
     (let failure = (case child_stderr c of
                       Some bytes \<Rightarrow> classify_sops_stderr (take MAX_SOPS_STDERR_BYTES bytes)
                     | None \<Rightarrow> ''stderr-unreadable'')
      in if \<not> success then Err (failure_code failure)
         else case child_stdout c of
           None \<Rightarrow> Err Internal
         | Some stdout \<Rightarrow>
             and_then (parse_single_assignment stdout key)
               (\<lambda>value. Ok \<lparr>dsource = opened_label opened, didentity = identity opened, dvalue = value\<rparr>))"

fun decrypt_loop ::
  "opened_human_file \<Rightarrow> secret_name \<Rightarrow> child \<Rightarrow> instant \<Rightarrow> poll list
   \<Rightarrow> (decrypted_human_file, err_code) result option" where
  "decrypt_loop opened key c deadline [] = None"
| "decrypt_loop opened key c deadline ((Exited success, now) # ps) = Some (exit_result opened key c success)"
| "decrypt_loop opened key c deadline ((Running, now) # ps) =
     (if now \<ge> deadline then Some (Err Timeout) else decrypt_loop opened key c deadline ps)"
| "decrypt_loop opened key c deadline ((WaitError, now) # ps) = Some (Err Internal)"

text \<open>
  \<open>decrypt_opened_with_start\<close>: \<open>None\<close> while it has not returned.  The callback is invoked between
  the spawn and the loop; the broker's step relation has it as a step of its own.
\<close>

definition decrypt_opened ::
  "decryptor \<Rightarrow> decrypt_env \<Rightarrow> human_store \<Rightarrow> secret_name \<Rightarrow> (decrypted_human_file, err_code) result option"
where
  "decrypt_opened d env store key =
     (case reachable_answer env of
        None \<Rightarrow> None
      | Some False \<Rightarrow> Some (Err YubikeyUnreachable)
      | Some True \<Rightarrow>
          (case open_key (env_fs env) store key of
             Err e \<Rightarrow> Some (Err e)
           | Ok opened \<Rightarrow>
               if \<not> dup_ok env then Some (Err Internal)
               else case spawned env of
                 None \<Rightarrow> Some (Err Internal)
               | Some c \<Rightarrow>
                   if child_pid c \<ge> i32_limit then Some (Err Internal)
                   else case instant_checked_add (started_at env) (sops_timeout d) of
                     None \<Rightarrow> Some (Err Internal)
                   | Some deadline \<Rightarrow> decrypt_loop opened key c deadline (polls c)))"

section \<open>Lemmas\<close>

lemma contains_subslice_iff: "contains_subslice hay needle \<longleftrightarrow> (\<exists>a b. hay = a @ needle @ b)"
proof (induction hay)
  case IH: (Cons c cs)
  show ?case
  proof
    assume "contains_subslice (c # cs) needle"
    then consider "starts_with needle (c # cs)" | "contains_subslice cs needle"
      by auto
    then show "\<exists>a b. c # cs = a @ needle @ b"
    proof cases
      case 1
      then obtain b where "c # cs = [] @ needle @ b"
        by (auto simp: starts_with_iff)
      then show ?thesis
        by blast
    next
      case 2
      then obtain a b where "c # cs = (c # a) @ needle @ b"
        using IH by auto
      then show ?thesis
        by blast
    qed
  next
    assume "\<exists>a b. c # cs = a @ needle @ b"
    then obtain a b where ab: "c # cs = a @ needle @ b"
      by blast
    show "contains_subslice (c # cs) needle"
    proof (cases a)
      case Nil
      then have "starts_with needle (c # cs)"
        using ab by (auto simp: starts_with_iff)
      then show ?thesis
        by simp
    next
      case (Cons d a')
      then have "contains_subslice cs needle"
        using ab IH by auto
      then show ?thesis
        by simp
    qed
  qed
qed auto

lemma decrypt_loop_Ok:
  assumes "decrypt_loop opened key c deadline ps = Some (Ok d)"
  shows "\<exists>stdout value. child_stdout c = Some stdout \<and> parse_single_assignment stdout key = Ok value
     \<and> d = \<lparr>dsource = opened_label opened, didentity = identity opened, dvalue = value\<rparr>"
  using assms
  by (induction opened key c deadline ps rule: decrypt_loop.induct)
    (auto simp: exit_result_def Let_def and_then_Ok split: if_splits option.splits)

lemma decrypt_loop_returns:
  "(e, now) \<in> set ps \<Longrightarrow> deadline \<le> now \<Longrightarrow> decrypt_loop opened key c deadline ps \<noteq> None"
  by (induction opened key c deadline ps rule: decrypt_loop.induct) auto

section \<open>Properties\<close>


definition demo_child :: child where
  "demo_child = \<lparr>child_pid = 42, polls = [(Running, 5), (Exited True, 6)], child_stderr = Some [],
     child_stdout = Some ''A=s3cr3t''\<rparr>"

definition demo_decrypt_env :: decrypt_env where
  "demo_decrypt_env = \<lparr>env_fs = demo_fs, reachable_answer = Some True, dup_ok = True, spawned = Some demo_child,
     started_at = 4\<rparr>"

lemma demo_decrypt:
  "decrypt_opened \<lparr>sops_timeout = 90\<rparr> demo_decrypt_env demo_store ''A'' =
     Some (Ok \<lparr>dsource = ''main'', didentity = demo_identity, dvalue = ''s3cr3t''\<rparr>)"
proof -
  have "open_key demo_fs demo_store ''A'' = Ok \<lparr>opened_label = ''main'', identity = demo_identity, file_fd = 9\<rparr>"
    by code_simp
  moreover have "parse_single_assignment ''A=s3cr3t'' ''A'' = Ok ''s3cr3t''"
    by code_simp
  ultimately show ?thesis
    by (simp add: decrypt_opened_def demo_decrypt_env_def demo_child_def i32_limit_def instant_checked_add_def
        instant_limit_def nanos_per_sec_def exit_result_def Let_def)
qed


text \<open>A decrypt always ends: once sops is running, the decrypt returns at the latest at the first
  poll on or after the deadline, whatever sops does, and if sops is still running then the
  answer is \<open>Timeout\<close>.\<close>

theorem decrypt_loop_deadline:
  assumes "(e, now) \<in> set ps" and "deadline \<le> now"
  shows "decrypt_loop opened key c deadline ps \<noteq> None
     \<and> (list_all (\<lambda>p. fst p = Running) ps \<longrightarrow> decrypt_loop opened key c deadline ps = Some (Err Timeout))"
  using assms
proof (induction opened key c deadline ps rule: decrypt_loop.induct)
  case (3 opened key c deadline t ps)
  then show ?case
    by auto
qed auto

theorem decrypt_loop_deadline_witness:
  "decrypt_loop \<lparr>opened_label = ''main'', identity = demo_identity, file_fd = 9\<rparr> ''A'' demo_child 8
     [(Running, 5), (Running, 9)] = Some (Err Timeout)"
  using decrypt_loop_deadline [of Running 9 "[(Running, 5), (Running, 9)]" 8] by simp

end
