(* ===== verification/Config.thy ===== *)
theory Config
  imports Store Requests Decrypt
begin

text \<open>
  Configuration of the broker: the source roots of \<open>crates/secrets/src/config.rs\<close> and the daemon's
  settings of \<open>crates/secrets/src/daemon.rs\<close>.

  The TOML reader is a third-party crate: it is a parameter from the text to its table, a list of
  distinct keys in declaration order.  The environment is a function from names to values.
\<close>

section \<open>Paths\<close>

datatype component = RootDir | CurDir | ParentDir | Normal string

text \<open>
  \<open>Path::components\<close>: empty parts and parts that are a single dot disappear, except a dot that
  begins a relative path.
\<close>

definition part_component :: "string \<Rightarrow> component option" where
  "part_component part =
     (if part = [] \<or> part = ''.'' then None
      else if part = ''..'' then Some ParentDir
      else Some (Normal part))"

definition components :: "string \<Rightarrow> component list" where
  "components path =
     (let parts = split_on (CHR ''/'') path in
      (if starts_with ''/'' path then [RootDir]
       else if hd parts = ''.'' then [CurDir] else [])
      @ List.map_filter part_component parts)"

definition is_absolute :: "string \<Rightarrow> bool" where
  "is_absolute path = starts_with ''/'' path"

definition trim_start_slashes :: "string \<Rightarrow> string" where
  "trim_start_slashes s = dropWhile (\<lambda>c. c = CHR ''/'') s"

section \<open>Source roots (\<open>config.rs\<close>)\<close>

record source_root =
  root_name :: string
  root_path :: string

datatype config_error =
    Missing string | ReadFailed string | TomlError | BadRootName string | RelativePath string
  | DuplicatePath string string | NoRoots | RootNotDirectory string string string | NoHome

datatype toml_value = TomlTable "(string \<times> toml_value) list" | TomlString string | TomlOther

definition agent_files :: "source_root \<Rightarrow> string list" where
  "agent_files r = [path_join (root_path r) ''secrets.local.env'', path_join (root_path r) ''secrets.env'']"

definition human_dir :: "source_root \<Rightarrow> string" where
  "human_dir r = path_join (root_path r) ''secrets.human.d''"

type_synonym environment = "string \<Rightarrow> string option"

definition environment_path :: "environment \<Rightarrow> string \<Rightarrow> string option" where
  "environment_path env name =
     (case env name of None \<Rightarrow> None | Some v \<Rightarrow> if v = [] then None else Some v)"

definition home_path :: "environment \<Rightarrow> (string, config_error) result" where
  "home_path env =
     (case environment_path env ''HOME'' of
        None \<Rightarrow> Err NoHome
      | Some home \<Rightarrow> if is_absolute home then Ok home else Err NoHome)"

definition config_path :: "environment \<Rightarrow> (string, config_error) result" where
  "config_path env =
     (case environment_path env ''SECRETSD_CONFIG'' of
        Some path \<Rightarrow> Ok path
      | None \<Rightarrow>
          (case environment_path env ''XDG_CONFIG_HOME'' of
             Some path \<Rightarrow> Ok (path_join path ''secretsd/config.toml'')
           | None \<Rightarrow> and_then (home_path env) (\<lambda>home. Ok (path_join home ''.config/secretsd/config.toml''))))"

definition is_root_name :: "string \<Rightarrow> bool" where
  "is_root_name name =
     (case name of
        [] \<Rightarrow> False
      | first # rest \<Rightarrow>
          is_ascii_lowercase first
          \<and> list_all (\<lambda>c. is_ascii_lowercase c \<or> is_ascii_digit c \<or> c = CHR ''-'') rest)"

definition resolve_path :: "string \<Rightarrow> string \<Rightarrow> (string, config_error) result" where
  "resolve_path raw home =
     (let path = (if raw = ''~'' then home
                  else case strip_prefix ''~/'' raw of
                    Some rest \<Rightarrow> path_join home (trim_start_slashes rest)
                  | None \<Rightarrow> raw)
      in if is_absolute path \<and> \<not> List.member (components path) ParentDir
         then Ok path else Err (RelativePath raw))"

text \<open>\<open>RawSource\<close>: a table with the one string field \<open>path\<close> and no other.\<close>

fun raw_source :: "toml_value \<Rightarrow> (string, config_error) result" where
  "raw_source (TomlTable [(entry, TomlString p)]) = (if entry = ''path'' then Ok p else Err TomlError)"
| "raw_source _ = Err TomlError"

text \<open>The loop over the source table; paths are compared by their components, as \<open>PathBuf\<close> is.\<close>

fun parse_roots ::
  "string \<Rightarrow> source_root list \<Rightarrow> (string \<times> toml_value) list \<Rightarrow> (source_root list, config_error) result" where
  "parse_roots home roots [] = Ok roots"
| "parse_roots home roots ((name, val) # rest) =
     (if \<not> is_root_name name then Err (BadRootName name)
      else and_then (raw_source val) (\<lambda>raw. and_then (resolve_path raw home) (\<lambda>path.
        case find (\<lambda>r. components (root_path r) = components path) roots of
          Some first \<Rightarrow> Err (DuplicatePath (root_name first) name)
        | None \<Rightarrow> parse_roots home (roots @ [\<lparr>root_name = name, root_path = path\<rparr>]) rest)))"

definition parse_sources ::
  "(string \<Rightarrow> (string \<times> toml_value) list option) \<Rightarrow> string \<Rightarrow> string \<Rightarrow> (source_root list, config_error) result"
where
  "parse_sources toml contents home =
     (if \<not> is_absolute home then Err NoHome
      else case toml contents of
        None \<Rightarrow> Err TomlError
      | Some document \<Rightarrow>
          if length document \<noteq> 1 then Err TomlError
          else case map_of document ''source'' of
            None \<Rightarrow> Err TomlError
          | Some (TomlTable source) \<Rightarrow> if source = [] then Err NoRoots else parse_roots home [] source
          | Some _ \<Rightarrow> Err TomlError)"

datatype file_read = Contents string | NotFound | Unreadable

definition load_sources ::
  "(string \<Rightarrow> (string \<times> toml_value) list option) \<Rightarrow> environment \<Rightarrow> (string \<Rightarrow> file_read) \<Rightarrow> (string \<Rightarrow> bool)
   \<Rightarrow> (source_root list, config_error) result" where
  "load_sources toml env read_file is_dir =
     and_then (home_path env) (\<lambda>home. and_then (config_path env) (\<lambda>path.
       case read_file path of
         NotFound \<Rightarrow> Err (Missing path)
       | Unreadable \<Rightarrow> Err (ReadFailed path)
       | Contents contents \<Rightarrow> and_then (parse_sources toml contents home) (\<lambda>roots.
           case find (\<lambda>r. \<not> is_dir (root_path r)) roots of
             Some r \<Rightarrow> Err (RootNotDirectory (root_name r) (root_path r) path)
           | None \<Rightarrow> Ok roots)))"

section \<open>The daemon's settings (\<open>daemon.rs\<close>)\<close>

datatype touch_policy = Cached | Always

record config =
  socket_path :: string
  human_sources :: human_store
  sops_bin :: string
  pcsc_socket :: "string option"
  yubikey_probe_argv :: "string list"
  yubikey_probe_timeout :: duration
  policy :: touch_policy
  max_grant :: duration
  max_requested_grant :: duration
  cfg_cooldown :: duration
  request_ttl :: duration
  max_pending :: nat

text \<open>\<open>EnvNotUnicode\<close> is a variable whose value is not UTF-8.\<close>

datatype env_var = EnvUnset | EnvNotUnicode | EnvValue string

datatype start_error = SourcesError config_error | InvalidInput

definition env_nonempty :: "(string \<Rightarrow> env_var) \<Rightarrow> string \<Rightarrow> string option" where
  "env_nonempty env name =
     (case env name of EnvValue v \<Rightarrow> if v = [] then None else Some v | _ \<Rightarrow> None)"

definition env_argv :: "(string \<Rightarrow> env_var) \<Rightarrow> string \<Rightarrow> string list" where
  "env_argv env name = (case env_nonempty env name of None \<Rightarrow> [] | Some v \<Rightarrow> split_whitespace v)"

definition env_secs :: "(string \<Rightarrow> env_var) \<Rightarrow> string \<Rightarrow> nat \<Rightarrow> duration" where
  "env_secs env name fallback =
     (case env_nonempty env name of
        None \<Rightarrow> from_secs fallback
      | Some v \<Rightarrow> (case parse_uint u64_max v of None \<Rightarrow> from_secs fallback | Some n \<Rightarrow> from_secs n))"

definition requested_ceiling :: "(string \<Rightarrow> env_var) \<Rightarrow> (duration, start_error) result" where
  "requested_ceiling env =
     (case env ''SECRETSD_MAX_REQUESTED_GRANT_SECS'' of
        EnvValue raw \<Rightarrow> (case parse_uint u64_max raw of None \<Rightarrow> Err InvalidInput | Some n \<Rightarrow> Ok (from_secs n))
      | EnvUnset \<Rightarrow> Ok (from_secs (24 * 3600))
      | EnvNotUnicode \<Rightarrow> Err InvalidInput)"

definition env_touch_policy :: "(string \<Rightarrow> env_var) \<Rightarrow> (touch_policy, start_error) result" where
  "env_touch_policy env =
     (case env_nonempty env ''SECRETSD_TOUCH_POLICY'' of
        None \<Rightarrow> Ok Cached
      | Some v \<Rightarrow> if v = ''cached'' then Ok Cached else if v = ''always'' then Ok Always else Err InvalidInput)"

definition root_source :: "source_root \<Rightarrow> human_source" where
  "root_source r = \<lparr>label = root_name r, dir = human_dir r\<rparr>"

definition config_from_env ::
  "(source_root list, config_error) result \<Rightarrow> (string \<Rightarrow> env_var) \<Rightarrow> nat \<Rightarrow> (config, start_error) result" where
  "config_from_env sources env uid =
     (case sources of
        Err e \<Rightarrow> Err (SourcesError e)
      | Ok roots \<Rightarrow>
          and_then (requested_ceiling env) (\<lambda>ceiling. and_then (env_touch_policy env) (\<lambda>touch.
            Ok \<lparr>socket_path = resolve_socket (env_nonempty env ''SECRETSD_SOCKET'')
                                (env_nonempty env ''XDG_RUNTIME_DIR'') uid,
                human_sources = map root_source roots,
                sops_bin = (case env_nonempty env ''SECRETSD_SOPS_BIN'' of None \<Rightarrow> ''sops'' | Some v \<Rightarrow> v),
                pcsc_socket = env_nonempty env ''PCSCLITE_CSOCK_NAME'',
                yubikey_probe_argv = env_argv env ''SECRETSD_YUBIKEY_PROBE_CMD'',
                yubikey_probe_timeout = env_secs env ''SECRETSD_YUBIKEY_PROBE_TIMEOUT_SECS'' 2,
                policy = touch,
                max_grant = env_secs env ''SECRETSD_MAX_GRANT_SECS'' 43200,
                max_requested_grant = ceiling,
                cfg_cooldown = env_secs env ''SECRETSD_COOLDOWN_SECS'' 16,
                request_ttl = env_secs env ''SECRETSD_REQUEST_TTL_SECS'' 90,
                max_pending = (case env_nonempty env ''SECRETSD_MAX_PENDING'' of
                                 None \<Rightarrow> 3
                               | Some v \<Rightarrow> (case parse_uint u64_max v of None \<Rightarrow> 3 | Some n \<Rightarrow> n))\<rparr>)))"

definition config_decryptor :: "config \<Rightarrow> decryptor" where
  "config_decryptor c = \<lparr>sops_timeout = request_ttl c\<rparr>"

definition validate :: "config \<Rightarrow> bool" where
  "validate c \<longleftrightarrow> \<not> (policy c = Cached \<and> cfg_cooldown c \<le> from_secs 15)"

definition config_limits :: "config \<Rightarrow> queue_limits" where
  "config_limits c =
     \<lparr>cooldown = cfg_cooldown c, ttl = request_ttl c, max_pending_per_scope = max_pending c\<rparr>"

datatype memlock = MemRequire | MemOptional

definition memlock_policy :: "(string \<Rightarrow> env_var) \<Rightarrow> memlock option" where
  "memlock_policy env =
     (case env ''SECRETSD_MEMLOCK'' of
        EnvValue v \<Rightarrow> if v = ''require'' then Some MemRequire
                      else if v = ''optional'' then Some MemOptional else None
      | EnvUnset \<Rightarrow> Some MemRequire
      | EnvNotUnicode \<Rightarrow> None)"

section \<open>Lemmas\<close>

definition good_root :: "source_root \<Rightarrow> bool" where
  "good_root r \<longleftrightarrow>
     is_root_name (root_name r) \<and> is_absolute (root_path r) \<and> ParentDir \<notin> set (components (root_path r))"

definition roots_inv :: "source_root list \<Rightarrow> bool" where
  "roots_inv roots \<longleftrightarrow> list_all good_root roots \<and> distinct (map (\<lambda>r. components (root_path r)) roots)"

lemma resolve_path_Ok:
  "resolve_path raw home = Ok path \<Longrightarrow> is_absolute path \<and> ParentDir \<notin> set (components path)"
  by (auto simp: resolve_path_def Let_def split: if_splits option.splits)

lemma parse_roots_Ok:
  "parse_roots home roots source = Ok out \<Longrightarrow> roots_inv roots \<Longrightarrow>
   roots_inv out \<and> map root_name out = map root_name roots @ map fst source"
proof (induction home roots source rule: parse_roots.induct)
  case (2 home roots name val rest)
  obtain raw path where rp: "is_root_name name" "raw_source val = Ok raw" "resolve_path raw home = Ok path"
      "find (\<lambda>r. components (root_path r) = components path) roots = None"
      "parse_roots home (roots @ [\<lparr>root_name = name, root_path = path\<rparr>]) rest = Ok out"
    using "2.prems"(1) by (auto simp: and_then_Ok split: if_splits option.splits)
  have "roots_inv (roots @ [\<lparr>root_name = name, root_path = path\<rparr>])"
    using "2.prems"(2) rp(1,4) resolve_path_Ok [OF rp(3)]
    by (auto simp: roots_inv_def good_root_def find_None_iff image_iff)
  then show ?case
    using "2.IH" rp by simp
qed simp

lemma config_from_env_Ok:
  assumes "config_from_env sources env uid = Ok c"
  obtains roots ceiling touch where "sources = Ok roots" "requested_ceiling env = Ok ceiling"
    "env_touch_policy env = Ok touch" "max_requested_grant c = ceiling" "policy c = touch"
    "human_sources c = map root_source roots" "cfg_cooldown c = env_secs env ''SECRETSD_COOLDOWN_SECS'' 16"
  using assms by (auto simp: config_from_env_def and_then_Ok split: result.splits)

section \<open>Properties\<close>

text \<open>A source configuration is accepted only with at least one root, every root with a name of the
  accepted grammar and an absolute path with no \<open>..\<close> step, no two roots on the same path however it
  is spelled, and the roots in the order the file declares them.\<close>

theorem parse_sources_sound:
  assumes "parse_sources toml contents home = Ok roots"
  shows "roots \<noteq> [] \<and> list_all good_root roots \<and> distinct (map (\<lambda>r. components (root_path r)) roots)
     \<and> (\<exists>source. toml contents = Some [(''source'', TomlTable source)] \<and> map root_name roots = map fst source)"
proof -
  obtain document source where ds: "toml contents = Some document" "length document = 1"
      "map_of document ''source'' = Some (TomlTable source)" "source \<noteq> []" "parse_roots home [] source = Ok roots"
    using assms by (auto simp: parse_sources_def split: if_splits option.splits toml_value.splits)
  have "document = [(''source'', TomlTable source)]"
    using ds(2,3) by (cases document) (auto split: if_splits)
  moreover have "roots_inv roots \<and> map root_name roots = map fst source"
    using parse_roots_Ok [OF ds(5)] by (simp add: roots_inv_def)
  ultimately show ?thesis
    using ds by (auto simp: roots_inv_def)
qed

definition demo_toml :: "string \<Rightarrow> (string \<times> toml_value) list option" where
  "demo_toml contents = Some [(''source'', TomlTable
     [(''dotfiles'', TomlTable [(''path'', TomlString ''~/dotfiles'')]),
      (''work'', TomlTable [(''path'', TomlString ''/srv/work'')])])]"

theorem parse_sources_sound_witness:
  "distinct (map (\<lambda>r. components (root_path r))
     [\<lparr>root_name = ''dotfiles'', root_path = ''/home/u/dotfiles''\<rparr>, \<lparr>root_name = ''work'', root_path = ''/srv/work''\<rparr>])"
proof -
  have "parse_sources demo_toml ''config'' ''/home/u'' =
      Ok [\<lparr>root_name = ''dotfiles'', root_path = ''/home/u/dotfiles''\<rparr>, \<lparr>root_name = ''work'', root_path = ''/srv/work''\<rparr>]"
    by code_simp
  from parse_sources_sound [OF this] show ?thesis
    by blast
qed

text \<open>The daemon never widens its limits by accident: a configuration it starts with has the
  ceiling that the operator's variable spells out in full (24 hours only when the variable is
  absent), and when touches are cached it spaces decrypts by more than the 15 seconds of the cache.\<close>

theorem started_config_is_tight:
  assumes "config_from_env sources env uid = Ok c" and "validate c"
  shows "(case env ''SECRETSD_MAX_REQUESTED_GRANT_SECS'' of
            EnvUnset \<Rightarrow> max_requested_grant c = from_secs 86400
          | EnvValue raw \<Rightarrow> (\<exists>n. parse_uint u64_max raw = Some n \<and> max_requested_grant c = from_secs n)
          | EnvNotUnicode \<Rightarrow> False)
     \<and> (policy c = Cached \<longrightarrow> from_secs 15 < cooldown (config_limits c))
     \<and> (policy c = Always \<longrightarrow> env ''SECRETSD_TOUCH_POLICY'' = EnvValue ''always'')"
proof -
  obtain ceiling touch where ct: "requested_ceiling env = Ok ceiling" "env_touch_policy env = Ok touch"
      "max_requested_grant c = ceiling" "policy c = touch"
    using config_from_env_Ok [OF assms(1)] by metis
  have "case env ''SECRETSD_MAX_REQUESTED_GRANT_SECS'' of
            EnvUnset \<Rightarrow> max_requested_grant c = from_secs 86400
          | EnvValue raw \<Rightarrow> (\<exists>n. parse_uint u64_max raw = Some n \<and> max_requested_grant c = from_secs n)
          | EnvNotUnicode \<Rightarrow> False"
    using ct(1,3) by (auto simp: requested_ceiling_def split: env_var.splits option.splits)
  moreover have "policy c = Always \<longrightarrow> env ''SECRETSD_TOUCH_POLICY'' = EnvValue ''always''"
    using ct(2,4) by (auto simp: env_touch_policy_def env_nonempty_def split: env_var.splits if_splits)
  moreover have "policy c = Cached \<longrightarrow> from_secs 15 < cooldown (config_limits c)"
    using assms(2) by (auto simp: validate_def config_limits_def)
  ultimately show ?thesis
    by blast
qed

definition demo_env :: "string \<Rightarrow> env_var" where
  "demo_env name = (if name = ''SECRETSD_MAX_REQUESTED_GRANT_SECS'' then EnvValue ''600'' else EnvUnset)"

definition demo_config :: config where
  "demo_config = (case config_from_env (Ok []) demo_env 1000 of Ok c \<Rightarrow> c | Err _ \<Rightarrow> undefined)"

lemma demo_ceiling: "parse_uint u64_max ''600'' = Some 600"
  by (simp add: parse_uint_def Let_def is_ascii_digit_def in_range_def char_code_def digit_val_def dec_value_def u64_max_def)

lemma demo_config_Ok: "config_from_env (Ok []) demo_env 1000 = Ok demo_config"
  by (simp add: demo_config_def config_from_env_def requested_ceiling_def env_touch_policy_def
      env_nonempty_def demo_env_def demo_ceiling)

theorem started_config_is_tight_witness:
  "max_requested_grant demo_config = from_secs 600 \<and> from_secs 15 < cooldown (config_limits demo_config)"
proof -
  have "cfg_cooldown demo_config = from_secs 16" "policy demo_config = Cached"
    by (rule config_from_env_Ok [OF demo_config_Ok];
        simp add: env_secs_def env_touch_policy_def env_nonempty_def demo_env_def)+
  then show ?thesis
    using started_config_is_tight [OF demo_config_Ok]
    by (simp add: validate_def demo_env_def demo_ceiling from_secs_def nanos_per_sec_def)
qed

end
