(* ===== verification/Broker.thy ===== *)
theory Broker
  imports Config Receipts
begin

text \<open>
  The broker: \<open>crates/secrets/src/server.rs\<close> and \<open>server/\<close> (\<open>approval.rs\<close>, \<open>dispatch.rs\<close>,
  \<open>dispatch/capability.rs\<close>, \<open>dispatch/control.rs\<close>, \<open>worker.rs\<close>).

  One mutex guards the state; every definition here is one critical section of the code, or the
  code between two of them.  A connection thread is a program point between critical sections;
  the worker holds at most one job.  The step relation interleaves threads and worker in any
  order.  Observations of the machine in a step (clock readings, files, terminals, processes, the
  random device) are a parameter record.  The list of completed ceremonies is history only: no
  definition reads it.
\<close>

section \<open>State (\<open>server.rs\<close>)\<close>

text \<open>\<open>b_signals\<close> lists the process groups killed so far; the other fields are those of \<open>State\<close>.\<close>

record broker =
  b_instance :: string
  b_registry :: registry
  b_grants :: grant_table
  b_receipts :: receipt_table
  b_capability_grants :: capability_grant_table
  b_queue :: queue
  b_config :: config
  b_failures :: "(request_id \<times> err_code) list"
  b_lock_epoch :: nat
  b_active :: "(request_id \<times> int) option"
  b_signals :: "int list"

definition b_store :: "broker \<Rightarrow> human_store" where
  "b_store b = human_sources (b_config b)"

text \<open>\<open>State::new\<close>, from the boot identifier read and the sixteen random bytes.\<close>

definition broker_new :: "string \<Rightarrow> byte list \<Rightarrow> config \<Rightarrow> broker" where
  "broker_new boot random cfg =
     \<lparr>b_instance = encode random, b_registry = registry_new (trim boot), b_grants = [], b_receipts = [],
      b_capability_grants = [], b_queue = queue_new (config_limits cfg), b_config = cfg, b_failures = [],
      b_lock_epoch = 0, b_active = None, b_signals = []\<rparr>"

definition kill_active :: "request_id \<Rightarrow> broker \<Rightarrow> broker" where
  "kill_active i b =
     (case b_active b of
        None \<Rightarrow> b
      | Some (active, process_group) \<Rightarrow>
          if active = i then b\<lparr>b_active := None, b_signals := b_signals b @ [process_group]\<rparr> else b)"

text \<open>What one critical section sees of the machine; the clock may be read up to three times.\<close>

record machine =
  m_fs :: filesystem
  m_descends :: "pinned_peer \<Rightarrow> pinned_peer \<Rightarrow> bool"
  m_alive :: "pinned_peer \<Rightarrow> bool"
  m_exists :: "string \<Rightarrow> bool"
  m_device :: "(nat \<Rightarrow> byte list option) option"
  m_reads :: nat
  m_now1 :: instant
  m_now2 :: instant
  m_now3 :: instant

section \<open>Outcomes (\<open>dispatch.rs\<close>)\<close>

datatype outcome =
    OutOk | OutFields string | OutPayload string | OutBytes string | OutReceipt string
  | OutFailed err_code string

record decision =
  d_outcome :: outcome
  d_scope_kind :: "scope_kind option"
  d_source :: "string option"
  d_request_id :: "request_id option"

definition decision_new :: "outcome \<Rightarrow> decision" where
  "decision_new out = \<lparr>d_outcome = out, d_scope_kind = None, d_source = None, d_request_id = None\<rparr>"

fun released_bytes :: "outcome \<Rightarrow> nat option" where
  "released_bytes (OutBytes v) = Some (length v)"
| "released_bytes _ = None"

fun outcome_decision :: "outcome \<Rightarrow> string" where
  "outcome_decision (OutFailed code _) = wire code"
| "outcome_decision _ = ''ok''"

text \<open>What \<open>handle\<close> writes for each outcome.\<close>

fun outcome_bytes :: "outcome \<Rightarrow> string" where
  "outcome_bytes OutOk = format_response ROk"
| "outcome_bytes (OutFields flds) = format_response (ROkFields flds)"
| "outcome_bytes (OutPayload payload) = format_response (ROkBytes (length payload)) @ payload"
| "outcome_bytes (OutBytes v) = format_response (ROkBytes (length v)) @ v"
| "outcome_bytes (OutReceipt receipt) = ''OK'' @ tab # ''status=authorized receipt='' @ receipt @ [newline]"
| "outcome_bytes (OutFailed code message) = format_response (RFailed code message)"

section \<open>Approval (\<open>approval.rs\<close>)\<close>

record access =
  a_key :: string
  a_token_hex :: "string option"
  a_tty :: "string option"
  a_requested_ttl :: "nat option"

datatype approval =
    Approved "string option" "request_id option"
  | Refused err_code
  | Incomplete err_code request_id

definition resolve_access ::
  "machine \<Rightarrow> access \<Rightarrow> pinned_peer \<Rightarrow> broker \<Rightarrow> (scope \<times> secret_name, err_code) result \<times> broker" where
  "resolve_access m a caller b =
     (case parse_name (a_key a) of
        Err e \<Rightarrow> (Err e, b)
      | Ok key \<Rightarrow>
          (case (case a_token_hex a of
                   None \<Rightarrow> Ok None
                 | Some hex \<Rightarrow> and_then (parse_token hex) (\<lambda>t. Ok (Some t))) of
             Err e \<Rightarrow> (Err e, b)
           | Ok tok \<Rightarrow>
               (case resolve (m_descends m) tok (a_tty a) (Some caller) (b_registry b) of
                  (Err e, r) \<Rightarrow> (Err e, b\<lparr>b_registry := r\<rparr>)
                | (Ok sc, r) \<Rightarrow> (Ok (sc, key), b\<lparr>b_registry := r\<rparr>))))"

text \<open>The cached grant, if it may be used, and the state after dropping one that may not.\<close>

definition cached_approval ::
  "machine \<Rightarrow> scope \<Rightarrow> secret_name \<Rightarrow> bool \<Rightarrow> broker \<Rightarrow> string option \<times> broker" where
  "cached_approval m sc k force_fresh b =
     (case lookup (b_grants b) sc k (m_now1 m) of
        None \<Rightarrow> (None, b)
      | Some (_, source, ident) \<Rightarrow>
          if key_identity (m_fs m) (b_store b) k = Ok ident \<and> \<not> force_fresh
          then (Some source, b)
          else (None, b\<lparr>b_grants := revoke sc k (b_grants b)\<rparr>))"

datatype approval_start = Decided approval | Waiting request_id instant string

definition approval_enqueue ::
  "machine \<Rightarrow> scope \<Rightarrow> secret_name \<Rightarrow> nat option \<Rightarrow> broker \<Rightarrow> approval_start \<times> broker" where
  "approval_enqueue m sc k requested b =
     (case locate (m_fs m) (b_store b) k of
        Err e \<Rightarrow> (Decided (Refused e), b)
      | Ok source \<Rightarrow>
          (case instant_checked_add (m_now2 m) (request_ttl (b_config b)) of
             None \<Rightarrow> (Decided (Refused Internal), b)
           | Some deadline \<Rightarrow>
               (case enqueue sc k (m_now2 m) requested (b_queue b) of
                  (Err e, q) \<Rightarrow> (Decided (Refused e), b\<lparr>b_queue := q\<rparr>)
                | (Ok i, q) \<Rightarrow> (Waiting i deadline source, b\<lparr>b_queue := q\<rparr>))))"

definition approval_begin ::
  "machine \<Rightarrow> scope \<Rightarrow> secret_name \<Rightarrow> bool \<Rightarrow> nat option \<Rightarrow> broker \<Rightarrow> approval_start \<times> broker" where
  "approval_begin m sc k force_fresh requested b =
     (case cached_approval m sc k force_fresh b of
        (Some source, b') \<Rightarrow> (Decided (Approved (Some source) None), b')
      | (None, b') \<Rightarrow> approval_enqueue m sc k requested b')"

text \<open>One round of the wait; \<open>None\<close> goes back to waiting.\<close>

definition approval_poll ::
  "machine \<Rightarrow> request_id \<Rightarrow> instant \<Rightarrow> string \<Rightarrow> broker \<Rightarrow> approval option \<times> broker" where
  "approval_poll m i deadline source b =
     (case state_of i (b_queue b) of
        Some Granted \<Rightarrow> (Some (Approved (Some source) (Some i)), b)
      | Some DeniedR \<Rightarrow> (Some (Incomplete Denied i), b)
      | Some TimedOutR \<Rightarrow> (Some (Incomplete Timeout i), b)
      | Some Failed \<Rightarrow>
          (Some (Incomplete (case find (\<lambda>f. fst f = i) (b_failures b) of None \<Rightarrow> Internal | Some f \<Rightarrow> snd f) i), b)
      | Some _ \<Rightarrow>
          (case checked_duration_since deadline (m_now1 m) of
             None \<Rightarrow> (Some (Incomplete Timeout i),
                      kill_active i (b\<lparr>b_queue := snd (timeout i (m_now2 m) (b_queue b))\<rparr>))
           | Some remaining \<Rightarrow> (None, b))
      | None \<Rightarrow> (Some (Incomplete Internal i), b))"

text \<open>The answer of \<open>dispatch_access\<close> once the approval is decided.\<close>

definition granted_fields :: "machine \<Rightarrow> access \<Rightarrow> scope \<Rightarrow> secret_name \<Rightarrow> broker \<Rightarrow> string" where
  "granted_fields m a sc k b =
     (case (case a_requested_ttl a of
              None \<Rightarrow> None
            | Some _ \<Rightarrow> remaining_secs (b_grants b) sc k (m_now1 m)) of
        None \<Rightarrow> ''status=granted''
      | Some secs \<Rightarrow> ''status=granted ttl='' @ show_nat secs)"

definition access_decision ::
  "machine \<Rightarrow> access \<Rightarrow> bool \<Rightarrow> scope \<Rightarrow> secret_name \<Rightarrow> approval \<Rightarrow> broker \<Rightarrow> decision" where
  "access_decision m a return_value sc k appr b =
     (case appr of
        Refused e \<Rightarrow>
          \<lparr>d_outcome = OutFailed e ''request refused'', d_scope_kind = Some (kind sc), d_source = None, d_request_id = None\<rparr>
      | Incomplete e i \<Rightarrow>
          \<lparr>d_outcome = OutFailed e ''approval did not complete'', d_scope_kind = Some (kind sc), d_source = None,
           d_request_id = Some i\<rparr>
      | Approved source i \<Rightarrow>
          \<lparr>d_outcome = (if return_value
                        then (case lookup (b_grants b) sc k (m_now1 m) of
                                None \<Rightarrow> OutFailed Internal ''grant disappeared''
                              | Some (v, _, _) \<Rightarrow> OutBytes v)
                        else OutFields (granted_fields m a sc k b)),
           d_scope_kind = Some (kind sc), d_source = source, d_request_id = i\<rparr>)"

section \<open>Control verbs (\<open>dispatch/control.rs\<close>)\<close>

definition register_request :: "string \<Rightarrow> string \<Rightarrow> pinned_peer \<Rightarrow> broker \<Rightarrow> decision \<times> broker" where
  "register_request token_hex name peer b =
     (case parse_token token_hex of
        Err e \<Rightarrow> (decision_new (OutFailed e ''invalid session token''), b)
      | Ok tok \<Rightarrow>
          (case register \<lparr>token = tok, session = name, root = peer\<rparr> (b_registry b) of
             (Ok displaced, r) \<Rightarrow>
               (\<lparr>d_outcome = OutOk, d_scope_kind = Some VerifiedSession, d_source = None, d_request_id = None\<rparr>,
                b\<lparr>b_registry := r, b_grants := revoke_tokens displaced (b_grants b)\<rparr>)
           | (Err e, r) \<Rightarrow>
               (decision_new (OutFailed e ''token is already bound to another session''), b\<lparr>b_registry := r\<rparr>)))"

definition unregister_request :: "string \<Rightarrow> broker \<Rightarrow> decision \<times> broker" where
  "unregister_request name b =
     (let (tokens, r) = unregister name (b_registry b)
      in (decision_new OutOk, b\<lparr>b_registry := r, b_grants := revoke_tokens tokens (b_grants b)\<rparr>))"

definition grants_request :: "machine \<Rightarrow> broker \<Rightarrow> decision" where
  "grants_request m b = decision_new (OutPayload (render (m_now1 m) (b_grants b)))"

definition deny_request :: "machine \<Rightarrow> request_id \<Rightarrow> broker \<Rightarrow> decision \<times> broker" where
  "deny_request m i b =
     (case deny i (m_now1 m) (b_queue b) of
        (True, q) \<Rightarrow> (decision_new OutOk, kill_active i (b\<lparr>b_queue := q\<rparr>))
      | (False, q) \<Rightarrow> (decision_new (OutFailed BadRequest ''request is not pending''), b\<lparr>b_queue := q\<rparr>))"

text \<open>Publication to the subscribers follows, outside the mutex: see the theory of subscribers.\<close>

definition lock_request :: "machine \<Rightarrow> broker \<Rightarrow> decision \<times> broker" where
  "lock_request m b =
     (let b1 = b\<lparr>b_grants := revoke_all (b_grants b), b_receipts := clear_receipts (b_receipts b),
                 b_capability_grants := clear_capabilities (b_capability_grants b),
                 b_lock_epoch := sat_add64 (b_lock_epoch b) 1\<rparr>
      in (decision_new OutOk,
          case b_active b1 of
            None \<Rightarrow> b1
          | Some (i, process_group) \<Rightarrow>
              b1\<lparr>b_active := None, b_queue := snd (deny i (m_now1 m) (b_queue b1)),
                 b_signals := b_signals b1 @ [process_group]\<rparr>))"

section \<open>Capabilities (\<open>dispatch/capability.rs\<close>)\<close>

fun receipt_mint_failure :: "mint_error \<Rightarrow> outcome" where
  "receipt_mint_failure TooManyReceipts = OutFailed TooManyPending ''too many outstanding receipts''"
| "receipt_mint_failure RandomFailed = OutFailed Internal ''receipt entropy unavailable''"

text \<open>\<open>None\<close> while the minting loop is still reading the random device.\<close>

definition finish_authorization ::
  "machine \<Rightarrow> capability \<Rightarrow> nat \<Rightarrow> decision \<Rightarrow> broker \<Rightarrow> (decision \<times> broker) option" where
  "finish_authorization m cap epoch_before d b =
     (case (d_outcome d, d_request_id d) of
        (OutFields _, Some _) \<Rightarrow>
          if b_lock_epoch b = epoch_before
          then (case mint (m_reads m) (m_device m) cap (m_now1 m) (b_receipts b) of
                  None \<Rightarrow> None
                | Some (Ok receipt, t) \<Rightarrow> Some (d\<lparr>d_outcome := OutReceipt receipt\<rparr>, b\<lparr>b_receipts := t\<rparr>)
                | Some (Err e, t) \<Rightarrow> Some (d\<lparr>d_outcome := receipt_mint_failure e\<rparr>, b\<lparr>b_receipts := t\<rparr>))
          else Some (d\<lparr>d_outcome := OutFailed Denied ''locked during authorization''\<rparr>, b)
      | _ \<Rightarrow> Some (d, b))"

definition redeem_fields :: "capability \<Rightarrow> nat \<Rightarrow> broker \<Rightarrow> string" where
  "redeem_fields cap secs b =
     ''status=redeemed cap='' @ cap @ '' instance='' @ b_instance b
     @ '' epoch='' @ show_nat (b_lock_epoch b) @ '' ttl='' @ show_nat secs"

definition redeem_request :: "machine \<Rightarrow> string \<Rightarrow> string \<Rightarrow> broker \<Rightarrow> decision \<times> broker" where
  "redeem_request m receipt_hex cap_text b =
     (case parse_capability cap_text of
        Err e \<Rightarrow> (decision_new (OutFailed e ''invalid capability name''), b)
      | Ok expected \<Rightarrow>
          (case instant_checked_add (m_now1 m) (max_grant (b_config b)) of
             None \<Rightarrow> (decision_new (OutFailed Internal ''capability grant deadline is out of range''), b)
           | Some deadline \<Rightarrow>
               (case redeem receipt_hex expected (m_now1 m) (b_receipts b) of
                  (None, t) \<Rightarrow> (decision_new (OutFailed Denied ''receipt is not redeemable''), b\<lparr>b_receipts := t\<rparr>)
                | (Some cap, t) \<Rightarrow>
                    (case insert_capability deadline (b_capability_grants b) of
                       (i, c) \<Rightarrow>
                         (case capability_remaining i (m_now1 m) c of
                            None \<Rightarrow> (decision_new (OutFailed Internal ''capability grant record missing''),
                                     b\<lparr>b_receipts := t, b_capability_grants := c\<rparr>)
                          | Some secs \<Rightarrow> (decision_new (OutFields (redeem_fields cap secs b)),
                                          b\<lparr>b_receipts := t, b_capability_grants := c\<rparr>))))))"

section \<open>Dispatch (\<open>dispatch.rs\<close>)\<close>

text \<open>A request that goes on to \<open>dispatch_access\<close>, and for \<open>authorize\<close> what is done after it.\<close>

record call =
  c_access :: access
  c_return_value :: bool
  c_force_fresh :: bool
  c_authorize :: "(capability \<times> nat) option"
  c_caller :: pinned_peer

datatype dispatched = Answer decision | Access call

definition hello_answer :: "broker \<Rightarrow> string" where
  "hello_answer b =
     ''version='' @ show_nat PROTOCOL_VERSION @ '' instance='' @ b_instance b
     @ '' epoch='' @ show_nat (b_lock_epoch b)"

definition capability_refusal :: decision where
  "capability_refusal = decision_new (OutFailed NotHumanKey ''capability keys hold no retrievable value'')"

text \<open>\<open>authorize\<close> up to its call of \<open>dispatch_access\<close>.\<close>

definition authorize_request ::
  "string \<Rightarrow> string option \<Rightarrow> string option \<Rightarrow> pinned_peer \<Rightarrow> broker \<Rightarrow> dispatched" where
  "authorize_request cap_text tok tty caller b =
     (case parse_capability cap_text of
        Err e \<Rightarrow> Answer (decision_new (OutFailed e ''invalid capability name''))
      | Ok cap \<Rightarrow>
          Access \<lparr>c_access = \<lparr>a_key = key_name cap, a_token_hex = tok, a_tty = tty, a_requested_ttl = None\<rparr>,
                  c_return_value = False, c_force_fresh = True,
                  c_authorize = Some (cap, b_lock_epoch b), c_caller = caller\<rparr>)"

fun answer :: "decision \<times> broker \<Rightarrow> dispatched \<times> broker" where
  "answer (d, b) = (Answer d, b)"

fun dispatch :: "machine \<Rightarrow> request \<Rightarrow> pinned_peer \<Rightarrow> broker \<Rightarrow> dispatched \<times> broker" where
  "dispatch m (Hello version) caller b =
     (Answer (decision_new (if version = PROTOCOL_VERSION then OutFields (hello_answer b)
                            else OutFailed VersionMismatch ''unsupported protocol version'')), b)"
| "dispatch m (Register token_hex name pid) caller b = answer (register_request token_hex name caller b)"
| "dispatch m (Unregister name) caller b = answer (unregister_request name b)"
| "dispatch m (Get key token_hex tty requested) caller b =
     (if starts_with CAPABILITY_KEY_PREFIX key then (Answer capability_refusal, b)
      else (Access \<lparr>c_access = \<lparr>a_key = key, a_token_hex = token_hex, a_tty = tty, a_requested_ttl = requested\<rparr>,
                    c_return_value = True, c_force_fresh = False, c_authorize = None, c_caller = caller\<rparr>, b))"
| "dispatch m (RequestGrant key token_hex tty requested) caller b =
     (if starts_with CAPABILITY_KEY_PREFIX key then (Answer capability_refusal, b)
      else (Access \<lparr>c_access = \<lparr>a_key = key, a_token_hex = token_hex, a_tty = tty, a_requested_ttl = requested\<rparr>,
                    c_return_value = False, c_force_fresh = False, c_authorize = None, c_caller = caller\<rparr>, b))"
| "dispatch m Grants caller b = (Answer (grants_request m b), b)"
| "dispatch m (Deny i) caller b = answer (deny_request m i b)"
| "dispatch m Lock caller b = answer (lock_request m b)"
| "dispatch m Subscribe caller b =
     (Answer (decision_new (OutFailed BadRequest ''subscription is connection-scoped'')), b)"
| "dispatch m (Authorize cap token_hex tty) caller b = (authorize_request cap token_hex tty caller b, b)"
| "dispatch m (Redeem receipt_hex cap) caller b = answer (redeem_request m receipt_hex cap b)"

section \<open>Lanes (\<open>server.rs\<close>)\<close>

datatype connection_lane = MainLane | FastLane | ControlLane | SubscriptionLane

fun request_lane :: "request \<Rightarrow> connection_lane" where
  "request_lane (Get _ _ _ _) = MainLane"
| "request_lane (RequestGrant _ _ _ _) = MainLane"
| "request_lane (Authorize _ _ _) = MainLane"
| "request_lane (Hello _) = FastLane"
| "request_lane (Register _ _ _) = FastLane"
| "request_lane (Unregister _) = FastLane"
| "request_lane Grants = FastLane"
| "request_lane (Redeem _ _) = FastLane"
| "request_lane (Deny _) = ControlLane"
| "request_lane Lock = ControlLane"
| "request_lane Subscribe = SubscriptionLane"

text \<open>The bytes a peek at a fresh connection finds, \<open>None\<close> when there are none yet.\<close>

definition ready_request_lane :: "string option \<Rightarrow> connection_lane option" where
  "ready_request_lane peeked =
     (case peeked of
        None \<Rightarrow> None
      | Some bytes \<Rightarrow>
          (case split_once newline (take (MAX_FRAME_BYTES + 1) bytes) of
             None \<Rightarrow> None
           | Some (line, _) \<Rightarrow>
               if length line > MAX_FRAME_BYTES then None
               else (case parse_request line of Err _ \<Rightarrow> None | Ok r \<Rightarrow> Some (request_lane r))))"

section \<open>The worker (\<open>worker.rs\<close>)\<close>

text \<open>A job; its copies of the store and the decryptor are those of the state, which never change.\<close>

record job =
  j_id :: request_id
  j_scope :: scope
  j_key :: secret_name
  j_generation :: nat
  j_lock_epoch :: nat
  j_requested_ttl :: "nat option"

definition effective_grant_ttl :: "nat option \<Rightarrow> duration \<Rightarrow> duration \<Rightarrow> duration" where
  "effective_grant_ttl requested backstop ceiling =
     (case requested of None \<Rightarrow> backstop | Some secs \<Rightarrow> min (from_secs secs) ceiling)"

text \<open>The housekeeping at the head of every round.\<close>

definition worker_sweep :: "machine \<Rightarrow> broker \<Rightarrow> broker" where
  "worker_sweep m b =
     (let now = m_now1 m;
          (expired, q) = sweep_timeouts now (b_queue b);
          b1 = fold kill_active expired (b\<lparr>b_queue := q\<rparr>);
          q1 = prune now (b_queue b1)
      in b1\<lparr>b_grants := revoke_missing_ttys (m_exists m) (snd (revoke_expired now (b_grants b1))),
            b_queue := q1,
            b_receipts := sweep_receipts now (b_receipts b1),
            b_capability_grants := sweep_capabilities now (b_capability_grants b1),
            b_failures := filter (\<lambda>f. state_of (fst f) q1 \<noteq> None) (b_failures b1)\<rparr>)"

definition worker_take :: "machine \<Rightarrow> broker \<Rightarrow> job option \<times> broker" where
  "worker_take m b =
     (let now = m_now1 m; b1 = worker_sweep m b in
      case next_ready now (b_queue b1) of
        None \<Rightarrow> (None, b1)
      | Some i \<Rightarrow>
          (case mark_decrypting i now (b_queue b1) of
             (None, q) \<Rightarrow> (None, b1\<lparr>b_queue := q\<rparr>)
           | (Some g, q) \<Rightarrow>
               (case describe i q of
                  None \<Rightarrow> (None, b1\<lparr>b_queue := fail i now q\<rparr>)
                | Some (sc, k, requested) \<Rightarrow>
                    (Some \<lparr>j_id = i, j_scope = sc, j_key = k, j_generation = g,
                           j_lock_epoch = b_lock_epoch b1, j_requested_ttl = requested\<rparr>,
                     b1\<lparr>b_queue := q\<rparr>))))"

text \<open>The callback at the start of the child.\<close>

definition worker_started :: "job \<Rightarrow> int \<Rightarrow> broker \<Rightarrow> broker" where
  "worker_started j process_group b =
     (if state_of (j_id j) (b_queue b) = Some Decrypting
      then b\<lparr>b_active := Some (j_id j, process_group)\<rparr>
      else b\<lparr>b_signals := b_signals b @ [process_group]\<rparr>)"

definition session_is_active :: "machine \<Rightarrow> scope \<Rightarrow> registry \<Rightarrow> bool" where
  "session_is_active m sc r =
     (case sc of
        Session t \<Rightarrow> (case registration_of t r of None \<Rightarrow> False | Some e \<Rightarrow> m_alive m (root e))
      | Tty tty _ \<Rightarrow> m_exists m tty)"

text \<open>Whether the request is granted, and the queue after it.\<close>

definition worker_complete :: "machine \<Rightarrow> job \<Rightarrow> broker \<Rightarrow> bool \<times> queue" where
  "worker_complete m j b =
     (let q = (if b_lock_epoch b \<noteq> j_lock_epoch j \<or> \<not> session_is_active m (j_scope j) (b_registry b)
               then snd (deny (j_id j) (m_now1 m) (b_queue b)) else b_queue b)
      in complete (j_id j) (j_generation j) (m_now2 m) q)"

definition worker_finish :: "machine \<Rightarrow> job \<Rightarrow> (decrypted_human_file, err_code) result \<Rightarrow> broker \<Rightarrow> broker" where
  "worker_finish m j decrypted b0 =
     (let b = kill_active (j_id j) b0 in
      case decrypted of
        Ok d \<Rightarrow>
          (case worker_complete m j b of
             (True, q) \<Rightarrow>
               b\<lparr>b_queue := q,
                 b_grants := insert_grant (j_scope j) (j_key j) (dvalue d) (m_now3 m)
                               \<lparr>origin_source = dsource d, origin_identity = didentity d\<rparr>
                               (effective_grant_ttl (j_requested_ttl j) (max_grant (b_config b))
                                  (max_requested_grant (b_config b)))
                               (b_grants b)\<rparr>
           | (False, q) \<Rightarrow> b\<lparr>b_queue := q\<rparr>)
      | Err e \<Rightarrow> b\<lparr>b_queue := fail (j_id j) (m_now1 m) (b_queue b), b_failures := b_failures b @ [(j_id j, e)]\<rparr>)"

section \<open>Threads and worker together\<close>

text \<open>Where a connection thread is between two critical sections.\<close>

datatype thread =
    Idle
  | Resolving call
  | Beginning call scope secret_name
  | Polling call scope secret_name request_id instant string
  | Answering call scope secret_name approval
  | Minting capability nat decision
  | Done decision

fun finish_access :: "call \<Rightarrow> decision \<Rightarrow> thread" where
  "finish_access c d = (case c_authorize c of None \<Rightarrow> Done d | Some (cap, epoch) \<Rightarrow> Minting cap epoch d)"

definition no_scope :: "err_code \<Rightarrow> decision" where
  "no_scope e = decision_new (OutFailed e ''request has no usable scope'')"

text \<open>The next critical section of a thread; \<open>None\<close> when it goes on waiting.\<close>

fun advance :: "machine \<Rightarrow> thread \<Rightarrow> broker \<Rightarrow> (thread \<times> broker) option" where
  "advance m Idle b = None"
| "advance m (Resolving c) b =
     (case resolve_access m (c_access c) (c_caller c) b of
        (Err e, b') \<Rightarrow> Some (finish_access c (no_scope e), b')
      | (Ok (sc, k), b') \<Rightarrow> Some (Beginning c sc k, b'))"
| "advance m (Beginning c sc k) b =
     (case approval_begin m sc k (c_force_fresh c) (a_requested_ttl (c_access c)) b of
        (Decided a, b') \<Rightarrow> Some (Answering c sc k a, b')
      | (Waiting i deadline source, b') \<Rightarrow> Some (Polling c sc k i deadline source, b'))"
| "advance m (Polling c sc k i deadline source) b =
     (case approval_poll m i deadline source b of
        (Some a, b') \<Rightarrow> Some (Answering c sc k a, b')
      | (None, b') \<Rightarrow> None)"
| "advance m (Answering c sc k a) b =
     Some (finish_access c (access_decision m (c_access c) (c_return_value c) sc k a b), b)"
| "advance m (Minting cap epoch d) b =
     (case finish_authorization m cap epoch d b of
        None \<Rightarrow> None
      | Some (d', b') \<Rightarrow> Some (Done d', b'))"
| "advance m (Done d) b = None"

fun arrive :: "machine \<Rightarrow> request \<Rightarrow> pinned_peer \<Rightarrow> broker \<Rightarrow> thread \<times> broker" where
  "arrive m r caller b =
     (case dispatch m r caller b of
        (Answer d, b') \<Rightarrow> (Done d, b')
      | (Access c, b') \<Rightarrow> (Resolving c, b'))"

text \<open>A completed ceremony: the hardware decrypted this value for this request.\<close>

record ceremony =
  cer_id :: request_id
  cer_scope :: scope
  cer_key :: secret_name
  cer_value :: string
  cer_epoch :: nat
  cer_at :: instant
  cer_ttl :: duration

record system =
  s_broker :: broker
  s_job :: "job option"
  s_threads :: "nat \<Rightarrow> thread"
  s_clock :: instant
  s_ended :: "instant option"
  s_ceremonies :: "ceremony list"

definition machine_ok :: "system \<Rightarrow> machine \<Rightarrow> bool" where
  "machine_ok s m \<longleftrightarrow>
     s_clock s \<le> m_now1 m \<and> m_now1 m \<le> m_now2 m \<and> m_now2 m \<le> m_now3 m \<and> good_device (m_device m)"

definition ceremony_of :: "machine \<Rightarrow> job \<Rightarrow> decrypted_human_file \<Rightarrow> broker \<Rightarrow> ceremony" where
  "ceremony_of m j d b =
     \<lparr>cer_id = j_id j, cer_scope = j_scope j, cer_key = j_key j, cer_value = dvalue d, cer_epoch = b_lock_epoch b,
      cer_at = m_now3 m,
      cer_ttl = effective_grant_ttl (j_requested_ttl j) (max_grant (b_config b)) (max_requested_grant (b_config b))\<rparr>"

definition new_ceremonies ::
  "machine \<Rightarrow> job \<Rightarrow> (decrypted_human_file, err_code) result \<Rightarrow> broker \<Rightarrow> ceremony list" where
  "new_ceremonies m j decrypted b =
     (case decrypted of
        Ok d \<Rightarrow> if fst (worker_complete m j (kill_active (j_id j) b)) then [ceremony_of m j d b] else []
      | Err _ \<Rightarrow> [])"

definition broker_init :: "system \<Rightarrow> bool" where
  "broker_init s \<longleftrightarrow>
     (\<exists>boot random cfg. s_broker s = broker_new boot random cfg \<and> validate cfg)
     \<and> s_job s = None \<and> s_threads s = (\<lambda>_. Idle) \<and> s_ended s = None \<and> s_ceremonies s = []"

inductive broker_step :: "system \<Rightarrow> system \<Rightarrow> bool" where
  arrive_step:
    "machine_ok s m \<Longrightarrow> arrive m r caller (s_broker s) = (th, b') \<Longrightarrow>
     broker_step s (s\<lparr>s_broker := b', s_threads := (s_threads s)(n := th), s_clock := m_now3 m\<rparr>)"
| advance_step:
    "machine_ok s m \<Longrightarrow> advance m (s_threads s n) (s_broker s) = Some (th, b') \<Longrightarrow>
     broker_step s (s\<lparr>s_broker := b', s_threads := (s_threads s)(n := th), s_clock := m_now3 m\<rparr>)"
| take_step:
    "machine_ok s m \<Longrightarrow> s_job s = None \<Longrightarrow> worker_take m (s_broker s) = (j, b') \<Longrightarrow>
     broker_step s (s\<lparr>s_broker := b', s_job := j, s_clock := m_now3 m\<rparr>)"
| started_step:
    "s_job s = Some j \<Longrightarrow>
     broker_step s (s\<lparr>s_broker := worker_started j process_group (s_broker s)\<rparr>)"
| finish_step:
    "machine_ok s m \<Longrightarrow> s_job s = Some j \<Longrightarrow>
     decrypt_opened (config_decryptor (b_config (s_broker s))) env (b_store (s_broker s)) (j_key j) = Some decrypted \<Longrightarrow>
     broker_step s (s\<lparr>s_broker := worker_finish m j decrypted (s_broker s), s_job := None, s_clock := m_now3 m,
        s_ended := Some (if is_ok decrypted then m_now2 m else m_now1 m),
        s_ceremonies := s_ceremonies s @ new_ceremonies m j decrypted (s_broker s)\<rparr>)"

end
