(* ===== verification/BrokerSafety.thy ===== *)
theory BrokerSafety
  imports Broker
begin

text \<open>
  Safety of the broker under every interleaving of connection threads and worker.

  First the broker refines the queue system of \<open>Requests\<close>: every broker step is a sequence of queue
  steps, so what holds of the queue holds of the broker.  Then the history invariant ties cached
  values, receipts and granted requests to the ceremonies that produced them.
\<close>

section \<open>Refinement of the queue system\<close>

definition queue_view :: "queue \<Rightarrow> (request_id \<times> nat) option \<Rightarrow> instant \<Rightarrow> instant option \<Rightarrow> queue_system" where
  "queue_view q jb t e = \<lparr>queue_of = q, job = jb, clock = t, ended = e\<rparr>"

definition job_view :: "job option \<Rightarrow> (request_id \<times> nat) option" where
  "job_view j = map_option (\<lambda>j. (j_id j, j_generation j)) j"

definition system_view :: "system \<Rightarrow> queue_system" where
  "system_view s = queue_view (b_queue (s_broker s)) (job_view (s_job s)) (s_clock s) (s_ended s)"

lemma view_deny: "t \<le> now \<Longrightarrow> queue_step (queue_view q jb t e) (queue_view (snd (deny i now q)) jb now e)"
  using deny_step [of "queue_view q jb t e" now i] by (simp add: queue_view_def)

lemma view_timeout: "t \<le> now \<Longrightarrow> queue_step (queue_view q jb t e) (queue_view (snd (timeout i now q)) jb now e)"
  using timeout_step [of "queue_view q jb t e" now i] by (simp add: queue_view_def)

lemma view_enqueue:
  "t \<le> now \<Longrightarrow> queue_step (queue_view q jb t e) (queue_view (snd (enqueue sc k now requested q)) jb now e)"
  using enqueue_step [of "queue_view q jb t e" now sc k requested] by (simp add: queue_view_def)

lemma view_sweep: "t \<le> now \<Longrightarrow> queue_step (queue_view q jb t e) (queue_view (snd (sweep_timeouts now q)) jb now e)"
  using sweep_step [of "queue_view q jb t e" now] by (simp add: queue_view_def)

lemma view_prune: "t \<le> now \<Longrightarrow> queue_step (queue_view q jb t e) (queue_view (prune now q) jb now e)"
  using prune_step [of "queue_view q jb t e" now] by (simp add: queue_view_def)

lemma view_start:
  "t \<le> now \<Longrightarrow> next_ready now q = Some i \<Longrightarrow> mark_decrypting i now q = (Some g, q') \<Longrightarrow>
   queue_step (queue_view q None t e) (queue_view q' (Some (i, g)) now e)"
  using start_step [of "queue_view q None t e" now i g q'] by (simp add: queue_view_def)

lemma view_complete:
  "t \<le> now \<Longrightarrow> queue_step (queue_view q (Some (i, g)) t e) (queue_view (snd (complete i g now q)) None now (Some now))"
  using complete_step [of "queue_view q (Some (i, g)) t e" now i g] by (simp add: queue_view_def)

lemma view_fail:
  "t \<le> now \<Longrightarrow> queue_step (queue_view q (Some (i, g)) t e) (queue_view (fail i now q) None now (Some now))"
  using fail_step [of "queue_view q (Some (i, g)) t e" now i g] by (simp add: queue_view_def)

text \<open>Time passes: denying a request that does not exist changes nothing else.\<close>

lemma view_idle: "t \<le> now \<Longrightarrow> queue_step (queue_view q jb t e) (queue_view q jb now e)"
proof -
  assume "t \<le> now"
  obtain i where "i \<notin> rid ` set (requests q)"
    using ex_new_if_finite [OF infinite_UNIV_nat finite_imageI [OF finite_set]] by metis
  then have "find (\<lambda>r. rid r = i) (requests q) = None"
    by (auto simp: find_None_iff)
  then have "snd (deny i now q) = q"
    by (simp add: deny_def close_request_def)
  then show ?thesis
    using view_deny [OF \<open>t \<le> now\<close>, of q jb e i] by simp
qed

lemma view_idle_after:
  "queue_step (queue_view q jb t e) (queue_view q' jb' t' e') \<Longrightarrow> t' \<le> now \<Longrightarrow>
   queue_step\<^sup>*\<^sup>* (queue_view q jb t e) (queue_view q' jb' now e')"
  by (meson r_into_rtranclp rtranclp.rtrancl_into_rtrancl view_idle)

section \<open>What each critical section does to the queue\<close>

lemma kill_active_simps [simp]:
  "b_queue (kill_active i b) = b_queue b" "b_grants (kill_active i b) = b_grants b"
  "b_receipts (kill_active i b) = b_receipts b" "b_registry (kill_active i b) = b_registry b"
  "b_config (kill_active i b) = b_config b" "b_lock_epoch (kill_active i b) = b_lock_epoch b"
  "b_failures (kill_active i b) = b_failures b" "b_capability_grants (kill_active i b) = b_capability_grants b"
  "b_instance (kill_active i b) = b_instance b"
  by (auto simp: kill_active_def split: option.splits)

lemma fold_kill_active_simps [simp]:
  "b_queue (fold kill_active is b) = b_queue b" "b_grants (fold kill_active is b) = b_grants b"
  "b_receipts (fold kill_active is b) = b_receipts b" "b_registry (fold kill_active is b) = b_registry b"
  "b_config (fold kill_active is b) = b_config b" "b_lock_epoch (fold kill_active is b) = b_lock_epoch b"
  by (induction "is" arbitrary: b) auto

text \<open>Only denials and \<open>LOCK\<close> touch the queue among the verbs answered at once.\<close>

lemma register_queue: "b_queue (snd (register_request t n p b)) = b_queue b"
  by (simp add: register_request_def split: result.split prod.split)

lemma unregister_queue: "b_queue (snd (unregister_request n b)) = b_queue b"
  by (simp add: unregister_request_def split: prod.split)

lemma redeem_queue: "b_queue (snd (redeem_request m h c b)) = b_queue b"
  by (simp add: redeem_request_def split: result.split prod.split option.split)

lemma deny_queue: "b_queue (snd (deny_request m i b)) = snd (deny i (m_now1 m) (b_queue b))"
  by (simp add: deny_request_def split: prod.split bool.split)

lemma lock_queue:
  "b_queue (snd (lock_request m b)) =
     (case b_active b of None \<Rightarrow> b_queue b | Some (i, _) \<Rightarrow> snd (deny i (m_now1 m) (b_queue b)))"
  by (simp add: lock_request_def Let_def split: option.split prod.split)

lemma snd_answer [simp]: "snd (answer x) = snd x"
  by (cases x) simp

lemma dispatch_queue:
  "b_queue (snd (dispatch m r caller b)) = b_queue b
   \<or> (\<exists>i. b_queue (snd (dispatch m r caller b)) = snd (deny i (m_now1 m) (b_queue b)))"
  by (cases r) (auto simp: register_queue unregister_queue redeem_queue deny_queue lock_queue split: option.splits)

lemma arrive_eq: "arrive m r caller b = (th, b') \<Longrightarrow> b' = snd (dispatch m r caller b)"
  by (auto split: prod.splits dispatched.splits)

lemma resolve_access_queue: "b_queue (snd (resolve_access m a caller b)) = b_queue b"
  by (simp add: resolve_access_def split: result.split prod.split)

lemma approval_begin_queue:
  "b_queue (snd (approval_begin m sc k ff req b)) = b_queue b
   \<or> b_queue (snd (approval_begin m sc k ff req b)) = snd (enqueue sc k (m_now2 m) req (b_queue b))"
  by (auto simp: approval_begin_def approval_enqueue_def cached_approval_def
      split: result.splits prod.splits option.splits if_splits)

lemma approval_poll_queue:
  "b_queue (snd (approval_poll m i dl src b)) = b_queue b
   \<or> b_queue (snd (approval_poll m i dl src b)) = snd (timeout i (m_now2 m) (b_queue b))"
  by (auto simp: approval_poll_def split: option.splits request_state.splits)

lemma finish_authorization_queue:
  "finish_authorization m cap e d b = Some (d', b') \<Longrightarrow> b_queue b' = b_queue b"
  by (auto simp: finish_authorization_def split: outcome.splits option.splits prod.splits result.splits if_splits)

lemma advance_queue:
  assumes "advance m th b = Some (th', b')"
  shows "b_queue b' = b_queue b
     \<or> (\<exists>sc k req. b_queue b' = snd (enqueue sc k (m_now2 m) req (b_queue b)))
     \<or> (\<exists>i. b_queue b' = snd (timeout i (m_now2 m) (b_queue b)))"
proof (cases th)
  case (Resolving c)
  then have "b_queue b' = b_queue b"
    using assms resolve_access_queue [of m "c_access c" "c_caller c" b]
    by (force split: prod.splits result.splits)
  then show ?thesis ..
next
  case (Beginning c sc k)
  then have "b' = snd (approval_begin m sc k (c_force_fresh c) (a_requested_ttl (c_access c)) b)"
    using assms by (auto split: prod.splits approval_start.splits)
  then show ?thesis
    using approval_begin_queue by metis
next
  case (Polling c sc k i dl src)
  then have "b' = snd (approval_poll m i dl src b)"
    using assms by (auto split: prod.splits option.splits)
  then show ?thesis
    using approval_poll_queue by metis
next
  case (Minting cap e d)
  then show ?thesis
    using assms finish_authorization_queue by (auto split: option.splits)
qed (use assms in auto)

definition swept_queue :: "instant \<Rightarrow> queue \<Rightarrow> queue" where
  "swept_queue now q = prune now (snd (sweep_timeouts now q))"

lemma worker_sweep_queue: "b_queue (worker_sweep m b) = swept_queue (m_now1 m) (b_queue b)"
  by (simp add: worker_sweep_def swept_queue_def Let_def split: prod.split)

lemma mark_decrypting_describe:
  assumes "mark_decrypting i now q = (Some g, q')"
  shows "\<exists>r \<in> set (requests q). rid r = i \<and> rstate r = Pending \<and> describe i q' = Some (rscope r, rkey r, rttl r)"
proof -
  obtain r where r: "find (\<lambda>r. rid r = i) (requests q) = Some r" "rstate r = Pending"
    "requests q' = map_first (\<lambda>r. rid r = i) (\<lambda>r. r\<lparr>rstate := Decrypting, rgen := g\<rparr>) (requests q)"
    using assms by (auto simp: mark_decrypting_def Let_def split: if_splits option.splits)
  have "find (\<lambda>r. rid r = i) (map_first (\<lambda>r. rid r = i) (\<lambda>r. r\<lparr>rstate := Decrypting, rgen := g\<rparr>) xs)
      = map_option (\<lambda>r. r\<lparr>rstate := Decrypting, rgen := g\<rparr>) (find (\<lambda>r. rid r = i) xs)" for xs :: "pending_request list"
    by (induction xs) auto
  then have "describe i q' = Some (rscope r, rkey r, rttl r)"
    using r by (simp add: describe_def)
  then show ?thesis
    using r find_SomeD [OF r(1)] by blast
qed

lemma worker_take_cases:
  assumes "worker_take m b = (j, b')"
  shows "(j = None \<and> b' = worker_sweep m b)
     \<or> (\<exists>i g q' r. next_ready (m_now1 m) (b_queue (worker_sweep m b)) = Some i
          \<and> mark_decrypting i (m_now1 m) (b_queue (worker_sweep m b)) = (Some g, q')
          \<and> r \<in> set (requests (b_queue (worker_sweep m b))) \<and> rid r = i \<and> rstate r = Pending
          \<and> describe i q' = Some (rscope r, rkey r, rttl r)
          \<and> j = Some \<lparr>j_id = i, j_scope = rscope r, j_key = rkey r, j_generation = g,
                      j_lock_epoch = b_lock_epoch (worker_sweep m b), j_requested_ttl = rttl r\<rparr>
          \<and> b' = (worker_sweep m b)\<lparr>b_queue := q'\<rparr>)"
proof -
  let ?b = "worker_sweep m b"
  show ?thesis
  proof (cases "next_ready (m_now1 m) (b_queue ?b)")
    case None
    then show ?thesis
      using assms by (simp add: worker_take_def Let_def)
  next
    case (Some i)
    obtain o' q' where mk: "mark_decrypting i (m_now1 m) (b_queue ?b) = (o', q')"
      by fastforce
    show ?thesis
    proof (cases o')
      case None
      then have "q' = b_queue ?b"
        using mk by (auto simp: mark_decrypting_def Let_def split: if_splits option.splits)
      then show ?thesis
        using assms Some mk None by (simp add: worker_take_def Let_def)
    next
      case (Some g)
      obtain r where "r \<in> set (requests (b_queue ?b))" "rid r = i" "rstate r = Pending"
          "describe i q' = Some (rscope r, rkey r, rttl r)"
        using mark_decrypting_describe mk Some by metis
      then show ?thesis
        using assms \<open>next_ready _ _ = Some i\<close> mk Some by (auto simp: worker_take_def Let_def)
    qed
  qed
qed

lemma worker_finish_queue:
  "b_queue (worker_finish m j decrypted b) =
     (case decrypted of
        Ok d \<Rightarrow> snd (worker_complete m j (kill_active (j_id j) b))
      | Err e \<Rightarrow> fail (j_id j) (m_now1 m) (b_queue b))"
  by (simp add: worker_finish_def Let_def split: result.split prod.split bool.split)

lemma worker_complete_kill [simp]: "worker_complete m j (kill_active i b) = worker_complete m j b"
  by (simp add: worker_complete_def)

lemma worker_started_queue [simp]: "b_queue (worker_started j pg b) = b_queue b"
  by (simp add: worker_started_def)

lemma started_frame [simp]:
  "b_grants (worker_started j pg b) = b_grants b" "b_receipts (worker_started j pg b) = b_receipts b"
  "b_registry (worker_started j pg b) = b_registry b" "b_lock_epoch (worker_started j pg b) = b_lock_epoch b"
  "b_config (worker_started j pg b) = b_config b"
  by (simp_all add: worker_started_def)

section \<open>The simulation\<close>

lemma machine_okD:
  assumes "machine_ok s m"
  shows "s_clock s \<le> m_now1 m" "m_now1 m \<le> m_now2 m" "m_now2 m \<le> m_now3 m" "s_clock s \<le> m_now2 m"
    "m_now1 m \<le> m_now3 m" "s_clock s \<le> m_now3 m"
  using assms by (auto simp: machine_ok_def)

lemma simulate_thread:
  assumes "machine_ok s m"
    and "q' = b_queue (s_broker s) \<or> (\<exists>i. q' = snd (deny i (m_now1 m) (b_queue (s_broker s))))
      \<or> (\<exists>sc k req. q' = snd (enqueue sc k (m_now2 m) req (b_queue (s_broker s))))
      \<or> (\<exists>i. q' = snd (timeout i (m_now2 m) (b_queue (s_broker s))))"
  shows "queue_step\<^sup>*\<^sup>* (system_view s) (queue_view q' (job_view (s_job s)) (m_now3 m) (s_ended s))"
  using assms(2) unfolding system_view_def
  by (elim disjE exE)
    (auto intro: view_idle_after view_deny view_enqueue view_timeout r_into_rtranclp [of queue_step] view_idle
      machine_okD [OF assms(1)])

lemma sweep_view:
  assumes "machine_ok s m" and "s_job s = None"
  shows "queue_step\<^sup>*\<^sup>* (system_view s)
     (queue_view (swept_queue (m_now1 m) (b_queue (s_broker s))) None (m_now1 m) (s_ended s))"
  using view_sweep [OF machine_okD(1) [OF assms(1)], of "b_queue (s_broker s)" None "s_ended s"]
    view_prune [OF order_refl [of "m_now1 m"], of "snd (sweep_timeouts (m_now1 m) (b_queue (s_broker s)))" None "s_ended s"]
  by (simp add: system_view_def swept_queue_def assms(2) job_view_def)

lemma simulate_take:
  assumes "machine_ok s m" and "s_job s = None" and "worker_take m (s_broker s) = (j, b')"
  shows "queue_step\<^sup>*\<^sup>* (system_view s) (queue_view (b_queue b') (job_view j) (m_now3 m) (s_ended s))"
proof -
  let ?q = "b_queue (s_broker s)" and ?now = "m_now1 m"
  note swept = sweep_view [OF assms(1,2)]
  have "queue_step\<^sup>*\<^sup>* (queue_view (swept_queue ?now ?q) None ?now (s_ended s))
      (queue_view (b_queue b') (job_view j) (m_now3 m) (s_ended s))"
    using worker_take_cases [OF assms(3)]
  proof (elim disjE exE conjE)
    assume "j = None" "b' = worker_sweep m (s_broker s)"
    then show ?thesis
      using r_into_rtranclp [of queue_step, OF view_idle [OF machine_okD(5) [OF assms(1)]]]
      by (simp add: worker_sweep_queue job_view_def)
  next
    fix i g q' r
    assume *: "next_ready ?now (b_queue (worker_sweep m (s_broker s))) = Some i"
      "mark_decrypting i ?now (b_queue (worker_sweep m (s_broker s))) = (Some g, q')"
      "j = Some \<lparr>j_id = i, j_scope = rscope r, j_key = rkey r, j_generation = g,
                      j_lock_epoch = b_lock_epoch (worker_sweep m (s_broker s)), j_requested_ttl = rttl r\<rparr>"
      "b' = (worker_sweep m (s_broker s))\<lparr>b_queue := q'\<rparr>"
    have "queue_step (queue_view (swept_queue ?now ?q) None ?now (s_ended s)) (queue_view q' (Some (i, g)) ?now (s_ended s))"
      using * by (intro view_start) (auto simp: worker_sweep_queue)
    then show ?thesis
      using * machine_okD(5) [OF assms(1)] by (auto simp: job_view_def intro: view_idle_after)
  qed
  then show ?thesis
    using swept by (meson rtranclp_trans)
qed

lemma simulate_finish:
  assumes "machine_ok s m" and "s_job s = Some j"
  shows "queue_step\<^sup>*\<^sup>* (system_view s)
     (queue_view (b_queue (worker_finish m j decrypted (s_broker s))) None (m_now3 m)
        (Some (if is_ok decrypted then m_now2 m else m_now1 m)))"
proof (cases decrypted)
  case (Ok d)
  let ?q = "b_queue (s_broker s)" and ?jb = "Some (j_id j, j_generation j)"
  have "\<exists>q. queue_step\<^sup>*\<^sup>* (queue_view ?q ?jb (s_clock s) (s_ended s)) (queue_view q ?jb (m_now1 m) (s_ended s))
      \<and> worker_complete m j (s_broker s) = complete (j_id j) (j_generation j) (m_now2 m) q"
  proof (cases "b_lock_epoch (s_broker s) \<noteq> j_lock_epoch j
      \<or> \<not> session_is_active m (j_scope j) (b_registry (s_broker s))")
    case True
    then show ?thesis
      using r_into_rtranclp [of queue_step, OF view_deny [OF machine_okD(1) [OF assms(1)]]]
      by (intro exI [of _ "snd (deny (j_id j) (m_now1 m) ?q)"]) (simp add: worker_complete_def Let_def)
  next
    case False
    then show ?thesis
      using r_into_rtranclp [of queue_step, OF view_idle [OF machine_okD(1) [OF assms(1)]]]
      by (intro exI [of _ ?q]) (simp add: worker_complete_def Let_def)
  qed
  then obtain q where q: "queue_step\<^sup>*\<^sup>* (queue_view ?q ?jb (s_clock s) (s_ended s)) (queue_view q ?jb (m_now1 m) (s_ended s))"
      "worker_complete m j (s_broker s) = complete (j_id j) (j_generation j) (m_now2 m) q"
    by blast
  have "queue_step\<^sup>*\<^sup>* (queue_view q ?jb (m_now1 m) (s_ended s))
      (queue_view (snd (complete (j_id j) (j_generation j) (m_now2 m) q)) None (m_now3 m) (Some (m_now2 m)))"
    by (rule view_idle_after [OF view_complete]) (auto intro: machine_okD [OF assms(1)])
  with q(1) have "queue_step\<^sup>*\<^sup>* (queue_view ?q ?jb (s_clock s) (s_ended s))
      (queue_view (snd (complete (j_id j) (j_generation j) (m_now2 m) q)) None (m_now3 m) (Some (m_now2 m)))"
    by (rule rtranclp_trans)
  then show ?thesis
    using Ok q(2) assms(2) by (simp add: system_view_def job_view_def worker_finish_queue)
next
  case (Err e)
  then show ?thesis
    using assms(2) view_idle_after [OF view_fail machine_okD(5) [OF assms(1)]] machine_okD(1) [OF assms(1)]
    by (simp add: system_view_def job_view_def worker_finish_queue)
qed

lemma broker_step_simulates: "broker_step s s' \<Longrightarrow> queue_step\<^sup>*\<^sup>* (system_view s) (system_view s')"
proof (induction rule: broker_step.induct)
  case (arrive_step s m r caller th b' n)
  then show ?case
    using simulate_thread [OF arrive_step(1), of "b_queue b'"] dispatch_queue [of m r caller "s_broker s"] arrive_eq
    by (fastforce simp: system_view_def)
next
  case (advance_step s m n th b')
  then show ?case
    using simulate_thread [OF advance_step(1), of "b_queue b'"] advance_queue [OF advance_step(2)]
    by (auto simp: system_view_def)
next
  case (take_step s m j b')
  then show ?case
    using simulate_take [OF take_step] by (simp add: system_view_def)
next
  case (finish_step s m j env decrypted)
  then show ?case
    using simulate_finish [OF finish_step(1,2), of decrypted] by (simp add: system_view_def job_view_def)
qed (simp add: system_view_def)

lemma broker_init_simulates: "broker_init s \<Longrightarrow> system_init (system_view s)"
  by (auto simp: broker_init_def system_init_def system_view_def queue_view_def job_view_def broker_new_def)

interpretation broker_queue: simulation broker_init broker_step system_init queue_step system_view
  by unfold_locales (rule broker_init_simulates broker_step_simulates, assumption)+

end
