(* ===== verification/BrokerHistory.thy ===== *)
theory BrokerHistory
  imports BrokerSafety
begin

text \<open>
  What the broker holds is tied to what the human approved.  The history invariant says that every
  cached value, every receipt and every granted request comes from a completed ceremony, that
  values and receipts are of the current lock epoch, and that sessions with cached values are
  registered.  Identifiers are 64-bit counters that saturate, so the invariant is stated for runs
  that have not used them up.
\<close>

section \<open>How a queue evolves\<close>

definition request_ident :: "pending_request \<Rightarrow> request_id \<times> scope \<times> secret_name" where
  "request_ident r = (rid r, rscope r, rkey r)"

text \<open>
  Requests keep their identity and are granted only if listed in \<open>G\<close>; new ones have new identifiers
  and are not granted either unless listed.
\<close>

definition evolves :: "request_id set \<Rightarrow> queue \<Rightarrow> queue \<Rightarrow> bool" where
  "evolves G q q' \<longleftrightarrow>
     next_id q \<le> next_id q'
     \<and> (\<forall>r' \<in> set (requests q').
          (\<exists>r \<in> set (requests q). request_ident r = request_ident r'
             \<and> (rstate r' = Granted \<longrightarrow> rstate r = Granted \<or> rid r' \<in> G))
          \<or> (next_id q \<le> rid r' \<and> rid r' < next_id q' \<and> (rstate r' = Granted \<longrightarrow> rid r' \<in> G)))"

lemma evolves_refl [simp]: "evolves G q q"
  by (auto simp: evolves_def)

lemma evolves_mono: "evolves G q q' \<Longrightarrow> G \<subseteq> H \<Longrightarrow> evolves H q q'"
  unfolding evolves_def by blast

lemma request_ident_eq:
  "request_ident r = request_ident r' \<longleftrightarrow> rid r = rid r' \<and> rscope r = rscope r' \<and> rkey r = rkey r'"
  by (simp add: request_ident_def)

lemma evolves_trans:
  assumes "evolves G q q'" and "evolves G q' q''"
  shows "evolves G q q''"
  unfolding evolves_def
proof (intro conjI ballI)
  show "next_id q \<le> next_id q''"
    using assms unfolding evolves_def by linarith
  fix r'' assume "r'' \<in> set (requests q'')"
  then consider (old) r' where "r' \<in> set (requests q')" "request_ident r' = request_ident r''"
      "rstate r'' = Granted \<longrightarrow> rstate r' = Granted \<or> rid r'' \<in> G"
    | (new) "next_id q' \<le> rid r''" "rid r'' < next_id q''" "rstate r'' = Granted \<longrightarrow> rid r'' \<in> G"
    using assms(2) unfolding evolves_def by blast
  then show "(\<exists>r \<in> set (requests q). request_ident r = request_ident r''
      \<and> (rstate r'' = Granted \<longrightarrow> rstate r = Granted \<or> rid r'' \<in> G))
      \<or> (next_id q \<le> rid r'' \<and> rid r'' < next_id q'' \<and> (rstate r'' = Granted \<longrightarrow> rid r'' \<in> G))"
  proof cases
    case old
    consider r where "r \<in> set (requests q)" "request_ident r = request_ident r'"
        "rstate r' = Granted \<longrightarrow> rstate r = Granted \<or> rid r' \<in> G"
      | "next_id q \<le> rid r'" "rid r' < next_id q'" "rstate r' = Granted \<longrightarrow> rid r' \<in> G"
      using assms(1) old(1) unfolding evolves_def by blast
    then show ?thesis
    proof cases
      case 1
      then show ?thesis
        using old by (intro disjI1 bexI [of _ r]) (auto simp: request_ident_eq)
    next
      case 2
      moreover have "next_id q' \<le> next_id q''"
        using assms(2) by (simp add: evolves_def)
      ultimately show ?thesis
        using old by (auto simp: request_ident_eq)
    qed
  next
    case new
    then show ?thesis
      using assms(1) unfolding evolves_def by auto
  qed
qed

text \<open>Updates of single requests that keep identity.\<close>

lemma evolves_update:
  assumes "set (requests q') \<subseteq> f ` set (requests q)" and "next_id q' = next_id q"
    and "\<And>r. r \<in> set (requests q) \<Longrightarrow> request_ident (f r) = request_ident r"
    and "\<And>r. r \<in> set (requests q) \<Longrightarrow> rstate (f r) = Granted \<Longrightarrow> rstate r = Granted \<or> rid r \<in> G"
  shows "evolves G q q'"
  unfolding evolves_def
proof (intro conjI ballI disjI1)
  fix r' assume "r' \<in> set (requests q')"
  then obtain r where r: "r \<in> set (requests q)" "r' = f r"
    using assms(1) by auto
  then have "request_ident r = request_ident r'" "rstate r' = Granted \<longrightarrow> rstate r = Granted \<or> rid r' \<in> G"
    using assms(3,4) [OF r(1)] by (auto simp: request_ident_eq)
  then show "\<exists>r \<in> set (requests q). request_ident r = request_ident r'
      \<and> (rstate r' = Granted \<longrightarrow> rstate r = Granted \<or> rid r' \<in> G)"
    using r(1) by blast
qed (simp add: assms(2))

lemma map_first_range: "set (map_first P f xs) \<subseteq> (\<lambda>x. if P x then f x else x) ` set xs \<union> set xs"
  by (induction xs) auto

lemma map_first_mem: "y \<in> set (map_first P f xs) \<Longrightarrow> y \<in> set xs \<or> (\<exists>x \<in> set xs. P x \<and> y = f x)"
  by (induction xs) (auto split: if_splits)

lemma evolves_map_first:
  assumes "requests q' = map_first P f (requests q)" and "next_id q' = next_id q"
    and "\<And>r. r \<in> set (requests q) \<Longrightarrow> P r \<Longrightarrow> request_ident (f r) = request_ident r"
    and "\<And>r. r \<in> set (requests q) \<Longrightarrow> P r \<Longrightarrow> rstate (f r) = Granted \<Longrightarrow> rid r \<in> G"
  shows "evolves G q q'"
  unfolding evolves_def
proof (intro conjI ballI disjI1)
  fix r' assume "r' \<in> set (requests q')"
  then consider "r' \<in> set (requests q)" | r where "r \<in> set (requests q)" "P r" "r' = f r"
    using assms(1) map_first_mem by metis
  then show "\<exists>r \<in> set (requests q). request_ident r = request_ident r'
      \<and> (rstate r' = Granted \<longrightarrow> rstate r = Granted \<or> rid r' \<in> G)"
  proof cases
    case 2
    then show ?thesis
      using assms(3,4) by (intro bexI [of _ r]) (auto simp: request_ident_eq)
  qed blast
qed (simp add: assms(2))

lemma evolves_finish [simp]: "evolves G q (finish i now q') \<longleftrightarrow> evolves G q q'"
  by (simp add: evolves_def)

lemma evolves_close_request:
  assumes "st \<noteq> Granted" shows "evolves G q (snd (close_request st i now q))"
proof (cases "find (\<lambda>r. rid r = i) (requests q)")
  case (Some r)
  have "evolves G q (q\<lparr>requests := map_first (\<lambda>r. rid r = i) (close_with st) (requests q)\<rparr>)"
    using assms by (intro evolves_map_first [where P = "\<lambda>r. rid r = i" and f = "close_with st"])
      (auto simp: request_ident_eq)
  then show ?thesis
    using Some by (simp add: close_request_def)
qed (simp add: close_request_def)

lemma evolves_deny [simp]: "evolves G q (snd (deny i now q))"
  by (simp add: deny_def evolves_close_request)

lemma evolves_timeout [simp]: "evolves G q (snd (timeout i now q))"
  by (simp add: timeout_def evolves_close_request)

lemma evolves_fail [simp]: "evolves G q (fail i now q)"
  unfolding fail_def evolves_finish
  by (intro evolves_map_first [where P = "\<lambda>r. rid r = i" and f = "\<lambda>r. r\<lparr>rstate := Failed\<rparr>"])
    (auto simp: request_ident_eq)

lemma evolves_sweep [simp]: "evolves G q (snd (sweep_timeouts now q))"
proof -
  let ?f = "\<lambda>r. if overdue now (ttl (limits q)) r then close_with TimedOutR r else r"
  have "evolves G q (q\<lparr>requests := map ?f (requests q)\<rparr>)"
    by (intro evolves_update [where f = ?f]) (auto simp: request_ident_eq split: if_splits)
  then show ?thesis
    by (simp add: sweep_timeouts_def Let_def evolves_def fold_finish)
qed

lemma evolves_prune [simp]: "evolves G q (prune now q)"
  by (intro evolves_update [where f = id]) (auto simp: prune_def Let_def)

lemma evolves_swept [simp]: "evolves G q (swept_queue now q)"
  unfolding swept_queue_def by (rule evolves_trans [OF evolves_sweep evolves_prune])

lemma evolves_mark: "mark_decrypting i now q = (g, q') \<Longrightarrow> evolves G q q'"
proof -
  assume mk: "mark_decrypting i now q = (g, q')"
  show ?thesis
  proof (cases g)
    case None
    then have "q' = q"
      using mk by (auto simp: mark_decrypting_def Let_def split: if_splits option.splits)
    then show ?thesis
      by simp
  next
    case (Some n)
    have "requests q' = map_first (\<lambda>r. rid r = i) (\<lambda>r. r\<lparr>rstate := Decrypting, rgen := n\<rparr>) (requests q)"
      "next_id q' = next_id q"
      using mk Some by (auto simp: mark_decrypting_def Let_def split: if_splits option.splits)
    then show ?thesis
      by (rule evolves_map_first) (auto simp: request_ident_eq)
  qed
qed

lemma evolves_complete: "evolves {i} q (snd (complete i g now q))"
  unfolding complete_def Let_def snd_conv evolves_finish
  by (auto intro!: evolves_map_first [where P = "\<lambda>r. rid r = i" and f = "\<lambda>r. r\<lparr>rstate := Granted\<rparr>"]
      simp: request_ident_eq)

lemma evolves_complete_False: "\<not> still_current i g q \<Longrightarrow> evolves G q (snd (complete i g now q))"
  by (simp add: complete_def)

lemma evolves_enqueue: "next_id q < u64_max \<Longrightarrow> evolves G q (snd (enqueue sc k now req q))"
  by (auto simp: enqueue_def Let_def push_request_def evolves_def sat_add64_def split: option.splits if_splits)

text \<open>What \<open>enqueue\<close> answers: a request for this scope and key, a new one for a capability.\<close>

lemma enqueue_Ok:
  assumes "enqueue sc k now req q = (Ok i, q')" and "ids_inv q" and "next_id q < u64_max"
  shows "i < next_id q' \<and> (\<forall>r \<in> set (requests q'). rid r = i \<longrightarrow> rscope r = sc \<and> rkey r = k)
     \<and> (is_capability_key k \<longrightarrow> i = next_id q)"
proof (cases "if is_capability_key k then None
       else find (\<lambda>r. rscope r = sc \<and> rkey r = k \<and> is_active r) (requests q)")
  case None
  then have "i = next_id q" "q' = push_request sc k now req q"
    using assms(1) by (auto simp: enqueue_def Let_def split: if_splits)
  then show ?thesis
    using assms(2,3) by (auto simp: push_request_def sat_add64_def ids_inv_def)
next
  case (Some e)
  then have e: "e \<in> set (requests q)" "rscope e = sc" "rkey e = k" "\<not> is_capability_key k"
    by (auto split: if_splits dest: find_SomeD)
  moreover have "i = rid e" "q' = q"
    using assms(1) Some by (auto simp: enqueue_def Let_def split: if_splits)
  moreover have "r = e" if "r \<in> set (requests q)" "rid r = rid e" for r
    using that e(1) assms(2) by (auto simp: ids_inv_def distinct_map inj_on_def)
  ultimately show ?thesis
    using assms(2) by (auto simp: ids_inv_def)
qed

section \<open>The history invariant\<close>

definition backs :: "ceremony \<Rightarrow> grant \<Rightarrow> bool" where
  "backs c g \<longleftrightarrow>
     cer_scope c = gscope g \<and> cer_key c = gkey g \<and> cer_value c = gvalue g \<and> cer_at c = gcreated g \<and> cer_ttl c = gttl g"

definition grants_backed :: "broker \<Rightarrow> ceremony list \<Rightarrow> bool" where
  "grants_backed b cs \<longleftrightarrow> (\<forall>g \<in> set (b_grants b). \<exists>c \<in> set cs. backs c g \<and> cer_epoch c = b_lock_epoch b)"

definition receipts_backed :: "broker \<Rightarrow> ceremony list \<Rightarrow> bool" where
  "receipts_backed b cs \<longleftrightarrow>
     (\<forall>e \<in> set (b_receipts b). \<exists>c \<in> set cs. cer_key c = key_name (entry_cap e) \<and> cer_epoch c = b_lock_epoch b)"

definition registered :: "broker \<Rightarrow> bool" where
  "registered b \<longleftrightarrow>
     (\<forall>g \<in> set (b_grants b). \<forall>t. gscope g = Session t \<longrightarrow> t \<in> token ` set (sessions (b_registry b)))"

definition ceremonies_ok :: "broker \<Rightarrow> ceremony list \<Rightarrow> bool" where
  "ceremonies_ok b cs \<longleftrightarrow>
     b_lock_epoch b \<le> u64_max
     \<and> (\<forall>c \<in> set cs. cer_id c < next_id (b_queue b) \<and> cer_epoch c \<le> b_lock_epoch b
          \<and> cer_ttl c \<le> max (max_grant (b_config b)) (max_requested_grant (b_config b)))
     \<and> (\<forall>r \<in> set (requests (b_queue b)). rstate r = Granted \<longrightarrow>
          (\<exists>c \<in> set cs. (cer_id c, cer_scope c, cer_key c) = request_ident r))"

definition job_ok :: "broker \<Rightarrow> job option \<Rightarrow> bool" where
  "job_ok b jb \<longleftrightarrow>
     (\<forall>j. jb = Some j \<longrightarrow> j_id j < next_id (b_queue b) \<and> j_lock_epoch j \<le> b_lock_epoch b
        \<and> (\<forall>r \<in> set (requests (b_queue b)). rid r = j_id j \<longrightarrow> rscope r = j_scope j \<and> rkey r = j_key j \<and> rstate r \<noteq> Granted))
     \<and> (\<forall>i pg. b_active b = Some (i, pg) \<longrightarrow> (\<exists>j. jb = Some j \<and> j_id j = i))"

definition call_ok :: "broker \<Rightarrow> call \<Rightarrow> bool" where
  "call_ok b c \<longleftrightarrow>
     (c_return_value c \<longrightarrow> \<not> is_capability_key (a_key (c_access c)))
     \<and> (\<forall>cap e. c_authorize c = Some (cap, e) \<longrightarrow>
          a_key (c_access c) = key_name cap \<and> e \<le> b_lock_epoch b \<and> \<not> c_return_value c)"

definition authorized_since :: "ceremony list \<Rightarrow> secret_name \<Rightarrow> nat \<Rightarrow> bool" where
  "authorized_since cs k e \<longleftrightarrow> (\<exists>c \<in> set cs. cer_key c = k \<and> e \<le> cer_epoch c)"

fun thread_ok :: "broker \<Rightarrow> ceremony list \<Rightarrow> thread \<Rightarrow> bool" where
  "thread_ok b cs Idle \<longleftrightarrow> True"
| "thread_ok b cs (Done d) \<longleftrightarrow> True"
| "thread_ok b cs (Resolving c) \<longleftrightarrow> call_ok b c"
| "thread_ok b cs (Beginning c sc k) \<longleftrightarrow> call_ok b c \<and> k = a_key (c_access c)"
| "thread_ok b cs (Polling c sc k i deadline source) \<longleftrightarrow>
     call_ok b c \<and> k = a_key (c_access c) \<and> i < next_id (b_queue b)
     \<and> (\<forall>r \<in> set (requests (b_queue b)). rid r = i \<longrightarrow> rscope r = sc \<and> rkey r = k)
     \<and> (\<forall>cap e. c_authorize c = Some (cap, e) \<longrightarrow> (\<forall>cer \<in> set cs. cer_id cer = i \<longrightarrow> e \<le> cer_epoch cer))"
| "thread_ok b cs (Answering c sc k a) \<longleftrightarrow>
     call_ok b c \<and> k = a_key (c_access c)
     \<and> (\<forall>source i cap e. a = Approved source (Some i) \<longrightarrow> c_authorize c = Some (cap, e) \<longrightarrow> authorized_since cs k e)"
| "thread_ok b cs (Minting cap e d) \<longleftrightarrow>
     released_bytes (d_outcome d) = None
     \<and> (\<forall>flds i. d_outcome d = OutFields flds \<longrightarrow> d_request_id d = Some i \<longrightarrow> authorized_since cs (key_name cap) e)"

definition history_inv :: "system \<Rightarrow> bool" where
  "history_inv s \<longleftrightarrow>
     grants_backed (s_broker s) (s_ceremonies s) \<and> receipts_backed (s_broker s) (s_ceremonies s)
     \<and> registered (s_broker s) \<and> ceremonies_ok (s_broker s) (s_ceremonies s)
     \<and> job_ok (s_broker s) (s_job s) \<and> (\<forall>n. thread_ok (s_broker s) (s_ceremonies s) (s_threads s n))"

section \<open>Sections that only take away\<close>

definition quiet :: "broker \<Rightarrow> broker \<Rightarrow> bool" where
  "quiet b b' \<longleftrightarrow>
     set (b_grants b') \<subseteq> set (b_grants b) \<and> set (b_receipts b') \<subseteq> set (b_receipts b)
     \<and> (b_lock_epoch b' = b_lock_epoch b
        \<or> b_lock_epoch b \<le> b_lock_epoch b' \<and> b_lock_epoch b' \<le> u64_max \<and> b_grants b' = [] \<and> b_receipts b' = [])
     \<and> evolves {} (b_queue b) (b_queue b') \<and> (b_active b' = b_active b \<or> b_active b' = None)
     \<and> b_config b' = b_config b"

lemma quiet_refl [simp]: "quiet b b"
  by (simp add: quiet_def)

lemma quiet_epoch: "quiet b b' \<Longrightarrow> b_lock_epoch b \<le> b_lock_epoch b'"
  by (auto simp: quiet_def)

lemma evolves_ident:
  assumes "evolves G q q'" and "r' \<in> set (requests q')" and "rid r' < next_id q"
  shows "\<exists>r \<in> set (requests q). request_ident r = request_ident r' \<and> (rstate r' = Granted \<longrightarrow> rstate r = Granted \<or> rid r' \<in> G)"
  using assms unfolding evolves_def by (meson not_le)

lemma quiet_backed:
  assumes "quiet b b'"
  shows "grants_backed b cs \<Longrightarrow> grants_backed b' cs" and "receipts_backed b cs \<Longrightarrow> receipts_backed b' cs"
  using assms by (auto simp: quiet_def grants_backed_def receipts_backed_def)

lemma quiet_ceremonies:
  assumes "quiet b b'" and "ceremonies_ok b cs" shows "ceremonies_ok b' cs"
  unfolding ceremonies_ok_def
proof (intro conjI ballI impI)
  show "b_lock_epoch b' \<le> u64_max"
    using assms by (auto simp: quiet_def ceremonies_ok_def)
next
  fix c assume "c \<in> set cs"
  then show "cer_id c < next_id (b_queue b')" "cer_epoch c \<le> b_lock_epoch b'"
      "cer_ttl c \<le> max (max_grant (b_config b')) (max_requested_grant (b_config b'))"
    using assms quiet_epoch [OF assms(1)] by (force simp: quiet_def ceremonies_ok_def evolves_def)+
next
  fix r' assume r': "r' \<in> set (requests (b_queue b'))" "rstate r' = Granted"
  have "evolves {} (b_queue b) (b_queue b')"
    using assms(1) by (simp add: quiet_def)
  then obtain r where "r \<in> set (requests (b_queue b))" "request_ident r = request_ident r'" "rstate r = Granted"
    using r' unfolding evolves_def by blast
  then show "\<exists>c \<in> set cs. (cer_id c, cer_scope c, cer_key c) = request_ident r'"
    using assms(2) by (force simp: ceremonies_ok_def)
qed

lemma quiet_job:
  assumes "quiet b b'" and "job_ok b jb" shows "job_ok b' jb"
  unfolding job_ok_def
proof (intro conjI allI impI ballI)
  fix j assume jb: "jb = Some j"
  have ev: "evolves {} (b_queue b) (b_queue b')"
    using assms(1) by (simp add: quiet_def)
  have j: "j_id j < next_id (b_queue b)" "j_lock_epoch j \<le> b_lock_epoch b"
      "\<And>r. r \<in> set (requests (b_queue b)) \<Longrightarrow> rid r = j_id j \<Longrightarrow>
          rscope r = j_scope j \<and> rkey r = j_key j \<and> rstate r \<noteq> Granted"
    using assms(2) jb by (auto simp: job_ok_def)
  show "j_id j < next_id (b_queue b')" "j_lock_epoch j \<le> b_lock_epoch b'"
    using j ev quiet_epoch [OF assms(1)] by (auto simp: evolves_def)
  fix r' assume "r' \<in> set (requests (b_queue b'))" "rid r' = j_id j"
  then show "rscope r' = j_scope j" "rkey r' = j_key j" "rstate r' \<noteq> Granted"
    using evolves_ident [OF ev, of r'] j by (metis request_ident_eq empty_iff)+
next
  fix i pg assume "b_active b' = Some (i, pg)"
  then have "b_active b = Some (i, pg)"
    using assms(1) unfolding quiet_def by (metis option.distinct(1))
  then show "\<exists>j. jb = Some j \<and> j_id j = i"
    using assms(2) unfolding job_ok_def by blast
qed

text \<open>A thread's claim survives steps of others, which may add ceremonies of the current epoch.\<close>

lemma thread_ok_frame:
  assumes "thread_ok b cs th" and "b_lock_epoch b \<le> b_lock_epoch b'" and "evolves G (b_queue b) (b_queue b')"
    and "\<And>c. c \<in> set new \<Longrightarrow> b_lock_epoch b \<le> cer_epoch c"
  shows "thread_ok b' (cs @ new) th"
proof -
  have call: "call_ok b c \<Longrightarrow> call_ok b' c" for c
    using assms(2) by (fastforce simp: call_ok_def)
  have since: "authorized_since cs k e \<Longrightarrow> authorized_since (cs @ new) k e" for k e
    by (auto simp: authorized_since_def)
  show ?thesis
  proof (cases th)
    case (Polling c sc k i dl src)
    then have ok: "call_ok b c" "k = a_key (c_access c)" "i < next_id (b_queue b)"
        "\<And>r. r \<in> set (requests (b_queue b)) \<Longrightarrow> rid r = i \<Longrightarrow> rscope r = sc \<and> rkey r = k"
        "\<And>cap e cer. c_authorize c = Some (cap, e) \<Longrightarrow> cer \<in> set cs \<Longrightarrow> cer_id cer = i \<Longrightarrow> e \<le> cer_epoch cer"
      using assms(1) by auto
    have "rscope r' = sc \<and> rkey r' = k" if "r' \<in> set (requests (b_queue b'))" "rid r' = i" for r'
      using evolves_ident [OF assms(3) that(1)] that(2) ok(3,4) by (metis request_ident_eq)
    moreover have "e \<le> cer_epoch cer" if "c_authorize c = Some (cap, e)" "cer \<in> set (cs @ new)" "cer_id cer = i" for cap e cer
    proof -
      have "e \<le> b_lock_epoch b"
        using ok(1) that(1) by (auto simp: call_ok_def)
      then show ?thesis
        using that ok(5) assms(4) [of cer] by auto
    qed
    moreover have "i < next_id (b_queue b')"
      using ok(3) assms(3) by (simp add: evolves_def)
    ultimately show ?thesis
      using Polling ok(1,2) call by auto
  next
    case (Answering c sc k a)
    then show ?thesis
      using assms(1) call since by (cases a) auto
  qed (use assms(1) call since in auto)
qed

lemma quiet_thread: "quiet b b' \<Longrightarrow> thread_ok b cs th \<Longrightarrow> thread_ok b' cs th"
  using thread_ok_frame [of b cs th b' "{}" "[]"] quiet_epoch [of b b'] by (simp add: quiet_def)

lemma quiet_step:
  assumes "history_inv s" and "quiet (s_broker s) b'" and "registered b'" and "thread_ok b' (s_ceremonies s) th"
  shows "history_inv (s\<lparr>s_broker := b', s_threads := (s_threads s)(n := th), s_clock := t\<rparr>)"
  using assms quiet_backed [OF assms(2)] quiet_ceremonies [OF assms(2)] quiet_job [OF assms(2)]
    quiet_thread [OF assms(2)]
  by (simp add: history_inv_def)

section \<open>Requests and threads\<close>

lemma kill_active_active: "b_active (kill_active i b) = b_active b \<or> b_active (kill_active i b) = None"
  by (auto simp: kill_active_def split: option.splits)

lemma quiet_kill: "quiet b b' \<Longrightarrow> quiet b (kill_active i b')"
  using kill_active_active [of i b'] by (auto simp: quiet_def)

lemma quiet_grants: "set g \<subseteq> set (b_grants b) \<Longrightarrow> quiet b (b\<lparr>b_grants := g\<rparr>)"
  by (simp add: quiet_def)

lemma quiet_queue: "evolves {} (b_queue b) q \<Longrightarrow> quiet b (b\<lparr>b_queue := q\<rparr>)"
  by (simp add: quiet_def)

lemma redeem_subset: "set (snd (redeem h cap now t)) \<subseteq> set t"
proof -
  have sub: "set (sweep_receipts now t) \<subseteq> set t"
    by (auto simp: sweep_receipts_def)
  have "set (swap_remove i xs) \<subseteq> set xs" if "i < length xs" for i and xs :: "receipt_entry list"
    using mset_swap_remove [OF that] by (metis in_diffD set_mset_mset subsetI)
  then show ?thesis
    using sub by (auto simp: redeem_def Let_def split: option.splits prod.splits dest!: subsetD)
qed

lemma quiet_register: "quiet b (snd (register_request tok name peer b))"
proof -
  have "set (revoke_tokens ts (b_grants b)) \<subseteq> set (b_grants b)" for ts
    by (auto simp: revoke_tokens_def)
  then show ?thesis
    by (simp add: register_request_def quiet_def split: result.split prod.split)
qed

lemma quiet_unregister: "quiet b (snd (unregister_request name b))"
  by (auto simp: unregister_request_def quiet_def revoke_tokens_def split: prod.split)

lemma quiet_redeem: "quiet b (snd (redeem_request m h c b))"
proof (cases "parse_capability c")
  case (Ok cap)
  obtain o' t where ot: "redeem h cap (m_now1 m) (b_receipts b) = (o', t)"
    by fastforce
  then have "set t \<subseteq> set (b_receipts b)"
    using redeem_subset by (metis snd_conv)
  then show ?thesis
    using Ok ot by (simp add: redeem_request_def quiet_def split: prod.split option.split)
qed (simp add: redeem_request_def)

lemma quiet_deny: "quiet b (snd (deny_request m i b))"
  using quiet_kill [OF quiet_queue [OF evolves_deny], of b i i "m_now1 m"]
    quiet_queue [OF evolves_deny, of b i "m_now1 m"]
  by (cases "deny i (m_now1 m) (b_queue b)") (auto simp: deny_request_def split: bool.split)

lemma quiet_lock: "b_lock_epoch b \<le> u64_max \<Longrightarrow> quiet b (snd (lock_request m b))"
  by (auto simp: lock_request_def Let_def quiet_def revoke_all_def clear_receipts_def sat_add64_def split: option.split)

lemma quiet_dispatch: "b_lock_epoch b \<le> u64_max \<Longrightarrow> quiet b (snd (dispatch m r caller b))"
  by (cases r) (auto simp: quiet_register quiet_unregister quiet_redeem quiet_deny quiet_lock)

lemma registered_mono:
  "registered b \<Longrightarrow> set (b_grants b') \<subseteq> set (b_grants b) \<Longrightarrow> b_registry b' = b_registry b \<Longrightarrow> registered b'"
  by (auto simp: registered_def)

lemma revoke_tokens_mem:
  "g \<in> set (revoke_tokens ts t) \<Longrightarrow> gscope g = Session tok \<Longrightarrow> g \<in> set t \<and> tok \<notin> set ts"
  by (auto simp: revoke_tokens_def)

lemma registered_register:
  assumes "registered b" shows "registered (snd (register_request hex name peer b))"
proof (cases "parse_token hex")
  case (Ok tok)
  let ?reg = "\<lparr>token = tok, session = name, root = peer\<rparr>"
  show ?thesis
  proof (cases "list_ex (\<lambda>e. token e = tok) (sessions (b_registry b))")
    case True
    then show ?thesis
      using assms Ok by (auto simp: register_request_def register_def registered_def revoke_tokens_def)
  next
    case False
    let ?old = "sessions (b_registry b)"
    have kept: "t = tok \<or> t \<in> token ` {e \<in> set ?old. session e \<noteq> name}"
      if "t \<in> token ` set ?old" "t \<notin> token ` {e \<in> set ?old. session e = name}" for t
      using that by auto
    have eq: "snd (register_request hex name peer b)
        = b\<lparr>b_registry := (b_registry b)\<lparr>sessions := filter (\<lambda>e. session e \<noteq> name) ?old @ [?reg]\<rparr>,
            b_grants := revoke_tokens (map token (filter (\<lambda>e. session e = name) ?old)) (b_grants b)\<rparr>"
      using Ok False by (simp add: register_request_def register_def)
    show ?thesis
      unfolding registered_def
    proof (intro ballI allI impI)
      fix g t assume g: "g \<in> set (b_grants (snd (register_request hex name peer b)))" "gscope g = Session t"
      then have "g \<in> set (b_grants b)" "t \<notin> token ` {e \<in> set ?old. session e = name}"
        using revoke_tokens_mem [of g "map token (filter (\<lambda>e. session e = name) ?old)" "b_grants b" t] by (auto simp: eq)
      then have "t = tok \<or> t \<in> token ` {e \<in> set ?old. session e \<noteq> name}"
        using assms g(2) kept by (simp add: registered_def)
      then show "t \<in> token ` set (sessions (b_registry (snd (register_request hex name peer b))))"
        by (auto simp: eq)
    qed
  qed
qed (use assms in \<open>simp add: register_request_def\<close>)

lemma registered_unregister: "registered b \<Longrightarrow> registered (snd (unregister_request name b))"
  by (fastforce simp: unregister_request_def unregister_def registered_def revoke_tokens_def)

lemma redeem_request_registry [simp]:
  "b_registry (snd (redeem_request m h c b)) = b_registry b" "b_grants (snd (redeem_request m h c b)) = b_grants b"
  by (simp_all add: redeem_request_def split: result.split prod.split option.split)

lemma deny_request_registry [simp]:
  "b_registry (snd (deny_request m i b)) = b_registry b" "b_grants (snd (deny_request m i b)) = b_grants b"
  by (simp_all add: deny_request_def split: prod.split bool.split)

lemma lock_request_grants [simp]: "b_grants (snd (lock_request m b)) = []"
  by (simp add: lock_request_def Let_def revoke_all_def split: option.split)

lemma registered_dispatch: "registered b \<Longrightarrow> registered (snd (dispatch m r caller b))"
proof (cases r)
  case (Redeem h c)
  assume "registered b"
  then show ?thesis
    using Redeem by (simp add: registered_def)
next
  case (Deny i)
  assume "registered b"
  then show ?thesis
    using Deny by (simp add: registered_def)
next
  case Lock
  then show ?thesis
    by (simp add: registered_def)
qed (auto simp: registered_register registered_unregister)

lemma dispatch_call_ok: "dispatch m r caller b = (Access c, b') \<Longrightarrow> call_ok b' c"
proof (cases r)
  case (Authorize cap tok tty)
  assume "dispatch m r caller b = (Access c, b')"
  then show ?thesis
    using Authorize by (auto simp: authorize_request_def call_ok_def split: result.splits)
qed (auto simp: call_ok_def is_capability_key_def split: if_splits elim: answer.elims)

text \<open>A resolved access keeps its key, and resolving touches only the learnt terminals.\<close>

lemma resolve_access_cases:
  assumes "resolve_access m a caller b = (res, b')"
  shows "quiet b b'" and "registered b \<Longrightarrow> registered b'" and "res = Ok (sc, k) \<Longrightarrow> k = a_key a"
proof -
  have same: "sessions r = sessions (b_registry b)"
    if "resolve (m_descends m) tok (a_tty a) (Some caller) (b_registry b) = (out, r)" for tok out r
    using that sessions_resolve by (metis snd_conv)
  have "\<exists>r. b' = b\<lparr>b_registry := r\<rparr> \<and> sessions r = sessions (b_registry b)"
    using assms same by (auto simp: resolve_access_def split: result.splits prod.splits intro: exI [of _ "b_registry b"])
  then show "quiet b b'" "registered b \<Longrightarrow> registered b'"
    by (auto simp: quiet_def registered_def)
  show "res = Ok (sc, k) \<Longrightarrow> k = a_key a"
    using assms by (auto simp: resolve_access_def parse_name_Ok split: result.splits prod.splits)
qed

lemma cached_approval_cases:
  assumes "cached_approval m sc k ff b = (src, b')"
  shows "b' = b \<or> b' = b\<lparr>b_grants := revoke sc k (b_grants b)\<rparr>"
  using assms by (auto simp: cached_approval_def split: option.splits if_splits prod.splits)

lemma approval_begin_cases:
  assumes "approval_begin m sc k ff req b = (out, b')" and "next_id (b_queue b) < u64_max"
  shows "quiet b b'" and "registered b \<Longrightarrow> registered b'"
    and "out = Waiting i dl src \<Longrightarrow> enqueue sc k (m_now2 m) req (b_queue b) = (Ok i, b_queue b')"
    and "out = Decided (Approved src' (Some i)) \<Longrightarrow> False"
proof -
  obtain src1 b1 where c: "cached_approval m sc k ff b = (src1, b1)"
    by fastforce
  have b1: "quiet b b1" "registered b \<Longrightarrow> registered b1" "b_queue b1 = b_queue b"
    using cached_approval_cases [OF c] by (auto simp: revoke_def registered_def intro!: quiet_grants)
  have "b' = b1 \<or> (\<exists>q. b' = b1\<lparr>b_queue := q\<rparr> \<and> q = snd (enqueue sc k (m_now2 m) req (b_queue b)))"
    using assms(1) c b1(3)
    by (auto simp: approval_begin_def approval_enqueue_def split: option.splits result.splits prod.splits)
  then show "quiet b b'" "registered b \<Longrightarrow> registered b'"
    using b1 evolves_enqueue [OF assms(2)] by (auto simp: quiet_def registered_def)
  show "out = Waiting i dl src \<Longrightarrow> enqueue sc k (m_now2 m) req (b_queue b) = (Ok i, b_queue b')"
    using assms(1) c b1(3)
    by (auto simp: approval_begin_def approval_enqueue_def split: option.splits result.splits prod.splits)
  show "out = Decided (Approved src' (Some i)) \<Longrightarrow> False"
    using assms(1) c
    by (auto simp: approval_begin_def approval_enqueue_def split: option.splits result.splits prod.splits)
qed

lemma approval_poll_cases:
  assumes "approval_poll m i dl src b = (out, b')"
  shows "quiet b b'" and "registered b \<Longrightarrow> registered b'"
    and "out = Some (Approved src' (Some i')) \<Longrightarrow> i' = i \<and> state_of i (b_queue b) = Some Granted"
proof -
  have "b' = b \<or> b' = kill_active i (b\<lparr>b_queue := snd (timeout i (m_now2 m) (b_queue b))\<rparr>)"
    using assms by (auto simp: approval_poll_def split: option.splits request_state.splits)
  then show "quiet b b'" "registered b \<Longrightarrow> registered b'"
    by (auto intro!: quiet_kill quiet_queue simp: registered_def)
  show "out = Some (Approved src' (Some i')) \<Longrightarrow> i' = i \<and> state_of i (b_queue b) = Some Granted"
    using assms by (auto simp: approval_poll_def split: option.splits request_state.splits)
qed

lemma state_of_Some: "state_of i q = Some st \<Longrightarrow> \<exists>r \<in> set (requests q). rid r = i \<and> rstate r = st"
  by (auto simp: state_of_def dest: find_SomeD)

lemma thread_ok_finish_access:
  assumes "\<And>cap e flds i. c_authorize c = Some (cap, e) \<Longrightarrow> d_outcome d = OutFields flds \<Longrightarrow>
      d_request_id d = Some i \<Longrightarrow> authorized_since cs (key_name cap) e"
    and "c_authorize c \<noteq> None \<Longrightarrow> released_bytes (d_outcome d) = None"
  shows "thread_ok b cs (finish_access c d)"
  using assms by (auto split: option.split)

definition thread_inv :: "system \<Rightarrow> bool" where
  "thread_inv s \<longleftrightarrow> history_inv s \<and> ids_inv (b_queue (s_broker s)) \<and> next_id (b_queue (s_broker s)) < u64_max"

lemma advance_quiet:
  assumes "thread_inv s" and "advance m (s_threads s n) (s_broker s) = Some (th, b')"
    and "\<And>cap e d. s_threads s n \<noteq> Minting cap e d"
  shows "quiet (s_broker s) b' \<and> registered b' \<and> thread_ok b' (s_ceremonies s) th"
proof -
  let ?b = "s_broker s" and ?cs = "s_ceremonies s"
  have ok: "thread_ok ?b ?cs (s_threads s n)" "registered ?b" "ceremonies_ok ?b ?cs" "ids_inv (b_queue ?b)"
      "next_id (b_queue ?b) < u64_max"
    using assms(1) by (auto simp: thread_inv_def history_inv_def)
  have frame: "call_ok b' c" if "quiet ?b b'" "call_ok ?b c" for c
    using that quiet_epoch [OF that(1)] by (fastforce simp: call_ok_def)
  show ?thesis
  proof (cases "s_threads s n")
    case (Resolving c)
    obtain res b1 where ra: "resolve_access m (c_access c) (c_caller c) ?b = (res, b1)"
      by fastforce
    have "b' = b1" "(\<exists>sc k. res = Ok (sc, k) \<and> th = Beginning c sc k) \<or> (\<exists>e. th = finish_access c (no_scope e))"
      using assms(2) Resolving ra by (auto split: result.splits prod.splits)
    moreover have "thread_ok b' ?cs (finish_access c (no_scope e))" for e
      by (rule thread_ok_finish_access) (simp_all add: no_scope_def decision_new_def)
    ultimately show ?thesis
      using resolve_access_cases [OF ra] ok Resolving frame by auto
  next
    case (Beginning c sc k)
    obtain out b1 where ab: "approval_begin m sc k (c_force_fresh c) (a_requested_ttl (c_access c)) ?b = (out, b1)"
      by fastforce
    note cases = approval_begin_cases [OF ab ok(5)]
    show ?thesis
    proof (cases out)
      case (Decided a)
      then have "b' = b1" "th = Answering c sc k a"
        using assms(2) Beginning ab by auto
      then show ?thesis
        using cases(1,2,4) ok Beginning frame Decided by auto
    next
      case (Waiting i dl src)
      then have th: "b' = b1" "th = Polling c sc k i dl src"
        using assms(2) Beginning ab by auto
      note enq = enqueue_Ok [OF cases(3) [OF Waiting] ok(4,5)]
      have "e \<le> cer_epoch cer" if "c_authorize c = Some (cap, e)" "cer \<in> set ?cs" "cer_id cer = i" for cap e cer
      proof -
        have "k = key_name cap"
          using ok(1) Beginning that(1) by (auto simp: call_ok_def)
        then have "i = next_id (b_queue ?b)"
          using enq by (simp add: is_capability_key_def key_name_def starts_with_iff)
        then show ?thesis
          using that ok(3) by (auto simp: ceremonies_ok_def)
      qed
      then show ?thesis
        using th cases(1,2) ok(1,2) Beginning frame enq by auto
    qed
  next
    case (Polling c sc k i dl src)
    obtain out b1 where ap: "approval_poll m i dl src ?b = (out, b1)"
      by fastforce
    then obtain a where a: "out = Some a" "b' = b1" "th = Answering c sc k a"
      using assms(2) Polling by (auto split: option.splits)
    have "authorized_since ?cs k e" if auth: "a = Approved src' (Some i')" "c_authorize c = Some (cap, e)" for src' i' cap e
    proof -
      obtain r where r: "r \<in> set (requests (b_queue ?b))" "rid r = i" "rstate r = Granted"
        using approval_poll_cases(3) [OF ap, of src' i'] a(1) auth(1) state_of_Some by blast
      then obtain cer where cer: "cer \<in> set ?cs" "(cer_id cer, cer_scope cer, cer_key cer) = request_ident r"
        using ok(3) by (auto simp: ceremonies_ok_def)
      have "rkey r = k"
        using ok(1) Polling r by auto
      moreover have "e \<le> cer_epoch cer"
        using ok(1) Polling auth(2) cer r(2) by (auto simp: request_ident_def)
      ultimately show ?thesis
        using cer by (auto simp: authorized_since_def request_ident_def)
    qed
    then show ?thesis
      using approval_poll_cases(1,2) [OF ap] a ok Polling frame by auto
  next
    case (Answering c sc k a)
    have "authorized_since ?cs (key_name cap) e"
      if "c_authorize c = Some (cap, e)" "d_outcome (access_decision m (c_access c) (c_return_value c) sc k a ?b) = OutFields flds"
        "d_request_id (access_decision m (c_access c) (c_return_value c) sc k a ?b) = Some i" for cap e flds i
      using that ok(1) Answering by (cases a) (auto simp: access_decision_def call_ok_def)
    moreover have "released_bytes (d_outcome (access_decision m (c_access c) (c_return_value c) sc k a ?b)) = None"
      if "c_authorize c \<noteq> None"
      using that ok(1) Answering by (cases a) (auto simp: access_decision_def call_ok_def)
    ultimately have "thread_ok ?b ?cs (finish_access c (access_decision m (c_access c) (c_return_value c) sc k a ?b))"
      by (rule thread_ok_finish_access)
    then show ?thesis
      using assms(2) Answering ok(2) by auto
  qed (use assms(2,3) in auto)
qed

text \<open>Minting adds at most a receipt of the capability authorised since the epoch was read.\<close>

lemma finish_authorization_cases:
  assumes "finish_authorization m cap e d b = Some (d', b')"
  shows "b' = b \<or> (\<exists>t. b' = b\<lparr>b_receipts := t\<rparr>
      \<and> (set t \<subseteq> set (b_receipts b)
         \<or> (\<exists>flds i new. d_outcome d = OutFields flds \<and> d_request_id d = Some i \<and> b_lock_epoch b = e
              \<and> entry_cap new = cap \<and> set t \<subseteq> insert new (set (b_receipts b)))))"
proof (cases "(\<exists>flds i. d_outcome d = OutFields flds \<and> d_request_id d = Some i) \<and> b_lock_epoch b = e")
  case True
  then obtain flds i where fi: "d_outcome d = OutFields flds" "d_request_id d = Some i" "b_lock_epoch b = e"
    by blast
  then obtain res t where mt: "mint (m_reads m) (m_device m) cap (m_now1 m) (b_receipts b) = Some (res, t)"
      "b' = b\<lparr>b_receipts := t\<rparr>"
    using assms by (auto simp: finish_authorization_def split: option.splits prod.splits result.splits)
  have sub: "set (sweep_receipts (m_now1 m) (b_receipts b)) \<subseteq> set (b_receipts b)"
    by (auto simp: sweep_receipts_def)
  have "set t \<subseteq> set (b_receipts b)
      \<or> (\<exists>new. entry_cap new = cap \<and> set t \<subseteq> insert new (set (b_receipts b)))"
    using mint_cases [OF mt(1)]
  proof (elim disjE exE conjE)
    fix reads i k assume "t = sweep_receipts (m_now1 m) (b_receipts b) @ [\<lparr>entry_id = i, entry_cap = cap, minted = m_now1 m\<rparr>]"
    then show ?thesis
      using sub by (intro disjI2 exI [of _ "\<lparr>entry_id = i, entry_cap = cap, minted = m_now1 m\<rparr>"]) auto
  qed (use sub in auto)
  then show ?thesis
    using fi mt(2) by blast
next
  case False
  then have "b' = b"
    using assms by (auto simp: finish_authorization_def split: outcome.splits option.splits if_splits)
  then show ?thesis ..
qed

lemma mint_step:
  assumes "history_inv s" and "s_threads s n = Minting cap e d"
    and "finish_authorization m cap e d (s_broker s) = Some (d', b')"
  shows "history_inv (s\<lparr>s_broker := b', s_threads := (s_threads s)(n := Done d'), s_clock := t\<rparr>)"
proof -
  let ?b = "s_broker s" and ?cs = "s_ceremonies s"
  have inv: "grants_backed ?b ?cs" "receipts_backed ?b ?cs" "registered ?b" "ceremonies_ok ?b ?cs" "job_ok ?b (s_job s)"
      "\<And>n. thread_ok ?b ?cs (s_threads s n)"
    using assms(1) by (auto simp: history_inv_def)
  have frame: "b' = ?b\<lparr>b_receipts := b_receipts b'\<rparr>"
    using finish_authorization_cases [OF assms(3)] by auto
  have "receipts_backed b' ?cs"
    unfolding receipts_backed_def
  proof
    fix x assume x: "x \<in> set (b_receipts b')"
    show "\<exists>c \<in> set ?cs. cer_key c = key_name (entry_cap x) \<and> cer_epoch c = b_lock_epoch b'"
    proof (cases "x \<in> set (b_receipts ?b)")
      case True
      then show ?thesis
        using inv(2) frame by (metis (no_types, lifting) broker.select_convs(9) broker.surjective broker.update_convs(4) receipts_backed_def)
    next
      case False
      then obtain flds i where fi: "d_outcome d = OutFields flds" "d_request_id d = Some i"
          "b_lock_epoch ?b = e" "entry_cap x = cap"
        using finish_authorization_cases [OF assms(3)] x by fastforce
      then obtain c where c: "c \<in> set ?cs" "cer_key c = key_name cap" "e \<le> cer_epoch c"
        using inv(6) [of n] assms(2) by (auto simp: authorized_since_def)
      have "cer_epoch c \<le> b_lock_epoch ?b" "b_lock_epoch b' = b_lock_epoch ?b"
        using inv(4) c(1) finish_authorization_cases [OF assms(3)] by (auto simp: ceremonies_ok_def)
      then show ?thesis
        using c fi by (intro bexI [of _ c]) auto
    qed
  qed
  moreover have "grants_backed b' ?cs" "registered b'" "ceremonies_ok b' ?cs" "job_ok b' (s_job s)"
    using inv finish_authorization_cases [OF assms(3)]
    by (auto simp: grants_backed_def registered_def ceremonies_ok_def job_ok_def)
  moreover have "thread_ok b' ?cs th" if "thread_ok ?b ?cs th" for th
    using thread_ok_frame [OF that, of b' "{}" "[]"] finish_authorization_cases [OF assms(3)] by auto
  ultimately show ?thesis
    using inv(6) by (simp add: history_inv_def)
qed

end
