(* ===== verification/BrokerProps.thy ===== *)
theory BrokerProps
  imports BrokerHistory
begin

text \<open>
  The history invariant over the worker's sections, the invariant of the whole broker, and the
  broker's properties.
\<close>

section \<open>The worker\<close>

lemma worker_sweep_quiet: "quiet b (worker_sweep m b)"
proof -
  have "b_active (fold kill_active is b) = b_active b \<or> b_active (fold kill_active is b) = None" for "is" b
    using kill_active_active by (induction "is" arbitrary: b) (force, metis fold_simps(2))
  then have "b_active (worker_sweep m b) = b_active b \<or> b_active (worker_sweep m b) = None"
    by (simp add: worker_sweep_def Let_def split: prod.split) (metis broker.select_convs(10) broker.surjective broker.update_convs(6))
  moreover have "evolves {} (b_queue b) (b_queue (worker_sweep m b))"
    by (simp add: worker_sweep_queue)
  ultimately show ?thesis
    by (auto simp: quiet_def worker_sweep_def Let_def revoke_missing_ttys_def revoke_expired_def sweep_receipts_def split: prod.splits)
qed

lemma worker_sweep_registered: "registered b \<Longrightarrow> registered (worker_sweep m b)"
  using worker_sweep_quiet [of b m]
  by (auto simp: registered_def quiet_def worker_sweep_def Let_def split: prod.splits)

lemma deny_cases:
  assumes "ids_inv q"
  shows "snd (deny i now q)
        = finish i now (q\<lparr>requests := map (\<lambda>r. if rid r = i then close_with DeniedR r else r) (requests q)\<rparr>)
    \<or> snd (deny i now q) = q \<and> (\<forall>r \<in> set (requests q). rid r = i \<longrightarrow> \<not> is_active r)"
  unfolding deny_def
  using close_request_cases [OF assms, of i DeniedR now] by (elim disjE bexE conjE) simp_all

lemma deny_not_current:
  assumes "ids_inv q" shows "\<not> still_current i g (snd (deny i now q))"
proof
  assume "still_current i g (snd (deny i now q))"
  then obtain r where r: "r \<in> set (requests (snd (deny i now q)))" "rid r = i" "rstate r = Decrypting"
    unfolding still_current_def list_ex_iff by blast
  show False
    using deny_cases [OF assms, of i now]
  proof (elim disjE conjE)
    assume "snd (deny i now q)
        = finish i now (q\<lparr>requests := map (\<lambda>r. if rid r = i then close_with DeniedR r else r) (requests q)\<rparr>)"
    then have "r \<in> (\<lambda>r. if rid r = i then close_with DeniedR r else r) ` set (requests q)"
      using r(1) by simp
    then obtain x where "r = (if rid x = i then close_with DeniedR x else x)"
      by (rule imageE)
    then show False
      using r(2,3) by (cases "rid x = i") simp_all
  next
    assume "snd (deny i now q) = q" "\<forall>r \<in> set (requests q). rid r = i \<longrightarrow> \<not> is_active r"
    then show False
      using r by (auto simp: is_active_def)
  qed
qed

lemma worker_complete_True:
  assumes "ids_inv (b_queue b)" and "worker_complete m j b = (True, q)"
  shows "b_lock_epoch b = j_lock_epoch j" and "session_is_active m (j_scope j) (b_registry b)"
    and "still_current (j_id j) (j_generation j) (b_queue b)"
    and "q = snd (complete (j_id j) (j_generation j) (m_now2 m) (b_queue b))"
proof -
  have fst_complete: "fst (complete i g now q') = still_current i g q'" for i g now q'
    by (simp add: complete_def Let_def)
  have "\<not> (b_lock_epoch b \<noteq> j_lock_epoch j \<or> \<not> session_is_active m (j_scope j) (b_registry b))"
  proof
    assume "b_lock_epoch b \<noteq> j_lock_epoch j \<or> \<not> session_is_active m (j_scope j) (b_registry b)"
    then have "fst (worker_complete m j b)
        = still_current (j_id j) (j_generation j) (snd (deny (j_id j) (m_now1 m) (b_queue b)))"
      by (simp add: worker_complete_def Let_def fst_complete)
    then show False
      using assms deny_not_current by simp
  qed
  then have eq: "b_lock_epoch b = j_lock_epoch j" "session_is_active m (j_scope j) (b_registry b)"
      "complete (j_id j) (j_generation j) (m_now2 m) (b_queue b) = (True, q)"
    using assms(2) by (auto simp: worker_complete_def Let_def)
  then show "b_lock_epoch b = j_lock_epoch j" "session_is_active m (j_scope j) (b_registry b)"
      "q = snd (complete (j_id j) (j_generation j) (m_now2 m) (b_queue b))"
    by auto
  show "still_current (j_id j) (j_generation j) (b_queue b)"
    using eq(3) fst_complete by (metis fst_conv)
qed

lemma worker_complete_False:
  assumes "worker_complete m j b = (False, q)" shows "evolves G (b_queue b) q"
proof -
  have fc: "evolves G q0 (snd (complete i g now q0))" if "fst (complete i g now q0) = False" for i g now q0
    using that by (intro evolves_complete_False) (simp add: complete_def Let_def)
  show ?thesis
  proof (cases "b_lock_epoch b \<noteq> j_lock_epoch j \<or> \<not> session_is_active m (j_scope j) (b_registry b)")
    case True
    then have "complete (j_id j) (j_generation j) (m_now2 m) (snd (deny (j_id j) (m_now1 m) (b_queue b))) = (False, q)"
      using assms by (simp add: worker_complete_def Let_def)
    then show ?thesis
      using evolves_trans [OF evolves_deny fc] by (metis fst_conv snd_conv)
  next
    case False
    then have "complete (j_id j) (j_generation j) (m_now2 m) (b_queue b) = (False, q)"
      using assms by (simp add: worker_complete_def Let_def)
    then show ?thesis
      using fc by (metis fst_conv snd_conv)
  qed
qed

text \<open>Once the worker is done, no child of its job can be marked active.\<close>

lemma job_done:
  assumes "job_ok b (Some j)" shows "b_active (kill_active (j_id j) b) = None"
  using assms by (cases "b_active b") (auto simp: kill_active_def job_ok_def)

lemma quiet_without_job:
  assumes "quiet b b'" and "b_active b' = None" shows "job_ok b' None"
  using assms by (simp add: job_ok_def)

lemma describe_unique:
  assumes "ids_inv q" and "describe i q = Some (sc, k, req)"
  shows "i < next_id q \<and> (\<forall>r \<in> set (requests q). rid r = i \<longrightarrow> rscope r = sc \<and> rkey r = k)"
proof -
  obtain r where f: "find (\<lambda>r. rid r = i) (requests q) = Some r" and sk: "rscope r = sc" "rkey r = k"
    using assms(2) by (auto simp: describe_def)
  have r: "r \<in> set (requests q)" "rid r = i"
    using find_SomeD [OF f] by simp_all
  have one: "x = r" if "x \<in> set (requests q)" "rid x = i" for x
    using that r assms(1) by (metis (no_types, lifting) distinct_map ids_inv_def inj_on_def)
  have "i < next_id q"
    using r assms(1) by (auto simp: ids_inv_def)
  then show ?thesis
    using one sk by blast
qed

lemma state_unique:
  assumes "ids_inv q" and "state_of i q = Some st" and "r \<in> set (requests q)" and "rid r = i"
  shows "rstate r = st"
proof -
  obtain x where x: "x \<in> set (requests q)" "rid x = i" "rstate x = st"
    using state_of_Some [OF assms(2)] by blast
  then have "x = r"
    using assms by (metis (no_types, lifting) distinct_map ids_inv_def inj_on_def)
  then show ?thesis
    using x by simp
qed

lemma mark_decrypting_state: "mark_decrypting i now q = (Some g, q') \<Longrightarrow> state_of i q' = Some Decrypting"
  by (auto simp: mark_decrypting_def Let_def state_of_def find_map_first split: if_splits option.splits)

lemma take_inv:
  assumes "history_inv s" and "s_job s = None" and "worker_take m (s_broker s) = (j, b')"
    and "ids_inv (b_queue b')"
  shows "history_inv (s\<lparr>s_broker := b', s_job := j, s_clock := t\<rparr>)"
proof -
  let ?b = "s_broker s" and ?cs = "s_ceremonies s" and ?w = "worker_sweep m (s_broker s)"
  have idle: "b_active ?b = None"
    using assms(1,2) by (cases "b_active ?b") (auto simp: history_inv_def job_ok_def)
  have inv: "registered ?b" "job_ok ?b None"
    using assms(1,2) by (auto simp: history_inv_def)
  have "quiet ?b b' \<and> registered b' \<and> job_ok b' j"
    using worker_take_cases [OF assms(3)]
  proof (elim disjE exE conjE)
    assume "j = None" "b' = ?w"
    then show ?thesis
      using inv worker_sweep_quiet [of ?b m] worker_sweep_registered [of ?b m] quiet_job [OF worker_sweep_quiet inv(2)]
      by simp
  next
    fix i g q' r
    assume mk: "mark_decrypting i (m_now1 m) (b_queue ?w) = (Some g, q')"
      and ds: "describe i q' = Some (rscope r, rkey r, rttl r)"
      and j: "j = Some \<lparr>j_id = i, j_scope = rscope r, j_key = rkey r, j_generation = g,
                  j_lock_epoch = b_lock_epoch ?w, j_requested_ttl = rttl r\<rparr>"
      and b': "b' = ?w\<lparr>b_queue := q'\<rparr>"
    have ev: "evolves {} (b_queue ?w) q'"
      by (rule evolves_mark [OF mk])
    have q: "quiet ?b b'"
      using worker_sweep_quiet [of ?b m] evolves_trans [OF _ ev, of "b_queue ?b"] by (auto simp: quiet_def b')
    have ids: "b_active b' = None"
      using q idle by (auto simp: quiet_def)
    have "job_ok b' j"
      using describe_unique [OF _ ds] state_unique [OF _ mark_decrypting_state [OF mk]] assms(4) ids b' j
      by (auto simp: job_ok_def)
    moreover have "registered b'"
      using worker_sweep_registered [OF inv(1), of m] b' by (simp add: registered_def)
    ultimately show ?thesis
      using q by simp
  qed
  then show ?thesis
    using assms(1) quiet_backed [of ?b b' ?cs] quiet_ceremonies [of ?b b' ?cs] quiet_thread [of ?b b' ?cs]
    by (simp add: history_inv_def)
qed

lemma started_inv:
  assumes "history_inv s" and "s_job s = Some j"
  shows "history_inv (s\<lparr>s_broker := worker_started j pg (s_broker s)\<rparr>)"
proof -
  let ?b' = "worker_started j pg (s_broker s)"
  have "job_ok ?b' (s_job s)"
    using assms by (auto simp: history_inv_def job_ok_def worker_started_def)
  moreover have "thread_ok ?b' (s_ceremonies s) th" if "thread_ok (s_broker s) (s_ceremonies s) th" for th
    using thread_ok_frame [OF that, of ?b' "{}" "[]"] by simp
  ultimately show ?thesis
    using assms by (simp add: history_inv_def grants_backed_def receipts_backed_def registered_def ceremonies_ok_def)
qed

lemma finish_quiet:
  assumes "new_ceremonies m j decrypted b = []"
  shows "quiet b (worker_finish m j decrypted b)" and "registered b \<Longrightarrow> registered (worker_finish m j decrypted b)"
    and "b_active (worker_finish m j decrypted b) = b_active (kill_active (j_id j) b)"
proof -
  let ?k = "kill_active (j_id j) b"
  have "\<exists>q f. worker_finish m j decrypted b = ?k\<lparr>b_queue := q, b_failures := f\<rparr> \<and> evolves {} (b_queue b) q"
  proof (cases decrypted)
    case (Ok d)
    then obtain q where "worker_complete m j b = (False, q)"
      using assms by (cases "worker_complete m j b") (auto simp: new_ceremonies_def split: if_splits)
    then show ?thesis
      using Ok worker_complete_False by (auto simp: worker_finish_def Let_def intro!: exI [of _ q] exI [of _ "b_failures ?k"])
  next
    case (Err e)
    then show ?thesis
      by (auto simp: worker_finish_def Let_def)
  qed
  then obtain q f where qf: "worker_finish m j decrypted b = ?k\<lparr>b_queue := q, b_failures := f\<rparr>" "evolves {} (b_queue b) q"
    by blast
  then show "quiet b (worker_finish m j decrypted b)"
    using quiet_kill [OF quiet_refl, of b "j_id j"] by (simp add: quiet_def)
  show "registered b \<Longrightarrow> registered (worker_finish m j decrypted b)"
      "b_active (worker_finish m j decrypted b) = b_active ?k"
    using qf(1) by (simp_all add: registered_def)
qed

text \<open>The one place where a value enters the cache.\<close>

lemma finish_granted:
  assumes "new_ceremonies m j decrypted b = [c]"
  shows "\<exists>d q. decrypted = Ok d \<and> c = ceremony_of m j d b \<and> worker_complete m j b = (True, q)
     \<and> worker_finish m j decrypted b = (kill_active (j_id j) b)\<lparr>b_queue := q,
         b_grants := insert_grant (j_scope j) (j_key j) (dvalue d) (m_now3 m)
           \<lparr>origin_source = dsource d, origin_identity = didentity d\<rparr> (cer_ttl c) (b_grants b)\<rparr>"
proof (cases decrypted)
  case (Ok d)
  obtain ok q where wc: "worker_complete m j b = (ok, q)"
    by fastforce
  have "ok" "c = ceremony_of m j d b"
    using assms Ok wc by (auto simp: new_ceremonies_def split: if_splits)
  then show ?thesis
    using Ok wc by (auto simp: worker_finish_def Let_def ceremony_of_def)
qed (use assms in \<open>simp add: new_ceremonies_def\<close>)

lemma insert_grant_mem:
  "g \<in> set (insert_grant sc k v now og lim t) \<longleftrightarrow>
     g = \<lparr>gscope = sc, gkey = k, gvalue = v, gorigin = og, gcreated = now, gttl = lim\<rparr> \<or> g \<in> set t \<and> \<not> matches sc k g"
  by (auto simp: insert_grant_def)

lemma effective_grant_ttl_bound: "effective_grant_ttl requested backstop ceiling \<le> max backstop ceiling"
  by (auto simp: effective_grant_ttl_def split: option.split)

lemma new_ceremonies_cases: "new_ceremonies m j decrypted b = [] \<or> (\<exists>c. new_ceremonies m j decrypted b = [c])"
  by (auto simp: new_ceremonies_def split: result.split)

text \<open>The three parts of the invariant that the grant of a completed ceremony extends.\<close>

lemma granted_backed:
  assumes "new_ceremonies m j decrypted b = [c]" and "grants_backed b cs"
  shows "grants_backed (worker_finish m j decrypted b) (cs @ [c])"
proof -
  obtain d q where dq: "c = ceremony_of m j d b"
      "worker_finish m j decrypted b = (kill_active (j_id j) b)\<lparr>b_queue := q,
         b_grants := insert_grant (j_scope j) (j_key j) (dvalue d) (m_now3 m)
           \<lparr>origin_source = dsource d, origin_identity = didentity d\<rparr> (cer_ttl c) (b_grants b)\<rparr>"
    using finish_granted [OF assms(1)] by blast
  have c: "cer_epoch c = b_lock_epoch b"
      "backs c \<lparr>gscope = j_scope j, gkey = j_key j, gvalue = dvalue d, gorigin = og, gcreated = m_now3 m, gttl = cer_ttl c\<rparr>" for og
    by (simp_all add: dq(1) ceremony_of_def backs_def)
  show ?thesis
    unfolding grants_backed_def
  proof
    fix g assume "g \<in> set (b_grants (worker_finish m j decrypted b))"
    then consider "backs c g" | "g \<in> set (b_grants b)"
      using c(2) by (auto simp: dq(2) insert_grant_mem)
    then show "\<exists>x \<in> set (cs @ [c]). backs x g \<and> cer_epoch x = b_lock_epoch (worker_finish m j decrypted b)"
      using assms(2) c(1) by cases (auto simp: dq(2) grants_backed_def)
  qed
qed

lemma granted_registered:
  assumes "new_ceremonies m j decrypted b = [c]" and "ids_inv (b_queue b)" and "registered b"
  shows "registered (worker_finish m j decrypted b)"
  unfolding registered_def
proof (intro ballI allI impI)
  obtain d q where d: "decrypted = Ok d" and dq: "worker_complete m j b = (True, q)"
      "worker_finish m j decrypted b = (kill_active (j_id j) b)\<lparr>b_queue := q,
         b_grants := insert_grant (j_scope j) (j_key j) (dvalue d) (m_now3 m)
           \<lparr>origin_source = dsource d, origin_identity = didentity d\<rparr> (cer_ttl c) (b_grants b)\<rparr>"
    using finish_granted [OF assms(1)] by blast
  fix g tok assume g: "g \<in> set (b_grants (worker_finish m j decrypted b))" "gscope g = Session tok"
  then consider "j_scope j = Session tok" | "g \<in> set (b_grants b)"
    by (auto simp: dq(2) insert_grant_mem)
  then show "tok \<in> token ` set (sessions (b_registry (worker_finish m j decrypted b)))"
  proof cases
    case 1
    then obtain r where "registration_of tok (b_registry b) = Some r"
      using worker_complete_True(2) [OF assms(2) dq(1)] by (auto simp: session_is_active_def split: option.splits)
    then have "r \<in> set (sessions (b_registry b))" "token r = tok"
      using find_SomeD by (fastforce simp: registration_of_def)+
    then show ?thesis
      by (auto simp: dq(2))
  next
    case 2
    then show ?thesis
      using assms(3) g(2) by (simp add: dq(2) registered_def)
  qed
qed

lemma granted_ceremonies:
  assumes "ceremonies_ok b cs" and "evolves {cer_id c} (b_queue b) (b_queue b')" and "b_lock_epoch b' = b_lock_epoch b"
    and "cer_id c < next_id (b_queue b)" and "cer_epoch c = b_lock_epoch b" and "b_config b' = b_config b"
    and "cer_ttl c \<le> max (max_grant (b_config b)) (max_requested_grant (b_config b))"
    and "\<And>r. r \<in> set (requests (b_queue b)) \<Longrightarrow> rid r = cer_id c \<Longrightarrow> rscope r = cer_scope c \<and> rkey r = cer_key c"
  shows "ceremonies_ok b' (cs @ [c])"
  unfolding ceremonies_ok_def
proof (intro conjI ballI impI)
  show "b_lock_epoch b' \<le> u64_max"
    using assms(1,3) by (simp add: ceremonies_ok_def)
next
  fix x assume "x \<in> set (cs @ [c])"
  then show "cer_id x < next_id (b_queue b')" "cer_epoch x \<le> b_lock_epoch b'"
      "cer_ttl x \<le> max (max_grant (b_config b')) (max_requested_grant (b_config b'))"
    using assms(1-7) by (auto simp: ceremonies_ok_def evolves_def intro: less_le_trans)
next
  fix r' assume r': "r' \<in> set (requests (b_queue b'))" "rstate r' = Granted"
  then consider r where "r \<in> set (requests (b_queue b))" "request_ident r = request_ident r'"
      "rstate r = Granted \<or> rid r' = cer_id c"
    | "next_id (b_queue b) \<le> rid r'" "rid r' = cer_id c"
    using assms(2) by (auto simp: evolves_def)
  then show "\<exists>x \<in> set (cs @ [c]). (cer_id x, cer_scope x, cer_key x) = request_ident r'"
  proof cases
    case 1
    show ?thesis
    proof (cases "rid r' = cer_id c")
      case True
      then have "rid r = cer_id c"
        using 1(2) by (simp add: request_ident_eq)
      then show ?thesis
        using assms(8) [OF 1(1)] 1(2) True by (intro bexI [of _ c]) (auto simp: request_ident_def)
    next
      case False
      then show ?thesis
        using 1 assms(1) by (force simp: ceremonies_ok_def)
    qed
  next
    case 2
    then show ?thesis
      using assms(4) by simp
  qed
qed

lemma finish_inv:
  assumes "history_inv s" and "s_job s = Some j" and "ids_inv (b_queue (s_broker s))"
  shows "history_inv (s\<lparr>s_broker := worker_finish m j decrypted (s_broker s), s_job := None, s_clock := t, s_ended := e,
     s_ceremonies := s_ceremonies s @ new_ceremonies m j decrypted (s_broker s)\<rparr>)"
proof -
  let ?b = "s_broker s" and ?cs = "s_ceremonies s" and ?b' = "worker_finish m j decrypted (s_broker s)"
  have inv: "grants_backed ?b ?cs" "receipts_backed ?b ?cs" "registered ?b" "ceremonies_ok ?b ?cs" "job_ok ?b (Some j)"
      "\<And>n. thread_ok ?b ?cs (s_threads s n)"
    using assms(1,2) by (auto simp: history_inv_def)
  note idle = job_done [OF inv(5)]
  show ?thesis
  proof (cases "new_ceremonies m j decrypted ?b = []")
    case True
    note fq = finish_quiet [OF True]
    have "job_ok ?b' None"
      using fq(3) idle by (simp add: job_ok_def)
    then show ?thesis
      using True fq inv quiet_backed [OF fq(1)] quiet_ceremonies [OF fq(1)] quiet_thread [OF fq(1)]
      by (simp add: history_inv_def)
  next
    case False
    then obtain c where one: "new_ceremonies m j decrypted ?b = [c]"
      using new_ceremonies_cases by blast
    obtain d q where dq: "c = ceremony_of m j d ?b" "worker_complete m j ?b = (True, q)"
        "b_queue ?b' = q" "b_lock_epoch ?b' = b_lock_epoch ?b" "b_receipts ?b' = b_receipts ?b"
        "b_active ?b' = b_active (kill_active (j_id j) ?b)" "b_config ?b' = b_config ?b"
      using finish_granted [OF one] by auto
    have ev: "evolves {j_id j} (b_queue ?b) (b_queue ?b')"
      unfolding dq(3) worker_complete_True(4) [OF assms(3) dq(2)] by (rule evolves_complete)
    have c: "cer_id c = j_id j" "cer_scope c = j_scope j" "cer_key c = j_key j" "cer_epoch c = b_lock_epoch ?b"
      by (simp_all add: dq(1) ceremony_of_def)
    have lifetime: "cer_ttl c \<le> max (max_grant (b_config ?b)) (max_requested_grant (b_config ?b))"
      by (simp add: dq(1) ceremony_of_def effective_grant_ttl_bound)
    have "ceremonies_ok ?b' (?cs @ [c])"
      using inv(4,5) ev dq(4,7) c lifetime by (intro granted_ceremonies) (auto simp: job_ok_def)
    moreover have "thread_ok ?b' (?cs @ [c]) (s_threads s n)" for n
      using thread_ok_frame [OF inv(6) [of n], of ?b' "{j_id j}" "[c]"] ev c(4) dq(4) by simp
    moreover have "receipts_backed ?b' (?cs @ [c])" "job_ok ?b' None"
      using inv(2) dq idle by (auto simp: receipts_backed_def job_ok_def)
    ultimately show ?thesis
      using one granted_backed [OF one inv(1)] granted_registered [OF one assms(3) inv(3)] by (simp add: history_inv_def)
  qed
qed

section \<open>The invariant of the broker\<close>

definition unspent :: "system \<Rightarrow> bool" where
  "unspent s \<longleftrightarrow> next_id (b_queue (s_broker s)) < u64_max"

definition broker_inv :: "system \<Rightarrow> bool" where
  "broker_inv s \<longleftrightarrow> system_inv (system_view s) \<and> (unspent s \<longrightarrow> history_inv s)"

lemma queue_of_view [simp]: "queue_of (system_view s) = b_queue (s_broker s)"
  by (simp add: system_view_def queue_view_def)

lemma broker_inv_ids: "broker_inv s \<Longrightarrow> unspent s \<Longrightarrow> ids_inv (b_queue (s_broker s))"
  by (auto simp: broker_inv_def system_inv_def core_inv_def unspent_def)

lemma view_unspent:
  assumes "system_inv (system_view s)" and "queue_step\<^sup>*\<^sup>* (system_view s) (system_view s')" and "unspent s'"
  shows "unspent s"
  using next_id_steps [OF assms(2)] assms(1,3) by (auto simp: system_inv_def unspent_def)

lemma history_inv_init: "broker_init s \<Longrightarrow> history_inv s"
  by (auto simp: broker_init_def broker_new_def history_inv_def grants_backed_def receipts_backed_def registered_def
      ceremonies_ok_def job_ok_def queue_new_def)

lemma history_inv_step:
  assumes "broker_step s s'" and "history_inv s" and "ids_inv (b_queue (s_broker s))" and "unspent s"
    and "ids_inv (b_queue (s_broker s'))"
  shows "history_inv s'"
  using assms
proof (induction rule: broker_step.induct)
  case (arrive_step s m r caller th b' n)
  have q: "quiet (s_broker s) b'" "registered b'"
    using arrive_eq [OF arrive_step(2)] quiet_dispatch registered_dispatch arrive_step(3)
    by (auto simp: history_inv_def ceremonies_ok_def)
  have "thread_ok b' (s_ceremonies s) th"
    using arrive_step(2) dispatch_call_ok by (auto split: prod.splits dispatched.splits)
  then show ?case
    by (rule quiet_step [OF arrive_step(3) q])
next
  case (advance_step s m n th b')
  show ?case
  proof (cases "\<exists>cap e d. s_threads s n = Minting cap e d")
    case True
    then show ?thesis
      using advance_step(2,3) mint_step by (auto split: option.splits)
  next
    case False
    then have "quiet (s_broker s) b' \<and> registered b' \<and> thread_ok b' (s_ceremonies s) th"
      using advance_step by (intro advance_quiet) (auto simp: thread_inv_def unspent_def)
    then show ?thesis
      using quiet_step [OF advance_step(3)] by blast
  qed
next
  case (take_step s m j b')
  then show ?case
    using take_inv [OF take_step(4,2,3)] by simp
next
  case (started_step s j pg)
  then show ?case
    by (intro started_inv)
next
  case (finish_step s m j env decrypted)
  then show ?case
    by (intro finish_inv)
qed

interpretation broker_sys: invariant_system broker_init broker_step broker_inv
proof (unfold_locales, goal_cases)
  case (1 s)
  then show ?case
    using broker_init_simulates queue_sys.inv_init history_inv_init by (simp add: broker_inv_def)
next
  case (2 s t)
  have steps: "queue_step\<^sup>*\<^sup>* (system_view s) (system_view t)"
    by (rule broker_step_simulates [OF 2(2)])
  have inv: "system_inv (system_view s)" "system_inv (system_view t)"
    using 2(1) queue_sys.steps_inv [OF steps] by (auto simp: broker_inv_def)
  show ?case
    unfolding broker_inv_def
  proof (intro conjI impI inv(2))
    assume t: "unspent t"
    then have s: "unspent s"
      using view_unspent [OF inv(1) steps] by blast
    then show "history_inv t"
      using history_inv_step [OF 2(2)] 2(1) t inv broker_inv_ids
      by (metis broker_inv_def core_inv_def queue_of_view system_inv_def unspent_def)
  qed
qed

lemma reach_history: "reach broker_init broker_step s \<Longrightarrow> unspent s \<Longrightarrow> history_inv s"
  using broker_sys.reach_inv by (simp add: broker_inv_def)

lemma lookup_mem:
  "lookup t sc k now = Some (v, src, ident) \<Longrightarrow> \<exists>g \<in> set t. gscope g = sc \<and> gkey g = k \<and> gvalue g = v \<and> grant_live now g"
  by (auto simp: lookup_def matches_def dest: find_SomeD)

lemma advance_bytes:
  assumes "advance m th b = Some (Done d, b')" and "d_outcome d = OutBytes v" and "thread_ok b cs th"
  shows "\<exists>c sc k a. th = Answering c sc k a \<and> d = access_decision m (c_access c) (c_return_value c) sc k a b"
proof (cases th)
  case (Resolving c)
  then show ?thesis
    using assms by (auto simp: no_scope_def decision_new_def split: prod.splits result.splits option.splits)
next
  case (Minting cap e x)
  then have "finish_authorization m cap e x b = Some (d, b')"
    using assms(1) by (auto split: option.splits)
  then have "d_outcome x = OutBytes v"
    using assms(2) receipt_mint_failure.simps
    by (auto simp: finish_authorization_def split: outcome.splits option.splits prod.splits result.splits if_splits mint_error.splits
        elim: receipt_mint_failure.elims)
  then show ?thesis
    using assms(3) Minting by simp
qed (use assms in \<open>auto split: prod.splits option.splits approval_start.splits\<close>)

lemma redeem_entry:
  assumes "fst (redeem h cap now t) \<noteq> None" shows "\<exists>x \<in> set t. entry_cap x = cap"
proof -
  obtain i where "i < length (sweep_receipts now t)" "entry_cap (sweep_receipts now t ! i) = cap"
    using assms by (auto simp: redeem_def Let_def split: option.splits prod.splits if_splits)
  then have "sweep_receipts now t ! i \<in> set (sweep_receipts now t)" "entry_cap (sweep_receipts now t ! i) = cap"
    by simp_all
  then show ?thesis
    by (auto simp: sweep_receipts_def)
qed

lemma unspent_steps:
  "reach broker_init broker_step s \<Longrightarrow> broker_step\<^sup>*\<^sup>* s t \<Longrightarrow> unspent t \<Longrightarrow> unspent s"
  using view_unspent broker_queue.steps_view broker_sys.reach_inv unfolding broker_inv_def by blast

lemma epoch_step:
  assumes "broker_step s t" and "history_inv s" and "ids_inv (b_queue (s_broker s))" and "unspent s"
  shows "b_lock_epoch (s_broker s) \<le> b_lock_epoch (s_broker t)"
  using assms
proof (induction rule: broker_step.induct)
  case (arrive_step s m r caller th b' n)
  then show ?case
    using quiet_epoch [OF quiet_dispatch] arrive_eq [OF arrive_step(2)]
    by (auto simp: history_inv_def ceremonies_ok_def)
next
  case (advance_step s m n th b')
  show ?case
  proof (cases "\<exists>cap e d. s_threads s n = Minting cap e d")
    case True
    then obtain cap e d d' where "finish_authorization m cap e d (s_broker s) = Some (d', b')"
      using advance_step(2) by (auto split: option.splits)
    then show ?thesis
      using finish_authorization_cases by fastforce
  next
    case False
    then have "quiet (s_broker s) b'"
      using advance_step advance_quiet [of s m n th b'] by (auto simp: thread_inv_def unspent_def)
    then show ?thesis
      using quiet_epoch by simp
  qed
next
  case (take_step s m j b')
  then show ?case
    using worker_take_cases [OF take_step(3)] quiet_epoch [OF worker_sweep_quiet] by auto
next
  case (finish_step s m j env decrypted)
  have "b_lock_epoch (worker_finish m j decrypted (s_broker s)) = b_lock_epoch (s_broker s)"
    by (simp add: worker_finish_def Let_def split: result.split prod.split bool.split)
  then show ?case
    by simp
qed simp

lemma epoch_steps:
  assumes "broker_step\<^sup>*\<^sup>* s t" and "reach broker_init broker_step s" and "unspent t"
  shows "b_lock_epoch (s_broker s) \<le> b_lock_epoch (s_broker t)"
  using assms
proof (induction rule: rtranclp_induct)
  case (step y z)
  have y: "reach broker_init broker_step y"
    by (rule reach_steps [OF step(1,4)])
  then have un: "unspent y"
    using unspent_steps r_into_rtranclp [of broker_step, OF step(2)] step(5) by blast
  have "b_lock_epoch (s_broker y) \<le> b_lock_epoch (s_broker z)"
    using epoch_step [OF step(2)] reach_history [OF y un] broker_inv_ids [OF broker_sys.reach_inv [OF y] un] un by blast
  then show ?case
    using step un by simp
qed simp

lemma stale_not_granted:
  assumes "job_ok b (Some j)" and "quiet b b'"
  shows "state_of (j_id j) (b_queue b') \<noteq> Some Granted"
proof
  assume "state_of (j_id j) (b_queue b') = Some Granted"
  then show False
    using quiet_job [OF assms(2,1)] state_of_Some by (fastforce simp: job_ok_def)
qed

section \<open>Properties\<close>

text \<open>C1: A secret value leaves the broker only on the strength of a touch: whenever a connection is
  answered with bytes, under any interleaving, they are the value that a completed hardware
  ceremony decrypted for the very scope and key of that request, in the current lock epoch, and
  less time has passed since than the lifetime given to it, which never exceeds the configured
  ceilings; and they are never the value behind a capability.\<close>

theorem release_needs_ceremony:
  assumes "reach broker_init broker_step s" and "unspent s"
    and "advance m (s_threads s n) (s_broker s) = Some (Done d, b')" and "d_outcome d = OutBytes v"
  shows "\<exists>c sc k a. s_threads s n = Answering c sc k a \<and> \<not> is_capability_key k
     \<and> (\<exists>cer \<in> set (s_ceremonies s). cer_scope cer = sc \<and> cer_key cer = k \<and> cer_value cer = v
          \<and> cer_epoch cer = b_lock_epoch (s_broker s) \<and> m_now1 m - cer_at cer < cer_ttl cer
          \<and> cer_ttl cer \<le> max (max_grant (b_config (s_broker s))) (max_requested_grant (b_config (s_broker s))))"
proof -
  have inv: "history_inv s"
    by (rule reach_history [OF assms(1,2)])
  obtain c sc k a where th: "s_threads s n = Answering c sc k a"
      "d = access_decision m (c_access c) (c_return_value c) sc k a (s_broker s)"
    using advance_bytes [OF assms(3,4), of "s_ceremonies s"] inv by (auto simp: history_inv_def)
  obtain src ident where look: "c_return_value c" "lookup (b_grants (s_broker s)) sc k (m_now1 m) = Some (v, src, ident)"
    using assms(4) unfolding th(2) by (auto simp: access_decision_def split: approval.splits option.splits if_splits)
  obtain g where g: "g \<in> set (b_grants (s_broker s))" "gscope g = sc" "gkey g = k" "gvalue g = v" "grant_live (m_now1 m) g"
    using lookup_mem [OF look(2)] by blast
  obtain cer where cer: "cer \<in> set (s_ceremonies s)" "backs cer g" "cer_epoch cer = b_lock_epoch (s_broker s)"
    using inv g(1) by (auto simp: history_inv_def grants_backed_def)
  have "thread_ok (s_broker s) (s_ceremonies s) (Answering c sc k a)"
    using inv th(1) unfolding history_inv_def by metis
  then have "\<not> is_capability_key k"
    using look(1) by (auto simp: call_ok_def)
  moreover have "cer_ttl cer \<le> max (max_grant (b_config (s_broker s))) (max_requested_grant (b_config (s_broker s)))"
    using inv cer(1) by (auto simp: history_inv_def ceremonies_ok_def)
  ultimately show ?thesis
    using th(1) g cer by (auto simp: backs_def grant_live_def duration_since_def)
qed

text \<open>C2: A capability is redeemed only after a touch for that capability in the current lock epoch:
  whenever \<open>REDEEM\<close> succeeds in a reachable state, a completed ceremony of the current epoch
  decrypted the capability's own key.\<close>

theorem redeem_needs_ceremony:
  assumes "reach broker_init broker_step s" and "unspent s"
    and "redeem_request m receipt_hex cap_text (s_broker s) = (d, b')" and "d_outcome d = OutFields flds"
  shows "\<exists>cap. parse_capability cap_text = Ok cap
     \<and> (\<exists>cer \<in> set (s_ceremonies s). cer_key cer = key_name cap \<and> cer_epoch cer = b_lock_epoch (s_broker s))"
proof -
  obtain cap where cap: "parse_capability cap_text = Ok cap"
      "fst (redeem receipt_hex cap (m_now1 m) (b_receipts (s_broker s))) \<noteq> None"
    using assms(3,4)
    by (auto simp: redeem_request_def decision_new_def split: result.splits option.splits prod.splits)
  then have "\<exists>x \<in> set (b_receipts (s_broker s)). entry_cap x = cap"
    using redeem_entry by blast
  then show ?thesis
    using reach_history [OF assms(1,2)] cap(1) by (auto simp: history_inv_def receipts_backed_def)
qed


text \<open>C7: No cached value outlives its session's registration: in every reachable state the token of
  each cached session grant is registered, so unregistering or displacing a session also drops
  its values, and a decrypt that finishes after the session is gone is not cached.\<close>

theorem cached_sessions_registered:
  assumes "reach broker_init broker_step s" and "unspent s" and "g \<in> set (b_grants (s_broker s))"
    and "gscope g = Session t"
  shows "registration_of t (b_registry (s_broker s)) \<noteq> None"
  using reach_history [OF assms(1,2)] assms(3,4)
  by (auto simp: history_inv_def registered_def registration_of_def find_None_iff)

text \<open>C8: The broker implements the queue system: every step of threads and worker, with all the
  handlers around the queue, is a sequence of queue operations, so that the broker only reaches
  states in which the queue's guarantees hold.\<close>

theorem broker_refines_queue:
  assumes "reach broker_init broker_step s" and "broker_step s s'"
  shows "reach system_init queue_step (system_view s) \<and> queue_step\<^sup>*\<^sup>* (system_view s) (system_view s')"
  using broker_queue.reach_view [OF assms(1)] broker_queue.sim_step [OF assms(2)] by blast


text \<open>Only the main lane can wait for a human: every request routed to the fast, control or
  subscription lane is answered in one critical section, so \<open>LOCK\<close> and \<open>DENY\<close> never queue behind
  an approval on their lane.\<close>

theorem only_main_lane_waits:
  assumes "request_lane r \<noteq> MainLane"
  shows "\<exists>d b'. arrive m r caller b = (Done d, b')"
  using assms by (cases r) (auto split: prod.split dispatched.split elim: answer.elims)

text \<open>A cached value is used exactly when it is live, a fresh touch is not required, and the key's
  backing file is still the one it was decrypted from; in every other case nothing is cached for
  that scope and key afterwards.\<close>

theorem cached_approval_iff:
  assumes "table_inv (b_grants b)"
  shows "(fst (cached_approval m sc k force_fresh b) = Some source \<longleftrightarrow>
      \<not> force_fresh \<and> (\<exists>v ident. lookup (b_grants b) sc k (m_now1 m) = Some (v, source, ident)
        \<and> key_identity (m_fs m) (b_store b) k = Ok ident))
   \<and> (fst (cached_approval m sc k force_fresh b) = None \<longrightarrow>
      lookup (b_grants (snd (cached_approval m sc k force_fresh b))) sc k (m_now1 m) = None)"
proof (cases "lookup (b_grants b) sc k (m_now1 m)")
  case None
  then show ?thesis
    by (simp add: cached_approval_def)
next
  case (Some entry)
  have "lookup (revoke sc k (b_grants b)) sc k (m_now1 m) = None"
    using grants.get_del [OF assms, of "(sc, k)" "(sc, k)" "m_now1 m"] by (simp add: cache_get_def)
  then show ?thesis
    using Some by (cases entry) (auto simp: cached_approval_def)
qed

section \<open>Spacing of touches\<close>

lemma queue_step_limits: "queue_step s t \<Longrightarrow> limits (queue_of t) = limits (queue_of s)"
proof (induction rule: queue_step.induct)
  case (enqueue_step s now sc k requested)
  then show ?case
    by (simp add: enqueue_def Let_def push_request_def split: option.split)
next
  case (start_step s now i g q')
  then show ?case
    by (auto simp: mark_decrypting_def Let_def split: if_splits option.splits)
qed (simp_all add: complete_def fail_def deny_def timeout_def close_request_def sweep_timeouts_def prune_def
    fold_finish Let_def split: option.split)

lemma queue_steps_limits: "queue_step\<^sup>*\<^sup>* s t \<Longrightarrow> limits (queue_of t) = limits (queue_of s)"
  by (induction rule: rtranclp_induct) (auto dest: queue_step_limits)

lemma dispatch_config: "b_config (snd (dispatch m r caller b)) = b_config b"
proof (cases r)
  case (Redeem h c)
  then show ?thesis
    by (simp add: redeem_request_def split: result.split option.split prod.split)
next
  case (Deny i)
  then show ?thesis
    by (simp add: deny_request_def split: prod.split bool.split)
next
  case Lock
  then show ?thesis
    by (simp add: lock_request_def Let_def split: option.split)
qed (simp_all add: register_request_def unregister_request_def split: result.split prod.split)

lemma advance_config: "advance m th b = Some (th', b') \<Longrightarrow> b_config b' = b_config b"
proof (cases th)
  case (Resolving c)
  assume "advance m th b = Some (th', b')"
  moreover obtain res b1 where "resolve_access m (c_access c) (c_caller c) b = (res, b1)"
    by fastforce
  ultimately show ?thesis
    using Resolving resolve_access_cases(1) by (auto simp: quiet_def split: result.splits prod.splits)
next
  case (Beginning c sc k)
  assume "advance m th b = Some (th', b')"
  then have "b' = snd (approval_begin m sc k (c_force_fresh c) (a_requested_ttl (c_access c)) b)"
    using Beginning by (auto split: prod.splits approval_start.splits)
  then show ?thesis
    by (simp add: approval_begin_def cached_approval_def approval_enqueue_def
        split: prod.split option.split result.split)
next
  case (Polling c sc k i dl src)
  assume "advance m th b = Some (th', b')"
  then have "b' = snd (approval_poll m i dl src b)"
    using Polling by (auto split: prod.splits option.splits)
  then show ?thesis
    using approval_poll_cases(1) [of m i dl src b] by (cases "approval_poll m i dl src b") (auto simp: quiet_def)
next
  case (Minting cap e d)
  assume "advance m th b = Some (th', b')"
  then show ?thesis
    using Minting finish_authorization_cases [of m cap e d b] by (fastforce split: option.splits)
qed auto

lemma broker_step_config: "broker_step s t \<Longrightarrow> b_config (s_broker t) = b_config (s_broker s)"
proof (induction rule: broker_step.induct)
  case (arrive_step s m r caller th b' n)
  then show ?case
    using dispatch_config [of m r caller "s_broker s"] arrive_eq [OF arrive_step(2)] by simp
next
  case (advance_step s m n th b')
  then show ?case
    using advance_config by simp
next
  case (take_step s m j b')
  then show ?case
    using worker_take_cases [OF take_step(3)] worker_sweep_quiet [of "s_broker s" m] by (auto simp: quiet_def)
next
  case (finish_step s m j env decrypted)
  then show ?case
    by (simp add: worker_finish_def Let_def split: result.split prod.split bool.split)
qed simp

definition config_inv :: "system \<Rightarrow> bool" where
  "config_inv s \<longleftrightarrow>
     validate (b_config (s_broker s)) \<and> limits (b_queue (s_broker s)) = config_limits (b_config (s_broker s))"

interpretation broker_config: invariant_system broker_init broker_step config_inv
proof (unfold_locales, goal_cases)
  case (1 s)
  then show ?case
    by (auto simp: broker_init_def config_inv_def broker_new_def queue_new_def)
next
  case (2 s t)
  then show ?case
    using broker_step_config [OF 2(2)] queue_steps_limits [OF broker_step_simulates [OF 2(2)]]
    by (simp add: config_inv_def)
qed

text \<open>C6: One touch never opens two secrets: with a key that caches touches for 15 seconds, whenever
  the worker starts a decrypt in any reachable state of a broker that passed its start-up
  validation, more than 15 seconds have passed since the previous decrypt ended.\<close>

theorem touch_spacing:
  assumes "reach broker_init broker_step s" and "unspent s" and "policy (b_config (s_broker s)) = Cached"
    and "machine_ok s m" and "s_job s = None" and "worker_take m (s_broker s) = (Some j, b')" and "s_ended s = Some e"
  shows "e + from_secs 15 < m_now1 m"
proof -
  let ?q = "swept_queue (m_now1 m) (b_queue (s_broker s))"
  let ?v = "queue_view ?q None (m_now1 m) (s_ended s)"
  obtain i g q' where mk: "mark_decrypting i (m_now1 m) ?q = (Some g, q')"
    using worker_take_cases [OF assms(6)] by (auto simp: worker_sweep_queue)
  have steps: "queue_step\<^sup>*\<^sup>* (system_view s) ?v"
    by (rule sweep_view [OF assms(4,5)])
  then have v: "reach system_init queue_step ?v"
    using broker_queue.reach_view [OF assms(1)] by (rule reach_steps)
  have "next_id ?q < u64_max"
    using assms(2) by (simp add: unspent_def swept_queue_def prune_def sweep_timeouts_def fold_finish Let_def)
  then have "e + cooldown (limits ?q) \<le> m_now1 m"
    using cooldown_respected [OF v, of "m_now1 m" i g q' e] mk assms(7) by (simp add: queue_view_def)
  moreover have "limits ?q = config_limits (b_config (s_broker s))" "validate (b_config (s_broker s))"
    using broker_config.reach_inv [OF assms(1)] queue_steps_limits [OF steps] by (simp_all add: config_inv_def queue_view_def)
  ultimately show ?thesis
    using assms(3) by (auto simp: validate_def config_limits_def)
qed

end
