(* ===== verification/BrokerRuns.thy ===== *)
theory BrokerRuns
  imports BrokerProps "HOL-Library.Code_Target_Nat"
begin

text \<open>
  Two complete runs of the broker, evaluated step by step, that witness its properties: a secret
  read from a terminal, and a capability authorised and redeemed by a registered session.
\<close>

section \<open>A secret read from a terminal\<close>

text \<open>
  A request from a terminal without a session: it is queued, decrypted and read.
\<close>

lemma decode_slots_code [code]:
  "decode_slots n raw =
     (case n of
        0 \<Rightarrow> Some []
      | Suc k \<Rightarrow>
          (case raw of
             a # b # rest \<Rightarrow>
               (case u8_from_str_radix16 [a, b] of
                  None \<Rightarrow> None
                | Some slot \<Rightarrow> map_option ((#) slot) (decode_slots k rest))
           | _ \<Rightarrow> Some (replicate n 0)))"
  by (cases "(n, raw)" rule: decode_slots.cases) (simp_all split: list.split)

definition demo_settings :: config where
  "demo_settings =
     \<lparr>socket_path = ''/run/s'', human_sources = demo_store, sops_bin = ''sops'', pcsc_socket = None,
      yubikey_probe_argv = [], yubikey_probe_timeout = 1, policy = Cached, max_grant = 100, max_requested_grant = 200,
      cfg_cooldown = from_secs 16, request_ttl = 90, max_pending = 3\<rparr>"

definition demo_machine :: "instant \<Rightarrow> machine" where
  "demo_machine now =
     \<lparr>m_fs = demo_fs, m_descends = (\<lambda>_ _. True), m_alive = (\<lambda>_. True), m_exists = (\<lambda>_. True),
      m_device = Some (\<lambda>n. Some (replicate 32 (word_of_nat n))), m_reads = 3, m_now1 = now, m_now2 = now, m_now3 = now\<rparr>"

definition demo_b0 :: broker where
  "demo_b0 = broker_new ''boot'' [] demo_settings"

definition demo_tb1 :: "thread \<times> broker" where
  "demo_tb1 = arrive (demo_machine 10) (Get ''A'' None (Some ''/dev/pts/1'') None) 7 demo_b0"

definition demo_next :: "instant \<Rightarrow> thread \<Rightarrow> broker \<Rightarrow> thread \<times> broker" where
  "demo_next now th b = (case advance (demo_machine now) th b of Some x \<Rightarrow> x | None \<Rightarrow> (Idle, b))"

definition demo_tb2 :: "thread \<times> broker" where
  "demo_tb2 = demo_next 10 (fst demo_tb1) (snd demo_tb1)"

definition demo_tb3 :: "thread \<times> broker" where
  "demo_tb3 = demo_next 10 (fst demo_tb2) (snd demo_tb2)"

text \<open>The values of the states, proved once and used by the evaluations that follow.\<close>

definition demo_call :: call where
  "demo_call = \<lparr>c_access = \<lparr>a_key = ''A'', a_token_hex = None, a_tty = Some ''/dev/pts/1'', a_requested_ttl = None\<rparr>,
     c_return_value = True, c_force_fresh = False, c_authorize = None, c_caller = 7\<rparr>"

definition demo_tty :: scope where
  "demo_tty = Tty ''/dev/pts/1'' ''boot''"

definition demo_queue :: "scope \<Rightarrow> secret_name \<Rightarrow> request_state \<Rightarrow> nat \<Rightarrow> request_id option \<Rightarrow> instant option \<Rightarrow> queue" where
  "demo_queue sc k st g fl fin =
     \<lparr>requests = [\<lparr>rid = 1, rscope = sc, rkey = k, rstate = st, rgen = g, rcreated = 10, rttl = None\<rparr>],
      limits = config_limits demo_settings, next_id = 2, generation = g, inflight = fl, last_finished = fin\<rparr>"

definition demo_grant :: "scope \<Rightarrow> secret_name \<Rightarrow> string \<Rightarrow> instant \<Rightarrow> grant" where
  "demo_grant sc k v now =
     \<lparr>gscope = sc, gkey = k, gvalue = v, gorigin = \<lparr>origin_source = ''main'', origin_identity = demo_identity\<rparr>,
      gcreated = now, gttl = 100\<rparr>"

lemma demo_tb3_eval [code]:
  "demo_tb3 = (Polling demo_call demo_tty ''A'' 1 100 ''main'', demo_b0\<lparr>b_queue := demo_queue demo_tty ''A'' Pending 0 None None\<rparr>)"
  by code_simp

definition demo_jb4 :: "job option \<times> broker" where
  "demo_jb4 = worker_take (demo_machine 10) (snd demo_tb3)"

definition demo_job :: job where
  "demo_job = \<lparr>j_id = 1, j_scope = Tty ''/dev/pts/1'' ''boot'', j_key = ''A'', j_generation = 1, j_lock_epoch = 0,
     j_requested_ttl = None\<rparr>"

lemma demo_jb4_eval [code]:
  "demo_jb4 = (Some demo_job, demo_b0\<lparr>b_queue := demo_queue demo_tty ''A'' Decrypting 1 (Some 1) None\<rparr>)"
  by code_simp

definition demo_plain :: "(decrypted_human_file, err_code) result" where
  "demo_plain = Ok \<lparr>dsource = ''main'', didentity = demo_identity, dvalue = ''s3cr3t''\<rparr>"

definition demo_b5 :: broker where
  "demo_b5 = worker_finish (demo_machine 11) demo_job demo_plain (snd demo_jb4)"

lemma demo_b5_eval [code]:
  "demo_b5 = demo_b0\<lparr>b_queue := demo_queue demo_tty ''A'' Granted 1 None (Some 11), b_grants := [demo_grant demo_tty ''A'' ''s3cr3t'' 11]\<rparr>"
  by code_simp

definition demo_tb6 :: "thread \<times> broker" where
  "demo_tb6 = demo_next 12 (fst demo_tb3) demo_b5"

lemma demo_tb6_eval [code]:
  "demo_tb6 = (Answering demo_call demo_tty ''A'' (Approved (Some ''main'') (Some 1)), demo_b5)"
  by code_simp

lemma demo_next_Some:
  "\<not> Option.is_none (advance (demo_machine now) th b) \<Longrightarrow> advance (demo_machine now) th b = Some (demo_next now th b)"
  by (cases "advance (demo_machine now) th b") (auto simp: demo_next_def)

lemma demo_machine_ok: "s_clock s \<le> now \<Longrightarrow> machine_ok s (demo_machine now)"
  by (simp add: machine_ok_def demo_machine_def good_device_def RECEIPT_LEN_def)

text \<open>One thread step of a run, as a state change.\<close>

definition demo_thread :: "nat \<Rightarrow> instant \<Rightarrow> thread \<times> broker \<Rightarrow> system \<Rightarrow> system" where
  "demo_thread n now tb s = s\<lparr>s_broker := snd tb, s_threads := (s_threads s)(n := fst tb), s_clock := now\<rparr>"

lemma run_arrive:
  assumes "reach broker_init broker_step s" and "machine_ok s m" and "m_now3 m = now"
  shows "reach broker_init broker_step (demo_thread n now (arrive m r caller (s_broker s)) s)"
proof -
  have "broker_step s (demo_thread n now (arrive m r caller (s_broker s)) s)"
    using arrive_step [OF assms(2), of r caller "fst (arrive m r caller (s_broker s))" "snd (arrive m r caller (s_broker s))" n]
    by (simp add: demo_thread_def assms(3) del: arrive.simps)
  then show ?thesis
    by (rule reach_step [OF assms(1)])
qed

lemma run_advance:
  assumes "reach broker_init broker_step s" and "machine_ok s m" and "m_now3 m = now"
    and "advance m (s_threads s n) (s_broker s) = Some tb"
  shows "reach broker_init broker_step (demo_thread n now tb s)"
proof -
  have "broker_step s (demo_thread n now tb s)"
    using advance_step [OF assms(2), of n "fst tb" "snd tb"] assms(3,4) by (simp add: demo_thread_def)
  then show ?thesis
    by (rule reach_step [OF assms(1)])
qed

lemma run_take:
  assumes "reach broker_init broker_step s" and "machine_ok s m" and "m_now3 m = now" and "s_job s = None"
    and "worker_take m (s_broker s) = jb"
  shows "reach broker_init broker_step (s\<lparr>s_broker := snd jb, s_job := fst jb, s_clock := now\<rparr>)"
  using reach_step [OF assms(1) take_step [OF assms(2,4), of "fst jb" "snd jb"]] assms(3,5) by simp

lemma demo_now [simp]: "m_now1 (demo_machine now) = now" "m_now2 (demo_machine now) = now" "m_now3 (demo_machine now) = now"
  by (simp_all add: demo_machine_def)

lemmas demo_arrive_reach = run_arrive [OF _ demo_machine_ok demo_now(3)]

lemma demo_next_reach:
  assumes "reach broker_init broker_step s" and "s_clock s \<le> now"
    and "\<not> Option.is_none (advance (demo_machine now) (s_threads s n) (s_broker s))"
  shows "reach broker_init broker_step (demo_thread n now (demo_next now (s_threads s n) (s_broker s)) s)"
  by (rule run_advance [OF assms(1) demo_machine_ok [OF assms(2)] demo_now(3) demo_next_Some [OF assms(3)]])

lemmas demo_take_reach = run_take [OF _ demo_machine_ok demo_now(3)]

definition demo_s0 :: system where
  "demo_s0 = \<lparr>s_broker = demo_b0, s_job = None, s_threads = (\<lambda>_. Idle), s_clock = 0, s_ended = None, s_ceremonies = []\<rparr>"

definition demo_s3 :: system where
  "demo_s3 = demo_thread 0 10 demo_tb3 (demo_thread 0 10 demo_tb2 (demo_thread 0 10 demo_tb1 demo_s0))"

definition demo_s4 :: system where
  "demo_s4 = demo_s3\<lparr>s_broker := snd demo_jb4, s_job := Some demo_job, s_clock := 10\<rparr>"

definition demo_ceremonies :: "ceremony list" where
  "demo_ceremonies = new_ceremonies (demo_machine 11) demo_job demo_plain (snd demo_jb4)"

definition demo_s5 :: system where
  "demo_s5 = demo_s4\<lparr>s_broker := demo_b5, s_job := None, s_clock := 11, s_ended := Some 11, s_ceremonies := demo_ceremonies\<rparr>"

definition demo_s6 :: system where
  "demo_s6 = demo_thread 0 12 demo_tb6 demo_s5"

lemma demo_s0_reach: "reach broker_init broker_step demo_s0"
proof (rule reach_init)
  have "validate demo_settings"
    by (simp add: validate_def demo_settings_def)
  then show "broker_init demo_s0"
    by (auto simp: broker_init_def demo_s0_def demo_b0_def)
qed

lemma demo_advances:
  "\<not> Option.is_none (advance (demo_machine 10) (fst demo_tb1) (snd demo_tb1))"
  "\<not> Option.is_none (advance (demo_machine 10) (fst demo_tb2) (snd demo_tb2))"
  "\<not> Option.is_none (advance (demo_machine 12) (fst demo_tb3) demo_b5)"
  by code_simp+

lemma demo_s3_reach: "reach broker_init broker_step demo_s3"
proof -
  let ?s1 = "demo_thread 0 10 demo_tb1 demo_s0"
  let ?s2 = "demo_thread 0 10 demo_tb2 ?s1"
  have 1: "reach broker_init broker_step ?s1"
    using demo_arrive_reach [OF demo_s0_reach, of 10 0] unfolding demo_tb1_def by (simp add: demo_s0_def del: arrive.simps)
  have 2: "reach broker_init broker_step ?s2"
    using demo_next_reach [OF 1, of 10 0] demo_advances(1) by (simp add: demo_tb2_def demo_thread_def demo_s0_def)
  show ?thesis
    using demo_next_reach [OF 2, of 10 0] demo_advances(2) by (simp add: demo_s3_def demo_tb3_def demo_thread_def)
qed

lemma demo_s4_reach: "reach broker_init broker_step demo_s4"
  using demo_take_reach [OF demo_s3_reach, of 10 demo_jb4] demo_jb4_eval
  by (simp add: demo_s4_def demo_s3_def demo_thread_def demo_s0_def demo_jb4_def)

lemma demo_finish: "decrypt_opened (config_decryptor (b_config (snd demo_jb4))) demo_decrypt_env (b_store (snd demo_jb4)) ''A'' = Some demo_plain"
proof -
  have "b_config (snd demo_jb4) = demo_settings"
    by code_simp
  then show ?thesis
    using demo_decrypt by (simp add: config_decryptor_def b_store_def demo_settings_def demo_plain_def)
qed

lemma demo_s5_step: "broker_step demo_s4 demo_s5"
proof -
  have s4: "s_job demo_s4 = Some demo_job" "s_broker demo_s4 = snd demo_jb4" "s_clock demo_s4 = 10"
      "s_ceremonies demo_s4 = []" "j_key demo_job = ''A''"
    by (simp_all add: demo_s4_def demo_s3_def demo_s0_def demo_thread_def demo_job_def)
  have "m_now3 (demo_machine 11) = 11" "m_now2 (demo_machine 11) = 11" "is_ok demo_plain"
    by (simp_all add: demo_machine_def demo_plain_def)
  then show ?thesis
    using finish_step [OF demo_machine_ok s4(1), of 11 demo_decrypt_env demo_plain] demo_finish s4
    by (simp add: demo_s5_def demo_b5_def demo_ceremonies_def)
qed

lemma demo_s5_reach: "reach broker_init broker_step demo_s5"
  by (rule reach_step [OF demo_s4_reach demo_s5_step])

lemma demo_s6_reach: "reach broker_init broker_step demo_s6"
  using demo_next_reach [OF demo_s5_reach, of 12 0] demo_advances(3)
  by (simp add: demo_s6_def demo_tb6_def demo_thread_def demo_s5_def demo_s4_def demo_s3_def)

lemma demo_unspent: "unspent demo_s6" "unspent demo_s4"
  by (simp_all add: unspent_def demo_s6_def demo_s4_def demo_thread_def) code_simp+

theorem release_needs_ceremony_witness:
  "\<exists>cer \<in> set (s_ceremonies demo_s6). cer_key cer = ''A'' \<and> cer_value cer = ''s3cr3t''
     \<and> cer_epoch cer = b_lock_epoch (s_broker demo_s6)"
proof -
  let ?x = "demo_next 12 (fst demo_tb6) (snd demo_tb6)"
  have out: "(case fst ?x of Done d \<Rightarrow> d_outcome d = OutBytes ''s3cr3t'' | _ \<Rightarrow> False)"
      "\<not> Option.is_none (advance (demo_machine 12) (fst demo_tb6) (snd demo_tb6))"
      "(case fst demo_tb6 of Answering c sc k a \<Rightarrow> k = ''A'' | _ \<Rightarrow> False)"
    by code_simp+
  then obtain d where d: "fst ?x = Done d" "d_outcome d = OutBytes ''s3cr3t''"
    by (auto split: thread.splits)
  have s6: "s_threads demo_s6 0 = fst demo_tb6" "s_broker demo_s6 = snd demo_tb6"
    by (simp_all add: demo_s6_def demo_thread_def)
  have "advance (demo_machine 12) (s_threads demo_s6 0) (s_broker demo_s6) = Some (Done d, snd ?x)"
    using demo_next_Some [OF out(2)] d(1) s6 by (metis prod.collapse)
  from release_needs_ceremony [OF demo_s6_reach demo_unspent(1) this d(2)] show ?thesis
    using out(3) s6 by auto
qed


theorem broker_refines_queue_witness: "queue_step\<^sup>*\<^sup>* (system_view demo_s4) (system_view demo_s5)"
  using broker_refines_queue [OF demo_s4_reach demo_s5_step] by blast


theorem only_main_lane_waits_witness: "\<exists>d b'. arrive (demo_machine 1) Lock 7 demo_b0 = (Done d, b')"
  by (rule only_main_lane_waits) simp

theorem cached_approval_iff_witness:
  "fst (cached_approval (demo_machine 12) (Tty ''/dev/pts/1'' ''boot'') ''A'' True demo_b5) = None
   \<and> lookup (b_grants (snd (cached_approval (demo_machine 12) (Tty ''/dev/pts/1'' ''boot'') ''A'' True demo_b5)))
       (Tty ''/dev/pts/1'' ''boot'') ''A'' 12 = None"
proof -
  have "table_inv (b_grants demo_b5)"
    by code_simp
  moreover have "fst (cached_approval (demo_machine 12) (Tty ''/dev/pts/1'' ''boot'') ''A'' True demo_b5) = None"
    by code_simp
  moreover have "m_now1 (demo_machine 12) = 12"
    by (simp add: demo_machine_def)
  ultimately show ?thesis
    using cached_approval_iff [of demo_b5 "demo_machine 12"] by metis
qed

text \<open>A second secret, asked for and started twenty seconds later.\<close>

definition demo_late :: instant where
  "demo_late = 20000000000"

definition demo_tb7 :: "thread \<times> broker" where
  "demo_tb7 = arrive (demo_machine demo_late) (Get ''B'' None (Some ''/dev/pts/1'') None) 7 (snd demo_tb6)"

definition demo_tb8 :: "thread \<times> broker" where
  "demo_tb8 = demo_next demo_late (fst demo_tb7) (snd demo_tb7)"

definition demo_tb9 :: "thread \<times> broker" where
  "demo_tb9 = demo_next demo_late (fst demo_tb8) (snd demo_tb8)"

definition demo_s9 :: system where
  "demo_s9 = demo_thread 1 demo_late demo_tb9 (demo_thread 1 demo_late demo_tb8 (demo_thread 1 demo_late demo_tb7 demo_s6))"

lemma demo_late_advances:
  "\<not> Option.is_none (advance (demo_machine demo_late) (fst demo_tb7) (snd demo_tb7))"
  "\<not> Option.is_none (advance (demo_machine demo_late) (fst demo_tb8) (snd demo_tb8))"
  by code_simp+

lemma demo_s9_reach: "reach broker_init broker_step demo_s9"
proof -
  let ?s7 = "demo_thread 1 demo_late demo_tb7 demo_s6"
  let ?s8 = "demo_thread 1 demo_late demo_tb8 ?s7"
  have s6: "s_clock demo_s6 = 12" "s_broker demo_s6 = snd demo_tb6"
    by (simp_all add: demo_s6_def demo_thread_def)
  have 7: "reach broker_init broker_step ?s7"
    using demo_arrive_reach [OF demo_s6_reach, of demo_late 1] unfolding demo_tb7_def
    by (simp add: s6 demo_late_def del: arrive.simps)
  have 8: "reach broker_init broker_step ?s8"
    using demo_next_reach [OF 7, of demo_late 1] demo_late_advances(1) by (simp add: demo_tb8_def demo_thread_def)
  show ?thesis
    using demo_next_reach [OF 8, of demo_late 1] demo_late_advances(2) by (simp add: demo_s9_def demo_tb9_def demo_thread_def)
qed

theorem touch_spacing_witness: "11 + from_secs 15 < demo_late"
proof -
  have s9: "s_broker demo_s9 = snd demo_tb9" "s_clock demo_s9 = demo_late" "s_job demo_s9 = None" "s_ended demo_s9 = Some 11"
    by (simp_all add: demo_s9_def demo_thread_def demo_s6_def demo_s5_def)
  have take: "\<not> Option.is_none (fst (worker_take (demo_machine demo_late) (snd demo_tb9)))"
      "policy (b_config (snd demo_tb9)) = Cached" "next_id (b_queue (snd demo_tb9)) < u64_max"
    by code_simp+
  then obtain j where j: "worker_take (demo_machine demo_late) (s_broker demo_s9) = (Some j, snd (worker_take (demo_machine demo_late) (s_broker demo_s9)))"
    unfolding s9(1) by (metis is_none_code(1) not_None_eq prod.collapse)
  have "m_now1 (demo_machine demo_late) = demo_late"
    by (simp add: demo_machine_def)
  then show ?thesis
    using touch_spacing [OF demo_s9_reach _ _ demo_machine_ok s9(3) j s9(4)] take s9 by (simp add: unspent_def)
qed

section \<open>A capability authorised and redeemed\<close>

definition cap_fs :: filesystem where
  "cap_fs = demo_fs\<lparr>read_dir := (\<lambda>d. if d = ''/s'' then DirEntries [Some ''CAP_BROWSER.env''] else DirMissing)\<rparr>"

definition cap_machine :: "instant \<Rightarrow> machine" where
  "cap_machine now = (demo_machine now)\<lparr>m_fs := cap_fs\<rparr>"

definition cap_next :: "thread \<times> broker \<Rightarrow> thread \<times> broker" where
  "cap_next tb = (case advance (cap_machine 10) (fst tb) (snd tb) of Some x \<Rightarrow> x | None \<Rightarrow> tb)"

definition cap_tb0 :: "thread \<times> broker" where
  "cap_tb0 = arrive (cap_machine 10) (Register (replicate 64 CHR ''1'') ''s1'' 1) 7 demo_b0"

definition cap_b0 :: broker where
  "cap_b0 = demo_b0\<lparr>b_registry := \<lparr>sessions = [\<lparr>token = replicate 32 0x11, session = ''s1'', root = 7\<rparr>], agent_ttys = [], boot_id = ''boot''\<rparr>\<rparr>"

definition cap_scope :: scope where
  "cap_scope = Session (replicate 32 0x11)"

lemma cap_tb0_eval [code]:
  "cap_tb0 = (Done \<lparr>d_outcome = OutOk, d_scope_kind = Some VerifiedSession, d_source = None, d_request_id = None\<rparr>, cap_b0)"
  by code_simp

definition cap_tb1 :: "thread \<times> broker" where
  "cap_tb1 = arrive (cap_machine 10) (Authorize ''browser'' (Some (replicate 64 CHR ''1'')) None) 7 (snd cap_tb0)"

definition cap_tb2 :: "thread \<times> broker" where
  "cap_tb2 = cap_next cap_tb1"

definition cap_tb3 :: "thread \<times> broker" where
  "cap_tb3 = cap_next cap_tb2"

definition cap_call :: call where
  "cap_call = \<lparr>c_access = \<lparr>a_key = ''CAP_BROWSER'', a_token_hex = Some (replicate 64 CHR ''1''), a_tty = None, a_requested_ttl = None\<rparr>,
     c_return_value = False, c_force_fresh = True, c_authorize = Some (''browser'', 0), c_caller = 7\<rparr>"

lemma cap_tb3_eval [code]:
  "cap_tb3 = (Polling cap_call cap_scope ''CAP_BROWSER'' 1 100 ''main'',
     cap_b0\<lparr>b_queue := demo_queue cap_scope ''CAP_BROWSER'' Pending 0 None None\<rparr>)"
  by code_simp

definition cap_jb4 :: "job option \<times> broker" where
  "cap_jb4 = worker_take (cap_machine 10) (snd cap_tb3)"

definition cap_plain :: "(decrypted_human_file, err_code) result" where
  "cap_plain = Ok \<lparr>dsource = ''main'', didentity = demo_identity, dvalue = ''x''\<rparr>"

definition cap_job :: job where
  "cap_job = \<lparr>j_id = 1, j_scope = Session (replicate 32 0x11), j_key = ''CAP_BROWSER'', j_generation = 1, j_lock_epoch = 0,
     j_requested_ttl = None\<rparr>"

lemma cap_jb4_eval [code]:
  "cap_jb4 = (Some cap_job, cap_b0\<lparr>b_queue := demo_queue cap_scope ''CAP_BROWSER'' Decrypting 1 (Some 1) None\<rparr>)"
  by code_simp

definition cap_b5 :: broker where
  "cap_b5 = worker_finish (cap_machine 10) cap_job cap_plain (snd cap_jb4)"

lemma cap_b5_eval [code]:
  "cap_b5 = cap_b0\<lparr>b_queue := demo_queue cap_scope ''CAP_BROWSER'' Granted 1 None (Some 10),
     b_grants := [demo_grant cap_scope ''CAP_BROWSER'' ''x'' 10]\<rparr>"
  by code_simp

definition cap_tb6 :: "thread \<times> broker" where
  "cap_tb6 = cap_next (fst cap_tb3, cap_b5)"

definition cap_tb7 :: "thread \<times> broker" where
  "cap_tb7 = cap_next cap_tb6"

definition cap_tb8 :: "thread \<times> broker" where
  "cap_tb8 = cap_next cap_tb7"

lemma cap_tb7_eval [code]:
  "cap_tb7 = (Minting ''browser'' 0 \<lparr>d_outcome = OutFields ''status=granted'', d_scope_kind = Some VerifiedSession,
     d_source = Some ''main'', d_request_id = Some 1\<rparr>, cap_b5)"
  by code_simp

lemma cap_tb8_eval [code]:
  "cap_tb8 = (Done \<lparr>d_outcome = OutReceipt (replicate 64 CHR ''0''), d_scope_kind = Some VerifiedSession,
     d_source = Some ''main'', d_request_id = Some 1\<rparr>,
     cap_b5\<lparr>b_receipts := [\<lparr>entry_id = replicate 32 0, entry_cap = ''browser'', minted = 10\<rparr>]\<rparr>)"
  by code_simp

lemma cap_machine_ok: "s_clock s \<le> now \<Longrightarrow> machine_ok s (cap_machine now)"
  by (simp add: machine_ok_def cap_machine_def demo_machine_def good_device_def RECEIPT_LEN_def)

lemma cap_now [simp]: "m_now1 (cap_machine now) = now" "m_now2 (cap_machine now) = now" "m_now3 (cap_machine now) = now"
  by (simp_all add: cap_machine_def)

lemma cap_next_reach:
  assumes "reach broker_init broker_step s" and "s_clock s \<le> 10" and "s_threads s n = fst tb" and "s_broker s = snd tb"
    and "\<not> Option.is_none (advance (cap_machine 10) (fst tb) (snd tb))"
  shows "reach broker_init broker_step (demo_thread n 10 (cap_next tb) s)"
proof -
  have "advance (cap_machine 10) (s_threads s n) (s_broker s) = Some (cap_next tb)"
    using assms(3-5) by (cases "advance (cap_machine 10) (fst tb) (snd tb)") (auto simp: cap_next_def)
  then show ?thesis
    by (rule run_advance [OF assms(1) cap_machine_ok [OF assms(2)] cap_now(3)])
qed

definition cap_s3 :: system where
  "cap_s3 = demo_thread 1 10 cap_tb3 (demo_thread 1 10 cap_tb2 (demo_thread 1 10 cap_tb1 (demo_thread 0 10 cap_tb0 demo_s0)))"

definition cap_s4 :: system where
  "cap_s4 = cap_s3\<lparr>s_broker := snd cap_jb4, s_job := fst cap_jb4, s_clock := 10\<rparr>"

definition cap_s5 :: system where
  "cap_s5 = cap_s4\<lparr>s_broker := cap_b5, s_job := None, s_clock := 10, s_ended := Some 10,
     s_ceremonies := new_ceremonies (cap_machine 10) cap_job cap_plain (snd cap_jb4)\<rparr>"

definition cap_s8 :: system where
  "cap_s8 = demo_thread 1 10 cap_tb8 (demo_thread 1 10 cap_tb7 (demo_thread 1 10 cap_tb6 cap_s5))"

lemma cap_advances:
  "\<not> Option.is_none (advance (cap_machine 10) (fst cap_tb1) (snd cap_tb1))"
  "\<not> Option.is_none (advance (cap_machine 10) (fst cap_tb2) (snd cap_tb2))"
  "\<not> Option.is_none (advance (cap_machine 10) (fst cap_tb3) cap_b5)"
  "\<not> Option.is_none (advance (cap_machine 10) (fst cap_tb6) (snd cap_tb6))"
  "\<not> Option.is_none (advance (cap_machine 10) (fst cap_tb7) (snd cap_tb7))"
  by code_simp+

lemma cap_s3_reach: "reach broker_init broker_step cap_s3"
proof -
  let ?s0 = "demo_thread 0 10 cap_tb0 demo_s0"
  let ?s1 = "demo_thread 1 10 cap_tb1 ?s0"
  let ?s2 = "demo_thread 1 10 cap_tb2 ?s1"
  have 0: "reach broker_init broker_step ?s0"
    using run_arrive [OF demo_s0_reach cap_machine_ok cap_now(3), of 10 0] unfolding cap_tb0_def
    by (simp add: demo_s0_def del: arrive.simps)
  have 1: "reach broker_init broker_step ?s1"
    using run_arrive [OF 0 cap_machine_ok cap_now(3), of 10 1] unfolding cap_tb1_def
    by (simp add: demo_thread_def del: arrive.simps)
  have 2: "reach broker_init broker_step ?s2"
    unfolding cap_tb2_def by (rule cap_next_reach [OF 1]) (simp_all add: demo_thread_def cap_advances)
  show ?thesis
    unfolding cap_s3_def cap_tb3_def by (rule cap_next_reach [OF 2]) (simp_all add: demo_thread_def cap_advances)
qed

lemma cap_decrypt:
  "decrypt_opened (config_decryptor (b_config (snd cap_jb4)))
     \<lparr>env_fs = cap_fs, reachable_answer = Some True, dup_ok = True,
      spawned = Some \<lparr>child_pid = 42, polls = [(Exited True, 10)], child_stderr = Some [], child_stdout = Some ''CAP_BROWSER=x''\<rparr>,
      started_at = 10\<rparr> (b_store (snd cap_jb4)) ''CAP_BROWSER'' = Some cap_plain"
  by code_simp

lemma cap_s5_reach: "reach broker_init broker_step cap_s5"
proof -
  have 4: "reach broker_init broker_step cap_s4"
    unfolding cap_s4_def
    by (rule run_take [OF cap_s3_reach cap_machine_ok cap_now(3)])
      (simp_all add: cap_s3_def demo_thread_def demo_s0_def cap_jb4_def)
  have s4: "s_job cap_s4 = Some cap_job" "s_broker cap_s4 = snd cap_jb4" "s_clock cap_s4 = 10"
      "s_ceremonies cap_s4 = []" "j_key cap_job = ''CAP_BROWSER''"
    by (simp_all add: cap_s4_def cap_s3_def demo_s0_def demo_thread_def cap_jb4_eval cap_job_def)
  have "is_ok cap_plain"
    by (simp add: cap_plain_def)
  then have "broker_step cap_s4 cap_s5"
    using finish_step [OF cap_machine_ok s4(1), of 10 _ cap_plain] cap_decrypt s4
    by (simp add: cap_s5_def cap_b5_def)
  then show ?thesis
    by (rule reach_step [OF 4])
qed

lemma cap_s8_reach: "reach broker_init broker_step cap_s8"
proof -
  let ?s6 = "demo_thread 1 10 cap_tb6 cap_s5"
  let ?s7 = "demo_thread 1 10 cap_tb7 ?s6"
  have 6: "reach broker_init broker_step ?s6"
    unfolding cap_tb6_def
    by (rule cap_next_reach [OF cap_s5_reach]) (simp_all add: cap_s5_def cap_s4_def cap_s3_def demo_thread_def cap_advances)
  have 7: "reach broker_init broker_step ?s7"
    unfolding cap_tb7_def by (rule cap_next_reach [OF 6]) (simp_all add: demo_thread_def cap_advances)
  show ?thesis
    unfolding cap_s8_def cap_tb8_def by (rule cap_next_reach [OF 7]) (simp_all add: demo_thread_def cap_advances)
qed

lemma cap_unspent: "unspent cap_s8" "unspent cap_s5"
  by (simp_all add: unspent_def cap_s8_def cap_s5_def demo_thread_def) code_simp+

definition cap_receipt :: string where
  "cap_receipt = (case fst cap_tb8 of Done d \<Rightarrow> (case d_outcome d of OutReceipt r \<Rightarrow> r | _ \<Rightarrow> []) | _ \<Rightarrow> [])"

theorem redeem_needs_ceremony_witness:
  "\<exists>cer \<in> set (s_ceremonies cap_s8). cer_key cer = key_name ''browser'' \<and> cer_epoch cer = b_lock_epoch (s_broker cap_s8)"
proof -
  have s8: "s_broker cap_s8 = snd cap_tb8"
    by (simp add: cap_s8_def demo_thread_def)
  have ok: "(case d_outcome (fst (redeem_request (cap_machine 10) cap_receipt ''browser'' (snd cap_tb8))) of
      OutFields _ \<Rightarrow> True | _ \<Rightarrow> False)" "parse_capability ''browser'' = Ok ''browser''"
    by code_simp+
  then obtain flds where "d_outcome (fst (redeem_request (cap_machine 10) cap_receipt ''browser'' (snd cap_tb8))) = OutFields flds"
    by (auto split: outcome.splits)
  then show ?thesis
    using redeem_needs_ceremony [OF cap_s8_reach cap_unspent(1), of "cap_machine 10" cap_receipt "''browser''"] ok(2) s8
    by (metis prod.collapse result.inject(1))
qed

theorem cached_sessions_registered_witness:
  "registration_of (replicate 32 0x11) (b_registry (s_broker cap_s5)) \<noteq> None"
proof -
  have "list_ex (\<lambda>g. gscope g = Session (replicate 32 0x11)) (b_grants cap_b5)"
    by code_simp
  then obtain g where "g \<in> set (b_grants (s_broker cap_s5))" "gscope g = Session (replicate 32 0x11)"
    by (auto simp: list_ex_iff cap_s5_def)
  then show ?thesis
    by (rule cached_sessions_registered [OF cap_s5_reach cap_unspent(2)])
qed

end
