(* ===== verification/SecretsdClient.thy ===== *)
theory SecretsdClient
  imports Broker "HOL-Library.Code_Target_Nat"
begin

text \<open>
  The forward crate as a client of the secrets broker (\<open>secretsd.rs\<close> and its modules): the two
  capability requests it writes, the replies it accepts, and the reading of the broker's error
  codes, which depends on the verb.  The properties join it to the broker's own parser and replies.
\<close>

section \<open>Authority\<close>

record socket_identity =
  si_device :: nat
  si_inode :: nat

record broker_identity =
  bi_instance :: string
  bi_epoch :: nat
  bi_socket :: socket_identity

record redeemed_grant =
  rd_authority :: broker_identity
  rd_ttl_secs :: nat

datatype broker_error =
    BeConnect | BeUntrustedPeer | BeSubscriptionClosed | BeSubscriberCapacity | BeProtocol | BeUnknownOp
  | BeDenied | BeTimeout | BeYubikeyUnreachable | BeNotProvisioned string string | BeNoScope
  | BeReceiptRejected | BeTooManyPending

section \<open>Fields\<close>

definition is_ascii_control :: "char \<Rightarrow> bool" where
  "is_ascii_control c \<longleftrightarrow> char_code c < 32 \<or> char_code c = 127"

definition valid_field :: "string \<Rightarrow> bool" where
  "valid_field v \<longleftrightarrow> v \<noteq> [] \<and> list_all is_ascii v \<and> \<not> list_ex is_ascii_control v"

definition lower_hex :: "char \<Rightarrow> bool" where
  "lower_hex c \<longleftrightarrow> is_ascii_digit c \<or> in_range 97 102 c"

definition valid_hex_bytes :: "string \<Rightarrow> nat \<Rightarrow> bool" where
  "valid_hex_bytes v n \<longleftrightarrow> length v = n \<and> list_all lower_hex v"

fun expected_loop :: "string list \<Rightarrow> field_list \<Rightarrow> string list \<Rightarrow> (field_list, broker_error) result" where
  "expected_loop expected parsed [] = Ok parsed"
| "expected_loop expected parsed (f # fs) =
     (case split_once CHR ''='' f of
        None \<Rightarrow> Err BeProtocol
      | Some (name, v) \<Rightarrow>
          if name = [] \<or> v = [] \<or> name \<notin> set expected \<or> list_ex (\<lambda>p. fst p = name) parsed then Err BeProtocol
          else expected_loop expected (parsed @ [(name, v)]) fs)"

definition expected_fields :: "string \<Rightarrow> string list \<Rightarrow> (field_list, broker_error) result" where
  "expected_fields flds expected =
     and_then (expected_loop expected [] (split_on CHR '' '' flds))
       (\<lambda>parsed. if length parsed = length expected then Ok parsed else Err BeProtocol)"

definition authorized_receipt :: "string \<Rightarrow> (string, broker_error) result" where
  "authorized_receipt flds =
     and_then (expected_fields flds [''status'', ''receipt''])
       (\<lambda>parsed. case (field parsed ''status'', field parsed ''receipt'') of
          (Some st, Some receipt) \<Rightarrow>
            if st = ''authorized'' \<and> valid_hex_bytes receipt 64 then Ok receipt else Err BeProtocol
        | _ \<Rightarrow> Err BeProtocol)"

definition redeemed_cap :: "string \<Rightarrow> string \<Rightarrow> socket_identity \<Rightarrow> (redeemed_grant, broker_error) result" where
  "redeemed_cap flds cap sock =
     and_then (expected_fields flds [''status'', ''cap'', ''instance'', ''epoch'', ''ttl''])
       (\<lambda>parsed.
          case (field parsed ''status'', field parsed ''cap'', field parsed ''instance'', field parsed ''epoch'', field parsed ''ttl'') of
            (Some st, Some returned, Some inst, Some raw_epoch, Some raw_ttl) \<Rightarrow>
              if st = ''redeemed'' \<and> returned = cap then
                if \<not> valid_field inst then Err BeProtocol
                else case parse_uint u64_max raw_epoch of
                  None \<Rightarrow> Err BeProtocol
                | Some e \<Rightarrow>
                    (case parse_uint u64_max raw_ttl of
                       None \<Rightarrow> Err BeProtocol
                     | Some n \<Rightarrow>
                         if n > 0
                         then Ok \<lparr>rd_authority = \<lparr>bi_instance = inst, bi_epoch = e, bi_socket = sock\<rparr>, rd_ttl_secs = n\<rparr>
                         else Err BeProtocol)
              else if st \<noteq> ''redeemed'' then Err BeProtocol
              else Err BeReceiptRejected
          | (Some st, _) \<Rightarrow> if st \<noteq> ''redeemed'' then Err BeProtocol else Err BeReceiptRejected
          | _ \<Rightarrow> Err BeReceiptRejected)"

text \<open>\<open>broker_identity\<close>, from the fields of a version-checked \<open>HELLO\<close> reply.\<close>

definition hello_identity :: "string \<Rightarrow> socket_identity \<Rightarrow> (broker_identity, broker_error) result" where
  "hello_identity flds sock =
     (case hello_required flds ''instance'' of
        Err _ \<Rightarrow> Err BeProtocol
      | Ok inst \<Rightarrow>
          if \<not> valid_field inst then Err BeProtocol
          else case hello_required flds ''epoch'' of
            Err _ \<Rightarrow> Err BeProtocol
          | Ok raw \<Rightarrow>
              (case parse_uint u64_max raw of
                 None \<Rightarrow> Err BeProtocol
               | Some e \<Rightarrow> Ok \<lparr>bi_instance = inst, bi_epoch = e, bi_socket = sock\<rparr>))"

section \<open>Requests\<close>

definition CAP_BROWSER :: string where
  "CAP_BROWSER = ''browser''"

definition authorize_frame :: "string \<Rightarrow> string option \<Rightarrow> string option \<Rightarrow> (string, broker_error) result" where
  "authorize_frame cap tok terminal =
     (case (case (tok, terminal) of
              (Some t, _) \<Rightarrow> Some (''token'', t) | (None, Some t) \<Rightarrow> Some (''tty'', t) | (None, None) \<Rightarrow> None) of
        None \<Rightarrow> Err BeNoScope
      | Some (scope_name, scope) \<Rightarrow>
          if \<not> valid_field cap \<or> \<not> valid_field scope then Err BeProtocol
          else let req = ''AUTHORIZE'' @ tab # ''cap='' @ cap @ tab # scope_name @ ''='' @ scope
            in if MAX_FRAME_BYTES < length req + 1 then Err BeProtocol else Ok req)"

definition redeem_frame :: "string \<Rightarrow> string \<Rightarrow> (string, broker_error) result" where
  "redeem_frame receipt cap =
     (if \<not> valid_hex_bytes receipt 64 then Err BeProtocol
      else if \<not> valid_field cap then Err BeProtocol
      else Ok (''REDEEM'' @ tab # ''receipt='' @ receipt @ tab # ''cap='' @ cap))"

section \<open>Error codes\<close>

datatype verb = VerbAuthorize string | VerbRedeem | VerbHello

definition map_code :: "string \<Rightarrow> verb \<Rightarrow> broker_error" where
  "map_code code v =
     (if code = ''UNKNOWN_OP'' then BeUnknownOp
      else case v of
        VerbAuthorize cap \<Rightarrow>
          if code = ''DENIED'' then BeDenied
          else if code = ''TIMEOUT'' then BeTimeout
          else if code = ''YUBIKEY_UNREACHABLE'' then BeYubikeyUnreachable
          else if code = ''TOO_MANY_PENDING'' then BeTooManyPending
          else if code = ''NOT_HUMAN_KEY'' \<or> code = ''AMBIGUOUS_KEY''
          then BeNotProvisioned cap (map to_ascii_uppercase cap)
          else if code \<in> {''NO_SCOPE'', ''UNKNOWN_TOKEN'', ''FOREIGN_CALLER'', ''AGENT_TTY''} then BeNoScope
          else BeProtocol
      | VerbRedeem \<Rightarrow> if code = ''DENIED'' then BeReceiptRejected else BeProtocol
      | VerbHello \<Rightarrow> BeProtocol)"

fun map_error :: "client_error \<Rightarrow> verb \<Rightarrow> broker_error" where
  "map_error (CeIo k) v = BeConnect"
| "map_error ApprovalTimeout v = (case v of VerbAuthorize _ \<Rightarrow> BeTimeout | _ \<Rightarrow> BeProtocol)"
| "map_error VersionHandshake v = BeProtocol"
| "map_error (CeBroker code) v = map_code (wire code) v"
| "map_error InvalidRequest v = BeProtocol"
| "map_error InvalidResponse v = BeProtocol"
| "map_error TokenFile v = BeProtocol"

section \<open>The replies\<close>

lemma valid_field_tab: "valid_field v \<Longrightarrow> tab \<notin> set v \<and> list_all is_ascii v \<and> v \<noteq> []"
  by (auto simp: valid_field_def list_ex_iff is_ascii_control_def char_code_def)

lemma lower_hex_plain: "lower_hex c \<Longrightarrow> is_ascii c \<and> \<not> is_ascii_control c \<and> c \<noteq> CHR '' '' \<and> c \<noteq> CHR ''=''"
  by (auto simp: lower_hex_def is_ascii_control_def ascii_defs)

lemma hex_digits_lower: "list_all lower_hex HEX_DIGITS"
  by code_simp

lemma encode_lower_hex: "list_all lower_hex (encode bs)"
proof (induction bs)
  case (Cons b bs)
  have "lower_hex (HEX_DIGITS ! k)" if "k < 16" for k
    using hex_digits_lower that by (simp add: list_all_length HEX_DIGITS_def)
  moreover have "unat b div 16 < 16"
    using unsigned_less [where 'a = nat and w = b] by simp
  ultimately show ?case
    using Cons by (simp add: hex_digit_def unat_nibbles)
qed simp

lemma lower_hex_field:
  "list_all lower_hex s \<Longrightarrow> s \<noteq> [] \<Longrightarrow> valid_field s"
  using lower_hex_plain by (auto simp: valid_field_def list_all_iff list_ex_iff)

lemma lower_hex_no_sep: "list_all lower_hex s \<Longrightarrow> CHR '' '' \<notin> set s"
  using lower_hex_plain by (auto simp: list_all_iff)

lemma capability_no_space: "list_all capability_byte cap \<Longrightarrow> CHR '' '' \<notin> set cap"
  by (auto simp: list_all_iff capability_byte_def ascii_defs)

definition redeem_pieces :: "string \<Rightarrow> string \<Rightarrow> nat \<Rightarrow> nat \<Rightarrow> string list" where
  "redeem_pieces cap inst e n =
     [''status=redeemed'', ''cap='' @ cap, ''instance='' @ inst, ''epoch='' @ show_nat e, ''ttl='' @ show_nat n]"

lemma redeem_fields_split:
  assumes "CHR '' '' \<notin> set cap" and "CHR '' '' \<notin> set (b_instance b)"
  shows "split_on CHR '' '' (redeem_fields cap n b) = redeem_pieces cap (b_instance b) (b_lock_epoch b) n"
proof -
  have "redeem_fields cap n b = join_with CHR '' '' (redeem_pieces cap (b_instance b) (b_lock_epoch b) n)"
    by (simp add: redeem_fields_def redeem_pieces_def)
  then show ?thesis
    using assms by (simp only:) (rule split_on_join_with, auto simp: redeem_pieces_def show_nat_not_space)
qed

lemma redeemed_cap_pieces:
  assumes "CHR '' '' \<notin> set cap" and "cap \<noteq> []" and "list_all lower_hex (b_instance b)" and "b_instance b \<noteq> []"
    and "b_lock_epoch b \<le> u64_max" and "0 < n" and "n \<le> u64_max"
  shows "redeemed_cap (redeem_fields cap n b) cap sock =
     Ok \<lparr>rd_authority = \<lparr>bi_instance = b_instance b, bi_epoch = b_lock_epoch b, bi_socket = sock\<rparr>, rd_ttl_secs = n\<rparr>"
  using assms redeem_fields_split [OF assms(1) lower_hex_no_sep [OF assms(3)], of n] lower_hex_field [OF assms(3,4)]
  by (simp add: redeemed_cap_def expected_fields_def redeem_pieces_def field_def)

text \<open>The broker's instance name is the hex of its random bytes, and its grants last at least a second.\<close>

definition usable_broker :: "broker \<Rightarrow> bool" where
  "usable_broker b \<longleftrightarrow>
     (\<exists>random. random \<noteq> [] \<and> b_instance b = encode random) \<and> b_lock_epoch b \<le> u64_max
     \<and> from_secs 1 \<le> max_grant (b_config b) \<and> as_secs (max_grant (b_config b)) \<le> u64_max"

lemma redeem_request_fields:
  assumes "redeem_request m receipt cap b = (d, b')" and "d_outcome d = OutFields flds"
  shows "parse_capability cap = Ok cap \<and> flds = redeem_fields cap (as_secs (max_grant (b_config b))) b"
proof -
  have cap: "c = expected" if "redeem hex expected now t = (Some c, t')" for hex expected now t c t'
    using that by (auto simp: redeem_def Let_def split: option.splits prod.splits if_splits)
  show ?thesis
    using assms cap
    by (auto simp: redeem_request_def parse_capability_Ok instant_checked_add_Some insert_capability_def
        capability_remaining_def nth_opt_def duration_since_def decision_new_def dest!: cap
        split: result.splits option.splits prod.splits if_splits)
qed

text \<open>C28: A reply by which the broker redeems a receipt is the reply that forward accepts: it reads the
  broker's own instance and lock epoch as the authority, attributed to the socket the reply came
  over, and the broker's full grant ceiling as the lifetime.\<close>

theorem redeem_reply_understood:
  assumes "redeem_request m receipt cap b = (d, b')" and "d_outcome d = OutFields flds" and "usable_broker b"
  shows "redeemed_cap flds cap sock =
     Ok \<lparr>rd_authority = \<lparr>bi_instance = b_instance b, bi_epoch = b_lock_epoch b, bi_socket = sock\<rparr>,
         rd_ttl_secs = as_secs (max_grant (b_config b))\<rparr>"
proof -
  note r = redeem_request_fields [OF assms(1,2)]
  obtain random where "random \<noteq> []" and i: "b_instance b = encode random"
    using assms(3) by (auto simp: usable_broker_def)
  then have "b_instance b \<noteq> []"
    by (cases random) auto
  moreover have "0 < as_secs (max_grant (b_config b))"
    using assms(3) as_secs_mono [of "from_secs 1" "max_grant (b_config b)"] by (simp add: usable_broker_def)
  ultimately show ?thesis
    using r assms(3) i encode_lower_hex [of random]
    by (simp add: redeemed_cap_pieces capability_no_space parse_capability_Ok usable_broker_def)
qed

definition client_demo_machine :: machine where
  "client_demo_machine =
     \<lparr>m_fs = demo_fs, m_descends = (\<lambda>_ _. True), m_alive = (\<lambda>_. True), m_exists = (\<lambda>_. True), m_device = None,
      m_reads = 0, m_now1 = 101, m_now2 = 101, m_now3 = 101\<rparr>"

definition client_demo_broker :: broker where
  "client_demo_broker = (broker_new ''boot'' [0xA7]
     \<lparr>socket_path = ''/run/s'', human_sources = demo_store, sops_bin = ''sops'', pcsc_socket = None,
      yubikey_probe_argv = [], yubikey_probe_timeout = 1, policy = Cached, max_grant = from_secs 43200,
      max_requested_grant = from_secs 43200, cfg_cooldown = from_secs 16, request_ttl = 90, max_pending = 3\<rparr>)
     \<lparr>b_receipts := demo_receipts\<rparr>"

lemma client_demo_redeem:
  "d_outcome (fst (redeem_request client_demo_machine (encode (replicate 32 7)) ''browser'' client_demo_broker))
     = OutFields ''status=redeemed cap=browser instance=a7 epoch=0 ttl=43200''"
proof -
  obtain t where t: "redeem (encode (replicate 32 7)) ''browser'' 101 demo_receipts = (Some ''browser'', t)"
    using demo_receipts_redeem by (cases "redeem (encode (replicate 32 7)) ''browser'' 101 demo_receipts") auto
  have cap: "parse_capability ''browser'' = Ok ''browser''" and hex: "encode [0xA7] = ''a7''"
      and n: "show_nat 43200 = ''43200''" "show_nat 0 = ''0''"
    by code_simp+
  show ?thesis
    using t
    by (simp add: redeem_request_def cap client_demo_machine_def client_demo_broker_def broker_new_def
        insert_capability_def capability_remaining_def nth_opt_def deadline_live_def duration_since_def
        instant_checked_add_def instant_limit_def decision_new_def redeem_fields_def hex n nanos_per_sec_def from_secs_def
        as_secs_def del: encode.simps show_nat.simps)
qed

theorem redeem_reply_understood_witness:
  "redeemed_cap ''status=redeemed cap=browser instance=a7 epoch=0 ttl=43200'' ''browser'' \<lparr>si_device = 1, si_inode = 2\<rparr> =
     Ok \<lparr>rd_authority = \<lparr>bi_instance = ''a7'', bi_epoch = 0, bi_socket = \<lparr>si_device = 1, si_inode = 2\<rparr>\<rparr>,
         rd_ttl_secs = 43200\<rparr>"
proof -
  have hex: "encode [0xA7] = ''a7''"
    by code_simp
  have u: "usable_broker client_demo_broker"
    by (auto simp: usable_broker_def client_demo_broker_def broker_new_def u64_max_def time_ops
        intro!: exI [of _ "[0xA7]"])
  show ?thesis
    using redeem_reply_understood [OF prod.collapse [symmetric] client_demo_redeem u,
        of "\<lparr>si_device = 1, si_inode = 2\<rparr>"]
    by (simp add: client_demo_broker_def broker_new_def hex del: encode.simps)
qed

text \<open>An authorization that forward writes is read by the broker as that authorization: the
  capability and the one scope it names, and nothing else.\<close>

theorem authorize_request_parses:
  assumes "authorize_frame cap tok terminal = Ok frame"
  shows "parse_request frame = Ok (Authorize cap tok (if tok = None then terminal else None))
     \<and> length frame < MAX_FRAME_BYTES"
proof -
  obtain name scope where sc: "tok = Some scope \<and> name = ''token'' \<or> tok = None \<and> terminal = Some scope \<and> name = ''tty''"
      and v: "valid_field cap" "valid_field scope"
      and fr: "frame = ''AUTHORIZE'' @ tab # ''cap='' @ cap @ tab # name @ ''='' @ scope"
      and len: "length frame < MAX_FRAME_BYTES"
    using assms by (auto simp: authorize_frame_def Let_def split: option.splits if_splits)
  let ?flds = "[(''cap'', cap), (name, scope)]"
  have p: "frame = print_frame ''AUTHORIZE'' ?flds"
    by (simp add: fr print_frame_def print_field_def)
  have "list_all is_ascii frame"
    using v sc by (auto simp: fr dest: valid_field_tab) (simp_all add: ascii_defs)
  then have "utf8_valid (print_frame ''AUTHORIZE'' ?flds)"
    using p utf8_valid_ascii by metis
  moreover have "valid_fields ?flds"
    using v sc by (auto simp: valid_fields_def dest: valid_field_tab)
  ultimately have "parse_frame frame = Ok (''AUTHORIZE'', ?flds)"
    using len unfolding p by (intro parse_frame_print) auto
  then show ?thesis
    using sc len by (auto simp: parse_request_def request_of_def required_def field_def SUBSCRIBE_VERB_def)
qed

theorem authorize_request_parses_witness:
  "parse_request (''AUTHORIZE'' @ tab # ''cap=browser'' @ tab # ''token=ab'') = Ok (Authorize ''browser'' (Some ''ab'') None)"
proof -
  have "authorize_frame ''browser'' (Some ''ab'') (Some ''/dev/pts/1'')
      = Ok (''AUTHORIZE'' @ tab # ''cap=browser'' @ tab # ''token=ab'')"
    by code_simp
  from authorize_request_parses [OF this] show ?thesis
    by simp
qed

end
