(* ===== verification/AuditValues.thy ===== *)
theory AuditValues
  imports Prelude
begin

text \<open>
  What the broker writes of a caller's text into its log (\<open>audit.rs\<close>).  A \<open>String\<close> is the list of
  its characters' code points here, since the code pops and pushes whole characters; lengths are in
  UTF-8 bytes, as in the code.
\<close>

type_synonym text_chars = "nat list"

definition len_utf8 :: "nat \<Rightarrow> nat" where
  "len_utf8 c = (if c < 0x80 then 1 else if c < 0x800 then 2 else if c < 0x10000 then 3 else 4)"

definition byte_len :: "text_chars \<Rightarrow> nat" where
  "byte_len s = sum_list (map len_utf8 s)"

definition MAX_AUDIT_VALUE_BYTES :: nat where
  "MAX_AUDIT_VALUE_BYTES = 256"

text \<open>The ellipsis, three bytes long.\<close>

definition ELLIPSIS :: nat where
  "ELLIPSIS = 0x2026"

text \<open>\<open>while rendered.len() > limit { rendered.pop(); }\<close>: the list is reversed, its last character
  first.\<close>

fun pop_while :: "nat \<Rightarrow> text_chars \<Rightarrow> text_chars" where
  "pop_while limit [] = []"
| "pop_while limit (c # cs) = (if limit < byte_len (c # cs) then pop_while limit cs else c # cs)"

definition append_audit_piece :: "text_chars \<Rightarrow> text_chars \<Rightarrow> bool \<times> text_chars" where
  "append_audit_piece rendered piece =
     (if MAX_AUDIT_VALUE_BYTES < byte_len rendered + byte_len piece
      then (False, rev (pop_while (MAX_AUDIT_VALUE_BYTES - len_utf8 ELLIPSIS) (rev rendered)) @ [ELLIPSIS])
      else (True, rendered @ piece))"

definition is_control :: "nat \<Rightarrow> bool" where
  "is_control c \<longleftrightarrow> c < 32 \<or> 127 \<le> c \<and> c < 160"

definition upper_hex :: "nat \<Rightarrow> nat" where
  "upper_hex d = (if d < 10 then 48 + d else 55 + d)"

text \<open>\<open>\u{XXXX}\<close> with four digits: a control character is below 160.\<close>

definition escape_control :: "nat \<Rightarrow> text_chars" where
  "escape_control c = [92, 117, 123, 48, 48, upper_hex (c div 16), upper_hex (c mod 16), 125]"

definition audit_piece :: "nat \<Rightarrow> text_chars" where
  "audit_piece c =
     (if c = 13 then [92, 114] else if c = 10 then [92, 110] else if c = 9 then [92, 116]
      else if c = 0 then [92, 48] else if is_control c then escape_control c else [c])"

fun sanitize_loop :: "text_chars \<Rightarrow> text_chars \<Rightarrow> text_chars" where
  "sanitize_loop rendered [] = rendered"
| "sanitize_loop rendered (c # cs) =
     (case append_audit_piece rendered (audit_piece c) of
        (True, r) \<Rightarrow> sanitize_loop r cs | (False, r) \<Rightarrow> r)"

definition sanitize_audit_value :: "text_chars \<Rightarrow> text_chars" where
  "sanitize_audit_value v = sanitize_loop [] v"

section \<open>Facts\<close>

lemma byte_len_append [simp]: "byte_len (s @ t) = byte_len s + byte_len t"
  by (simp add: byte_len_def)

lemma byte_len_rev [simp]: "byte_len (rev s) = byte_len s"
  by (simp add: byte_len_def rev_map [symmetric])

lemma byte_len_Nil [simp]: "byte_len [] = 0"
  by (simp add: byte_len_def)

lemma pop_while_len: "byte_len (pop_while limit s) \<le> limit"
  by (induction s) (auto simp: not_less)

lemma pop_while_suffix: "\<exists>u. s = u @ pop_while limit s"
proof (induction s)
  case (Cons c s)
  then obtain u where "s = u @ pop_while limit s"
    by blast
  then show ?case
    by (cases "limit < byte_len (c # s)") (auto intro: exI [of _ "c # u"])
qed simp

lemma ellipsis_len [simp]: "byte_len [ELLIPSIS] = 3"
  by (simp add: byte_len_def len_utf8_def ELLIPSIS_def)

lemma append_piece_len:
  assumes "byte_len rendered \<le> 256" and "append_audit_piece rendered piece = (ok, r)"
  shows "byte_len r \<le> 256"
proof (cases "256 < byte_len rendered + byte_len piece")
  case True
  then have "r = rev (pop_while 253 (rev rendered)) @ [ELLIPSIS]"
    using assms(2) by (simp add: append_audit_piece_def MAX_AUDIT_VALUE_BYTES_def len_utf8_def ELLIPSIS_def)
  then have "byte_len r = byte_len (pop_while 253 (rev rendered)) + 3"
    by (simp only: byte_len_append byte_len_rev ellipsis_len)
  then show ?thesis
    using pop_while_len [of 253 "rev rendered"] by linarith
next
  case False
  then show ?thesis
    using assms(2) by (auto simp: append_audit_piece_def MAX_AUDIT_VALUE_BYTES_def)
qed

definition clean :: "text_chars \<Rightarrow> bool" where
  "clean s \<longleftrightarrow> list_all (\<lambda>c. \<not> is_control c) s"

lemma clean_append [simp]: "clean (s @ t) \<longleftrightarrow> clean s \<and> clean t"
  by (simp add: clean_def)

lemma audit_piece_clean: "clean (audit_piece c)"
proof -
  have "\<not> is_control (upper_hex d)" if "d < 16" for d
    using that by (auto simp: upper_hex_def is_control_def)
  then show ?thesis
    by (auto simp: audit_piece_def escape_control_def clean_def is_control_def)
qed

lemma append_piece_clean:
  assumes "clean rendered" and "clean piece" and "append_audit_piece rendered piece = (ok, r)"
  shows "clean r"
proof -
  obtain u where "rev rendered = u @ pop_while 253 (rev rendered)"
    using pop_while_suffix by blast
  then have "clean (rev (pop_while 253 (rev rendered)))"
    using assms(1) by (metis clean_append rev_append rev_rev_ident)
  moreover have "clean [ELLIPSIS]"
    by (simp add: clean_def is_control_def ELLIPSIS_def)
  ultimately show ?thesis
    using assms by (auto simp: append_audit_piece_def MAX_AUDIT_VALUE_BYTES_def len_utf8_def ELLIPSIS_def split: if_splits)
qed

lemma sanitize_loop_ok:
  "clean rendered \<Longrightarrow> byte_len rendered \<le> 256 \<Longrightarrow>
   clean (sanitize_loop rendered cs) \<and> byte_len (sanitize_loop rendered cs) \<le> 256"
proof (induction cs arbitrary: rendered)
  case (Cons c cs)
  obtain ok r where a: "append_audit_piece rendered (audit_piece c) = (ok, r)"
    by fastforce
  then have "clean r" "byte_len r \<le> 256"
    using Cons.prems audit_piece_clean append_piece_clean append_piece_len by blast+
  then show ?case
    using Cons.IH [of r] a by (cases ok) auto
qed simp

lemma sanitize_loop_short:
  "byte_len (rendered @ concat (map audit_piece cs)) \<le> 256 \<Longrightarrow>
   sanitize_loop rendered cs = rendered @ concat (map audit_piece cs)"
proof (induction cs arbitrary: rendered)
  case (Cons c cs)
  then have "append_audit_piece rendered (audit_piece c) = (True, rendered @ audit_piece c)"
    by (simp add: append_audit_piece_def MAX_AUDIT_VALUE_BYTES_def)
  then show ?case
    using Cons by simp
qed simp

text \<open>C38: A caller's text cannot forge the broker's log: what is written of it holds no control
  character, so no line break, and at most 256 bytes; and a text whose escaped form fits is written
  in full, each character as itself or as its escape.\<close>

theorem audit_value_bounded:
  "clean (sanitize_audit_value v) \<and> byte_len (sanitize_audit_value v) \<le> 256
   \<and> (byte_len (concat (map audit_piece v)) \<le> 256 \<longrightarrow> sanitize_audit_value v = concat (map audit_piece v))"
  using sanitize_loop_ok [of "[]" v] sanitize_loop_short [of "[]" v]
  by (simp add: sanitize_audit_value_def clean_def)

theorem audit_value_bounded_witness:
  "sanitize_audit_value [65, 10, 27, 66] = [65, 92, 110, 92, 117, 123, 48, 48, 49, 66, 125, 66]"
proof -
  have "byte_len (concat (map audit_piece [65, 10, 27, 66])) \<le> 256"
    "concat (map audit_piece [65, 10, 27, 66]) = [65, 92, 110, 92, 117, 123, 48, 48, 49, 66, 125, 66]"
    by (simp_all add: audit_piece_def is_control_def escape_control_def upper_hex_def byte_len_def len_utf8_def)
  then show ?thesis
    using audit_value_bounded [of "[65, 10, 27, 66]"] by metis
qed

end
