(* ===== verification/Connections.thy ===== *)
theory Connections
  imports BrokerRuns SecretsdClient AuditValues
begin

text \<open>
  One connection of the broker (\<open>server.rs\<close>): reading its frame, the checks of its peer, what
  becomes of its request, what is written to the log about it, and how a fresh connection is put on a
  lane; and the socket it all comes in by (\<open>server/listener.rs\<close>).
\<close>

section \<open>Reading a frame\<close>

text \<open>\<open>read_frame\<close> over what arrives on the socket, chunk by chunk: a read takes at most what the
  buffer still holds and leaves the rest, an empty chunk is the end of the stream and \<open>None\<close> a read
  that fails, by the timeout of 250 ms among others.\<close>

function read_frame_loop :: "string \<Rightarrow> string option list \<Rightarrow> string option" where
  "read_frame_loop frame chunks =
     (let remaining = MAX_FRAME_BYTES + 1 - length frame in
      if remaining = 0 then Some frame
      else case chunks of
        [] \<Rightarrow> Some frame
      | None # _ \<Rightarrow> None
      | Some c # cs \<Rightarrow>
          if c = [] then Some frame
          else (case split_once newline (take remaining c) of
              Some (line, _) \<Rightarrow> Some (frame @ line @ [newline])
            | None \<Rightarrow>
                read_frame_loop (frame @ take remaining c)
                  (if length c \<le> remaining then cs else Some (drop remaining c) # cs)))"
  by pat_completeness auto

termination
  by (relation "measure (\<lambda>(frame, _). MAX_FRAME_BYTES + 1 - length frame)") (auto simp: min_def intro!: diff_less_mono2)

declare read_frame_loop.simps [simp del]

definition read_frame :: "string option list \<Rightarrow> string option" where
  "read_frame chunks = read_frame_loop [] chunks"

text \<open>The request in a frame: any failure, of the frame or of the parser, is the same.\<close>

definition frame_request :: "string \<Rightarrow> request option" where
  "frame_request frame =
     (if frame = [] \<or> last frame \<noteq> newline \<or> MAX_FRAME_BYTES < length (butlast frame) then None
      else case parse_request (butlast frame) of Ok r \<Rightarrow> Some r | Err _ \<Rightarrow> None)"

section \<open>The log line\<close>

fun request_key :: "request \<Rightarrow> string option" where
  "request_key (Get key _ _ _) = Some key"
| "request_key (RequestGrant key _ _ _) = Some key"
| "request_key _ = None"

record audit =
  au_key :: text_chars
  au_session :: "text_chars option"
  au_root_pid :: "int option"

text \<open>\<open>chars\<close> decodes the UTF-8 of a string.\<close>

definition audit_key :: "(string \<Rightarrow> text_chars) \<Rightarrow> request \<Rightarrow> text_chars" where
  "audit_key chars r =
     (case r of
        Authorize cap _ _ \<Rightarrow> sanitize_audit_value (chars (''CAP_'' @ map to_ascii_uppercase cap))
      | _ \<Rightarrow> (case request_key r of None \<Rightarrow> [45] | Some k \<Rightarrow> sanitize_audit_value (chars k)))"

fun request_token :: "request \<Rightarrow> string option" where
  "request_token (Get _ token_hex _ _) = token_hex"
| "request_token (RequestGrant _ token_hex _ _) = token_hex"
| "request_token (Authorize _ token_hex _) = token_hex"
| "request_token _ = None"

definition audit_context ::
  "(string \<Rightarrow> text_chars) \<Rightarrow> (pinned_peer \<Rightarrow> int option) \<Rightarrow> request \<Rightarrow> broker \<Rightarrow> audit" where
  "audit_context chars pid_of r b =
     (let au = \<lparr>au_key = audit_key chars r, au_session = None, au_root_pid = None\<rparr> in
      case r of
        Register _ name _ \<Rightarrow> au\<lparr>au_session := Some (sanitize_audit_value (chars name))\<rparr>
      | _ \<Rightarrow>
          (case request_token r of
             None \<Rightarrow> au
           | Some hex \<Rightarrow>
               (case parse_token hex of
                  Err _ \<Rightarrow> au
                | Ok t \<Rightarrow>
                    (case registration_of t (b_registry b) of
                       None \<Rightarrow> au
                     | Some e \<Rightarrow> au\<lparr>au_session := Some (sanitize_audit_value (chars (session e))),
                                  au_root_pid := pid_of (root e)\<rparr>))))"

section \<open>The connection\<close>

text \<open>What becomes of a connection: closed without an answer, handed to the subscribers, or a thread
  of the broker.\<close>

datatype connection_fate = Closed | Attach pinned_peer | Serve thread

definition invalid_frame :: decision where
  "invalid_frame = decision_new (OutFailed BadRequest ''invalid request frame'')"

definition handle ::
  "machine \<Rightarrow> bool \<Rightarrow> pinned_peer option \<Rightarrow> string option list \<Rightarrow> broker \<Rightarrow> connection_fate \<times> broker" where
  "handle m same_uid peer chunks b =
     (if \<not> same_uid then (Closed, b)
      else case peer of
        None \<Rightarrow> (Closed, b)
      | Some caller \<Rightarrow>
          (case read_frame chunks of
             None \<Rightarrow> (Closed, b)
           | Some frame \<Rightarrow>
               (case frame_request frame of
                  None \<Rightarrow> (Serve (Done invalid_frame), b)
                | Some Subscribe \<Rightarrow> (Attach caller, b)
                | Some r \<Rightarrow> (case arrive m r caller b of (th, b') \<Rightarrow> (Serve th, b')))))"

section \<open>Lanes\<close>

definition CONNECTION_QUEUE_DEPTH :: nat where
  "CONNECTION_QUEUE_DEPTH = 8"

definition CONNECTION_CAPACITY_RESPONSE :: string where
  "CONNECTION_CAPACITY_RESPONSE = ''ERR'' @ tab # ''INTERNAL'' @ tab # ''connection capacity reached'' @ [newline]"

datatype routed = Queued connection_lane | RejectedCapacity string | DroppedFull

text \<open>\<open>waiting\<close> counts the connections waiting in each lane's channel.\<close>

definition route :: "(connection_lane \<Rightarrow> nat) \<Rightarrow> connection_lane option \<Rightarrow> routed" where
  "route waiting lane =
     (let l = (case lane of None \<Rightarrow> MainLane | Some l \<Rightarrow> l) in
      if waiting l < CONNECTION_QUEUE_DEPTH then Queued l
      else if lane \<noteq> None then RejectedCapacity CONNECTION_CAPACITY_RESPONSE
      else DroppedFull)"

section \<open>The listening socket\<close>

unbundle bit_operations_syntax

definition S_IFSOCK :: "32 word" where
  "S_IFSOCK = 0xC000"

record socket_node =
  node_mode :: "32 word"
  node_uid :: nat

datatype listen_error =
    NodeMissing | NotASocket | ForeignOwner | LooseMode | NotAStream | NotListening | NoPath | BadActivation
  | RemoveFailed | SocketBindFailed

definition assert_owner_only :: "nat \<Rightarrow> socket_node option \<Rightarrow> (unit, listen_error) result" where
  "assert_owner_only euid node =
     (case node of
        None \<Rightarrow> Err NodeMissing
      | Some n \<Rightarrow>
          if node_mode n AND S_IFSOCK \<noteq> S_IFSOCK then Err NotASocket
          else if node_uid n \<noteq> euid then Err ForeignOwner
          else if node_mode n AND 0x1FF \<noteq> 0x180 then Err LooseMode
          else Ok ())"

text \<open>The inherited descriptor 3, as its system calls describe it.\<close>

record activation_fd =
  fd_mode :: "32 word"
  fd_stream :: bool
  fd_listening :: bool
  fd_path :: "string option"

definition validate_activated_listener ::
  "nat \<Rightarrow> (string \<Rightarrow> socket_node option) \<Rightarrow> activation_fd \<Rightarrow> (unit, listen_error) result" where
  "validate_activated_listener euid node_at fd =
     (if fd_mode fd AND S_IFSOCK \<noteq> S_IFSOCK then Err NotASocket
      else if \<not> fd_stream fd then Err NotAStream
      else if \<not> fd_listening fd then Err NotListening
      else case fd_path fd of
        None \<Rightarrow> Err NoPath
      | Some p \<Rightarrow> assert_owner_only euid (node_at p))"

definition socket_activated :: "string option \<Rightarrow> string option \<Rightarrow> nat \<Rightarrow> bool" where
  "socket_activated listen_fds listen_pid pid \<longleftrightarrow>
     listen_fds = Some ''1''
     \<and> (case listen_pid of None \<Rightarrow> False | Some v \<Rightarrow> parse_uint u32_max v = Some pid)"

text \<open>The mode \<open>bind\<close> gives a node under a umask, from the permissions of a fresh socket.\<close>

definition bound_mode :: "32 word \<Rightarrow> 32 word \<Rightarrow> 32 word" where
  "bound_mode fresh umask = S_IFSOCK OR (fresh AND 0x1FF AND NOT umask)"

definition bind_owner_only :: "nat \<Rightarrow> bool \<Rightarrow> 32 word \<Rightarrow> (socket_node, listen_error) result" where
  "bind_owner_only euid bound fresh =
     (if \<not> bound then Err SocketBindFailed
      else let node = \<lparr>node_mode = bound_mode fresh 0x7F, node_uid = euid\<rparr>
        in and_then (assert_owner_only euid (Some node)) (\<lambda>_. Ok node))"

record listen_env =
  le_fds :: "string option"
  le_pid :: "string option"
  le_self :: nat
  le_fd :: activation_fd
  le_node :: "string \<Rightarrow> socket_node option"
  le_removed :: bool
  le_bound :: bool
  le_fresh :: "32 word"

datatype listening = Adopted | Bound socket_node

definition listener :: "nat \<Rightarrow> listen_env \<Rightarrow> (listening, listen_error) result" where
  "listener euid env =
     (if socket_activated (le_fds env) (le_pid env) (le_self env)
      then and_then (validate_activated_listener euid (le_node env) (le_fd env)) (\<lambda>_. Ok Adopted)
      else if le_fds env \<noteq> None \<or> le_pid env \<noteq> None then Err BadActivation
      else if \<not> le_removed env then Err RemoveFailed
      else and_then (bind_owner_only euid (le_bound env) (le_fresh env)) (\<lambda>n. Ok (Bound n)))"

section \<open>Frames and chunks\<close>

definition first_frame :: "string \<Rightarrow> string" where
  "first_frame s =
     (case split_once newline (take (MAX_FRAME_BYTES + 1) s) of
        Some (line, _) \<Rightarrow> line @ [newline]
      | None \<Rightarrow> take (MAX_FRAME_BYTES + 1) s)"

lemma first_frame_append:
  assumes "newline \<notin> set a" and "length a \<le> MAX_FRAME_BYTES + 1"
  shows "first_frame (a @ s) = a @ (case split_once newline (take (MAX_FRAME_BYTES + 1 - length a) s) of
      Some (line, _) \<Rightarrow> line @ [newline] | None \<Rightarrow> take (MAX_FRAME_BYTES + 1 - length a) s)"
proof (cases "split_once newline (take (MAX_FRAME_BYTES + 1 - length a) s)")
  case None
  then have "split_once newline (take (MAX_FRAME_BYTES + 1) (a @ s)) = None"
    using assms by (simp add: split_once_None)
  then show ?thesis
    using assms None by (simp add: first_frame_def)
next
  case (Some p)
  obtain l r where "p = (l, r)" by fastforce
  then have "split_once newline (take (MAX_FRAME_BYTES + 1) (a @ s)) = Some (a @ l, r)"
    using assms Some by (simp add: split_once_Some)
  then show ?thesis
    using Some \<open>p = (l, r)\<close> by (simp add: first_frame_def)
qed

lemma read_frame_loop_spec:
  "newline \<notin> set frame \<Longrightarrow> length frame \<le> MAX_FRAME_BYTES + 1 \<Longrightarrow> [] \<notin> set chunks \<Longrightarrow>
   read_frame_loop frame (map Some chunks) = Some (first_frame (frame @ concat chunks))"
proof (induction "MAX_FRAME_BYTES + 1 - length frame" arbitrary: frame chunks rule: less_induct)
  case less
  let ?rem = "MAX_FRAME_BYTES + 1 - length frame"
  show ?case
  proof (cases "?rem = 0 \<or> chunks = []")
    case True
    then show ?thesis
      using less.prems first_frame_append [of frame "concat chunks"]
      by (auto simp: read_frame_loop.simps [of frame] Let_def)
  next
    case False
    then obtain c cs where c: "chunks = c # cs" "0 < ?rem" "c \<noteq> []"
      using less.prems(3) by (cases chunks) auto
    let ?rest = "if length c \<le> ?rem then cs else drop ?rem c # cs"
    have rest: "map Some ?rest = (if length c \<le> ?rem then map Some cs else Some (drop ?rem c) # map Some cs)"
      "concat (take ?rem c # ?rest) = c @ concat cs" "[] \<notin> set ?rest"
      using less.prems(3) c by auto
    show ?thesis
    proof (cases "split_once newline (take ?rem c)")
      case None
      have "read_frame_loop frame (map Some chunks) = read_frame_loop (frame @ take ?rem c) (map Some ?rest)"
        using None c rest(1) by (simp add: read_frame_loop.simps [of frame] Let_def)
      also have "\<dots> = Some (first_frame ((frame @ take ?rem c) @ concat ?rest))"
        using None c less.prems rest(3)
        by (intro less.hyps) (auto simp: split_once_None min_def intro!: diff_less_mono2)
      finally show ?thesis
        using rest(2) c by simp
    next
      case (Some p)
      obtain l r where p: "p = (l, r)" by fastforce
      have "split_once newline (take ?rem (c @ concat cs)) = Some (l, r @ take (?rem - length c) (concat cs))"
        using Some p by (auto simp: split_once_Some)
      then show ?thesis
        using Some p c less.prems first_frame_append [of frame "c @ concat cs"]
        by (simp add: read_frame_loop.simps [of frame] Let_def)
    qed
  qed
qed

text \<open>C36: However the kernel cuts a request into reads, the broker sees the same frame: the first line
  with its newline if it ends within 4097 bytes, and otherwise the first 4097 bytes of the stream,
  which it then refuses.  Nothing after the first newline is ever looked at.\<close>

theorem read_frame_chunking:
  assumes "[] \<notin> set chunks"
  shows "read_frame (map Some chunks) = Some (first_frame (concat chunks))"
  using read_frame_loop_spec [of "[]" chunks] assms by (simp add: read_frame_def)

theorem read_frame_chunking_witness:
  "read_frame [Some ''LO'', Some (''CK'' @ [newline] @ ''GR'')] = Some (''LOCK'' @ [newline])"
proof -
  have "first_frame (concat [''LO'', ''CK'' @ [newline] @ ''GR'']) = ''LOCK'' @ [newline]"
    by (simp add: first_frame_def MAX_FRAME_BYTES_def)
  then show ?thesis
    using read_frame_chunking [of "[''LO'', ''CK'' @ [newline] @ ''GR'']"] by simp
qed

section \<open>Lanes and handlers\<close>

lemma ready_lane_frame:
  assumes "ready_request_lane (Some bytes) = Some lane"
  obtains line rest r where "bytes = line @ newline # rest" "newline \<notin> set line" "length line \<le> MAX_FRAME_BYTES"
    "parse_request line = Ok r" "request_lane r = lane"
proof -
  obtain line rest r where *: "take (MAX_FRAME_BYTES + 1) bytes = line @ newline # rest" "newline \<notin> set line"
    "length line \<le> MAX_FRAME_BYTES" "parse_request line = Ok r" "request_lane r = lane"
    using assms by (auto simp: ready_request_lane_def split_once_Some split: option.splits if_splits result.splits)
  then have "bytes = line @ newline # (rest @ drop (MAX_FRAME_BYTES + 1) bytes)"
    by (metis append_Cons append_assoc append_take_drop_id)
  then show thesis
    using that * by blast
qed

lemma first_frame_line:
  "newline \<notin> set line \<Longrightarrow> length line \<le> MAX_FRAME_BYTES \<Longrightarrow>
   first_frame (line @ newline # rest) = line @ [newline]"
  using first_frame_append [of line "newline # rest"]
  by (cases "MAX_FRAME_BYTES + 1 - length line") auto

lemma frame_request_line:
  "length line \<le> MAX_FRAME_BYTES \<Longrightarrow>
   frame_request (line @ [newline]) = (case parse_request line of Ok r \<Rightarrow> Some r | Err _ \<Rightarrow> None)"
  by (simp add: frame_request_def)

lemma read_request:
  assumes "[] \<notin> set chunks" and "concat chunks = line @ newline # rest" and "newline \<notin> set line"
    and "length line \<le> MAX_FRAME_BYTES"
  shows "read_frame (map Some chunks) = Some (line @ [newline])"
  using read_frame_loop_spec [of "[]" chunks] assms by (simp add: read_frame_def first_frame_line)

lemma arrive_off_main: "request_lane r \<noteq> MainLane \<Longrightarrow> \<exists>d b'. arrive m r caller b = (Done d, b')"
  by (cases r) (auto split: prod.split dispatched.split elim: answer.elims)



text \<open>A newer client is not told that the broker is older.  The parser tells an unknown operation
  from a malformed frame, but the connection handler answers both with \<open>BAD_REQUEST\<close>, and forward,
  which advises an upgrade on \<open>UNKNOWN_OP\<close>, takes it for a protocol error.\<close>

theorem unknown_op_not_reported:
  assumes "parse_request line = Err UnknownOp" and "newline \<notin> set line" and "length line \<le> MAX_FRAME_BYTES"
  shows "handle m True (Some caller) [Some (line @ [newline])] b = (Serve (Done invalid_frame), b)
    \<and> outcome_bytes (d_outcome invalid_frame) = format_response (RFailed BadRequest ''invalid request frame'')
    \<and> map_code (wire BadRequest) v = BeProtocol \<and> map_code (wire UnknownOp) v = BeUnknownOp"
proof -
  have "read_frame [Some (line @ [newline])] = Some (line @ [newline])"
    using read_request [of "[line @ [newline]]" line "[]"] assms(2,3) by simp
  then show ?thesis
    using assms by (cases v) (auto simp: handle_def frame_request_line invalid_frame_def decision_new_def map_code_def)
qed

theorem unknown_op_not_reported_witness:
  "fst (handle (demo_machine 10) True (Some 7) [Some (''RENEW'' @ [newline])] demo_b0) = Serve (Done invalid_frame)"
proof -
  have "parse_request ''RENEW'' = Err UnknownOp" "newline \<notin> set ''RENEW''" "length ''RENEW'' \<le> MAX_FRAME_BYTES"
    by code_simp+
  from unknown_op_not_reported [OF this] show ?thesis
    by simp
qed

section \<open>Peers\<close>

text \<open>A connection from another user, or from a peer the kernel does not identify, is closed
  unread, and a frame that fails changes nothing.\<close>

lemma handle_refused: "\<not> same_uid \<or> peer = None \<Longrightarrow> handle m same_uid peer chunks b = (Closed, b)"
  by (auto simp: handle_def)

lemma handle_attach_iff:
  "handle m same_uid peer chunks b = (Attach c, b') \<longleftrightarrow>
     same_uid \<and> peer = Some c \<and> b' = b \<and> (\<exists>frame. read_frame chunks = Some frame \<and> frame_request frame = Some Subscribe)"
  by (auto simp: handle_def split: option.splits request.splits prod.splits simp del: arrive.simps)

lemma audit_context_clean:
  "clean (au_key (audit_context chars pid_of r b))
   \<and> (case au_session (audit_context chars pid_of r b) of None \<Rightarrow> True | Some v \<Rightarrow> clean v)"
proof -
  have c: "clean (sanitize_audit_value v)" for v
    using sanitize_loop_ok [of "[]" v] by (simp add: sanitize_audit_value_def clean_def)
  have "clean (audit_key chars r)"
    using c by (auto simp: audit_key_def split: request.splits option.splits) (simp_all add: clean_def is_control_def)
  then show ?thesis
    using c by (auto simp: audit_context_def Let_def split: request.splits option.splits result.splits)
qed

section \<open>The socket's node\<close>

lemma bound_mode_owner_only:
  assumes "fresh AND 0x180 = 0x180"
  shows "bound_mode fresh 0x7F AND 0x1FF = 0x180" "bound_mode fresh 0x7F AND S_IFSOCK = S_IFSOCK"
proof -
  have m: "(0x1FF AND NOT 0x7F :: 32 word) = 0x180"
    by simp
  have "(S_IFSOCK OR x) AND 0x1FF = x AND 0x1FF" for x :: "32 word"
    by (simp add: S_IFSOCK_def bit.conj_disj_distrib2)
  then show "bound_mode fresh 0x7F AND 0x1FF = 0x180"
    using assms by (simp add: bound_mode_def and.assoc m)
  show "bound_mode fresh 0x7F AND S_IFSOCK = S_IFSOCK"
    by (simp add: bound_mode_def bit.conj_disj_distrib2 and.commute)
qed

text \<open>The broker listens on nothing but an owner-only socket: a node it creates has mode 0600 from
  the moment it exists, whatever further permissions a fresh socket has, so the check after it passes;
  and an inherited descriptor is adopted only with a socket's node that is owned by the broker's user
  with mode 0600.\<close>

theorem listener_owner_only:
  "(le_fds env = None \<and> le_pid env = None \<and> le_removed env \<and> le_bound env \<and> le_fresh env AND 0x180 = 0x180 \<longrightarrow>
      (\<exists>n. listener euid env = Ok (Bound n) \<and> node_mode n AND 0x1FF = 0x180 \<and> node_uid n = euid))
   \<and> (listener euid env = Ok Adopted \<longrightarrow>
      (\<exists>p n. fd_path (le_fd env) = Some p \<and> le_node env p = Some n \<and> node_uid n = euid
        \<and> node_mode n AND 0x1FF = 0x180 \<and> node_mode n AND S_IFSOCK = S_IFSOCK))"
  using bound_mode_owner_only [of "le_fresh env"]
  by (auto simp: listener_def socket_activated_def bind_owner_only_def assert_owner_only_def Let_def
      validate_activated_listener_def and_then_Ok split: option.splits if_splits)

theorem listener_owner_only_witness:
  "\<exists>n. listener 1000 \<lparr>le_fds = None, le_pid = None, le_self = 7,
      le_fd = \<lparr>fd_mode = 0, fd_stream = False, fd_listening = False, fd_path = None\<rparr>, le_node = (\<lambda>_. None),
      le_removed = True, le_bound = True, le_fresh = 0x1FF\<rparr> = Ok (Bound n) \<and> node_mode n AND 0x1FF = 0x180"
  using listener_owner_only [of "\<lparr>le_fds = None, le_pid = None, le_self = 7,
      le_fd = \<lparr>fd_mode = 0, fd_stream = False, fd_listening = False, fd_path = None\<rparr>, le_node = (\<lambda>_. None),
      le_removed = True, le_bound = True, le_fresh = 0x1FF\<rparr>" 1000]
  by auto

end
