(* ===== verification/HumanClient.thy ===== *)
theory HumanClient
  imports Broker "HOL-Library.Multiset"
begin

text \<open>
  The \<open>secrets\<close> command's side of the human tier (\<open>secrets/src/client/human.rs\<close>): the frames of
  \<open>GET\<close> and \<open>REQUEST\<close>, the reading of their replies, and the list of names it shows, which it
  collects from the source directories by itself.  The lemmas show that the broker reads the frames
  as meant and that the names listed are the ones the broker serves.
\<close>

section \<open>Requests and replies\<close>

definition scoped_frame :: "string \<Rightarrow> secret_name \<Rightarrow> string option \<Rightarrow> string option \<Rightarrow> nat option \<Rightarrow> string" where
  "scoped_frame operation key tok terminal secs =
     operation @ tab # ''key='' @ key
     @ (case tok of None \<Rightarrow> [] | Some t \<Rightarrow> tab # ''token='' @ t)
     @ (case terminal of None \<Rightarrow> [] | Some t \<Rightarrow> tab # ''tty='' @ t)
     @ (case secs of None \<Rightarrow> [] | Some n \<Rightarrow> tab # ''ttl='' @ show_nat n)"

definition parse_ttl_field :: "string \<Rightarrow> nat option" where
  "parse_ttl_field flds =
     (case find (\<lambda>f. strip_prefix ''ttl='' f \<noteq> None) (split_on CHR '' '' flds) of
        None \<Rightarrow> None
      | Some f \<Rightarrow> (case strip_prefix ''ttl='' f of None \<Rightarrow> None | Some v \<Rightarrow> parse_uint u64_max v))"

fun grant_result :: "(broker_response, client_error) result \<Rightarrow> (nat option, client_error) result" where
  "grant_result (Ok BrOk) = Ok None"
| "grant_result (Ok (BrFields flds)) = Ok (parse_ttl_field flds)"
| "grant_result (Ok (BrBytes _)) = Err InvalidResponse"
| "grant_result (Err e) = Err e"

fun get_result :: "(broker_response, client_error) result \<Rightarrow> (string, client_error) result" where
  "get_result (Ok (BrBytes bytes)) = Ok bytes"
| "get_result (Ok BrOk) = Err InvalidResponse"
| "get_result (Ok (BrFields _)) = Err InvalidResponse"
| "get_result (Err e) = Err e"

section \<open>Names\<close>

record human_location =
  loc_label :: string
  loc_path :: string

datatype cli_error = HumanDirectory string | InvalidHumanFile | DuplicateHumanKey secret_name string string

type_synonym human_names = "(secret_name \<times> human_location) list"

definition root_location :: "source_root \<Rightarrow> bool \<Rightarrow> string \<Rightarrow> human_location" where
  "root_location r is_local f =
     \<lparr>loc_label = (if is_local then root_name r @ ''.local'' else root_name r), loc_path = path_join (human_dir r) f\<rparr>"

fun load_files :: "source_root \<Rightarrow> string list \<Rightarrow> human_names \<Rightarrow> (human_names, cli_error) result" where
  "load_files r [] names = Ok names"
| "load_files r (f # fs) names =
     (if \<not> utf8_valid f then Err InvalidHumanFile
      else case parse_human_file_name f of
        Ignored \<Rightarrow> load_files r fs names
      | Invalid \<Rightarrow> Err InvalidHumanFile
      | Key n l \<Rightarrow>
          (case map_of names n of
             None \<Rightarrow> load_files r fs (names @ [(n, root_location r l f)])
           | Some first \<Rightarrow> Err (DuplicateHumanKey n (loc_label first) (loc_label (root_location r l f)))))"

definition sorted_entries :: "filesystem \<Rightarrow> source_root \<Rightarrow> (string list, cli_error) result" where
  "sorted_entries fs r =
     (case read_dir fs (human_dir r) of
        DirEntries es \<Rightarrow> if None \<in> set es then Err (HumanDirectory (human_dir r)) else Ok (sort (map the es))
      | _ \<Rightarrow> Err (HumanDirectory (human_dir r)))"

fun load_roots ::
  "filesystem \<Rightarrow> (string \<Rightarrow> bool) \<Rightarrow> source_root list \<Rightarrow> human_names \<Rightarrow> (human_names, cli_error) result" where
  "load_roots fs is_dir [] names = Ok names"
| "load_roots fs is_dir (r # rs) names =
     (if \<not> is_dir (human_dir r) then load_roots fs is_dir rs names
      else and_then (sorted_entries fs r) (\<lambda>es.
        and_then (load_files r es names) (load_roots fs is_dir rs)))"

definition human_names_load ::
  "filesystem \<Rightarrow> (string \<Rightarrow> bool) \<Rightarrow> source_root list \<Rightarrow> (human_names, cli_error) result" where
  "human_names_load fs is_dir roots = load_roots fs is_dir roots []"

section \<open>The names and the store\<close>

text \<open>The labels listed for a key, and those of the files the broker finds for it.\<close>

definition labels_of :: "human_names \<Rightarrow> secret_name \<Rightarrow> string list" where
  "labels_of names k = map (\<lambda>e. loc_label (snd e)) (filter (\<lambda>e. fst e = k) names)"

definition backing_label :: "human_source \<times> bool \<Rightarrow> string" where
  "backing_label sl = candidate_label (fst sl) (snd sl)"

lemma labels_of_append [simp]: "labels_of (xs @ ys) k = labels_of xs k @ labels_of ys k"
  by (simp add: labels_of_def)

lemma labels_of_map_of:
  "distinct (map fst names) \<Longrightarrow>
   labels_of names k = (case map_of names k of None \<Rightarrow> [] | Some l \<Rightarrow> [loc_label l])"
proof (induction names)
  case (Cons e names)
  show ?case
  proof (cases "fst e = k")
    case True
    then have "labels_of names k = []"
      using Cons.prems by (auto simp: labels_of_def filter_empty_conv rev_image_eqI)
    then show ?thesis
      using True by (cases e) (simp add: labels_of_def)
  next
    case False
    then show ?thesis
      using Cons by (cases e) (simp add: labels_of_def)
  qed
qed (simp add: labels_of_def)

lemma load_files_spec:
  assumes "parse_name k = Ok k"
  shows "load_files r es names = Ok names' \<Longrightarrow> distinct (map fst names) \<Longrightarrow>
    distinct (map fst names') \<and> list_all (\<lambda>f. good_entry (Some f)) es
    \<and> labels_of names' k = labels_of names k @ map backing_label (concat (map (entry_backing (root_source r) k) es))"
proof (induction es arbitrary: names)
  case (Cons f es)
  have u: "utf8_valid f" and g: "good_entry (Some f)"
    using Cons.prems(1) by (auto split: if_splits human_file_name.splits)
  show ?case
  proof (cases "parse_human_file_name f")
    case Ignored
    then show ?thesis
      using Cons u entry_backing_classify [OF assms, of "root_source r" f] by (auto simp: classify_file_def)
  next
    case (Key n l)
    then have "map_of names n = None" and ok: "load_files r es (names @ [(n, root_location r l f)]) = Ok names'"
      using Cons.prems(1) u by (auto split: option.splits)
    then have "n \<notin> fst ` set names"
      by (simp add: map_of_eq_None_iff)
    then show ?thesis
      using Cons.IH [OF ok] Cons.prems(2) Key u entry_backing_classify [OF assms, of "root_source r" f]
      by (auto simp: classify_file_def labels_of_def root_location_def backing_label_def candidate_label_def root_source_def)
  qed (use Cons.prems(1) u in simp)
qed simp

lemma mset_concat_sort: "mset (concat (map g (sort xs))) = mset (concat (map g xs))"
proof -
  have "mset (concat (map g ys)) = \<Sum>\<^sub># (image_mset (\<lambda>x. mset (g x)) (mset ys))" for ys
    by (induction ys) simp_all
  then show ?thesis
    by simp
qed

lemma entries_of_some: "None \<notin> set es \<Longrightarrow> entries_of (DirEntries es) = map the es"
proof (induction es)
  case (Cons e es)
  then show ?case
    by (cases e) auto
qed simp

lemma good_entries: "None \<notin> set es \<Longrightarrow> list_all good_entry es \<longleftrightarrow> list_all (\<lambda>f. good_entry (Some f)) (map the es)"
proof (induction es)
  case (Cons e es)
  then show ?case
    by (cases e) auto
qed simp

lemma load_root_spec:
  assumes "parse_name k = Ok k" and "distinct (map fst names)"
    and "sorted_entries fs r = Ok es" and "load_files r es names = Ok names'"
  shows "distinct (map fst names') \<and> good_listing (read_dir fs (human_dir r))
    \<and> mset (labels_of names' k) = mset (labels_of names k)
        + mset (map backing_label (concat (map (entry_backing (root_source r) k) (entries_of (read_dir fs (human_dir r))))))"
proof -
  obtain raw where raw: "read_dir fs (human_dir r) = DirEntries raw" "None \<notin> set raw" "es = sort (map the raw)"
    using assms(3) by (auto simp: sorted_entries_def split: dir_listing.splits if_splits)
  note spec = load_files_spec [OF assms(1) assms(4) assms(2)]
  have "list_all (\<lambda>f. good_entry (Some f)) (map the raw)"
    using spec unfolding raw(3) list_all_iff set_sort by blast
  then have "good_listing (read_dir fs (human_dir r))"
    using raw good_entries [of raw] by simp
  moreover have "mset (concat (map (entry_backing (root_source r) k) es))
      = mset (concat (map (entry_backing (root_source r) k) (entries_of (read_dir fs (human_dir r)))))"
    by (simp only: raw mset_concat_sort entries_of_some [OF raw(2)])
  ultimately show ?thesis
    using spec by (simp add: mset_map)
qed

lemma load_roots_spec:
  assumes "parse_name k = Ok k"
    and "\<forall>r \<in> set roots. is_dir (human_dir r) \<longleftrightarrow> read_dir fs (human_dir r) \<noteq> DirMissing"
  shows "load_roots fs is_dir roots names = Ok names' \<Longrightarrow> distinct (map fst names) \<Longrightarrow>
    distinct (map fst names') \<and> list_all (\<lambda>src. good_listing (read_dir fs (dir src))) (map root_source roots)
    \<and> mset (labels_of names' k) = mset (labels_of names k)
        + mset (map backing_label (backing fs (map root_source roots) k))"
  using assms(2)
proof (induction roots arbitrary: names)
  case Nil
  then show ?case
    by (simp add: backing_def)
next
  case (Cons r roots)
  have d: "dir (root_source r) = human_dir r"
    by (simp add: root_source_def)
  show ?case
  proof (cases "is_dir (human_dir r)")
    case True
    then obtain es mid where "sorted_entries fs r = Ok es" "load_files r es names = Ok mid"
        "load_roots fs is_dir roots mid = Ok names'"
      using Cons.prems(1) by (auto simp: and_then_Ok)
    then show ?thesis
      using load_root_spec [OF assms(1) Cons.prems(2)] Cons.IH [of mid] Cons.prems(3)
      by (simp add: backing_Cons d)
  next
    case False
    then have "read_dir fs (human_dir r) = DirMissing"
      using Cons.prems(3) by simp
    then show ?thesis
      using Cons False by (simp add: backing_Cons d)
  qed
qed


definition demo_root_fs :: filesystem where
  "demo_root_fs = demo_fs\<lparr>read_dir := (\<lambda>d. if d = ''/s/secrets.human.d''
     then DirEntries [Some ''README'', Some ''B.local.env'', Some ''A.env''] else DirMissing)\<rparr>"


section \<open>The frames and the broker\<close>

definition scoped_fields :: "secret_name \<Rightarrow> string option \<Rightarrow> string option \<Rightarrow> nat option \<Rightarrow> field_list" where
  "scoped_fields key tok terminal secs =
     (''key'', key) # (case tok of None \<Rightarrow> [] | Some t \<Rightarrow> [(''token'', t)])
     @ (case terminal of None \<Rightarrow> [] | Some t \<Rightarrow> [(''tty'', t)])
     @ (case secs of None \<Rightarrow> [] | Some n \<Rightarrow> [(''ttl'', show_nat n)])"

lemma scoped_frame_print: "scoped_frame operation key tok terminal secs = print_frame operation (scoped_fields key tok terminal secs)"
  by (simp add: scoped_frame_def scoped_fields_def print_frame_def print_field_def split: option.splits)

lemma scoped_fields_valid:
  assumes "parse_name raw = Ok key" and "\<forall>t. tok = Some t \<longrightarrow> tab \<notin> set t" and "\<forall>t. terminal = Some t \<longrightarrow> tab \<notin> set t"
  shows "valid_fields (scoped_fields key tok terminal secs)"
proof -
  have "tab \<notin> set key"
    using valid_name_chars [OF parse_name_self [OF assms(1)], of tab] by (auto simp: name_char_def ascii_defs)
  moreover have "tab \<notin> set (show_nat n)" for n
    using show_nat_digits [of n] by (auto simp: list_all_iff ascii_defs)
  ultimately show ?thesis
    using assms(2,3) by (auto simp: valid_fields_def scoped_fields_def split: option.splits)
qed

lemma scoped_fields_read:
  "field (scoped_fields key tok terminal secs) ''key'' = Some key"
  "field (scoped_fields key tok terminal secs) ''token'' = tok"
  "field (scoped_fields key tok terminal secs) ''tty'' = terminal"
  "field (scoped_fields key tok terminal secs) ''ttl'' = map_option show_nat secs"
  by (auto simp: field_def scoped_fields_def split: option.splits)

text \<open>The broker reads the command's requests as meant: a \<open>GET\<close> or \<open>REQUEST\<close> frame for a validated
  key parses to that operation on that key, with the session token, the terminal and the lifetime
  the command put there, provided token and terminal hold no tab.\<close>

theorem scoped_frame_parses:
  assumes "parse_name raw = Ok key" and "\<forall>t. tok = Some t \<longrightarrow> tab \<notin> set t" and "\<forall>t. terminal = Some t \<longrightarrow> tab \<notin> set t"
    and "\<forall>n. secs = Some n \<longrightarrow> 0 < n \<and> n \<le> u64_max"
    and "utf8_valid (scoped_frame op key tok terminal secs)"
    and "length (scoped_frame op key tok terminal secs) \<le> MAX_FRAME_BYTES"
    and "op = ''GET'' \<or> op = ''REQUEST''"
  shows "parse_request (scoped_frame op key tok terminal secs) =
     Ok ((if op = ''GET'' then Get else RequestGrant) key tok terminal secs)"
proof -
  have "parse_frame (scoped_frame op key tok terminal secs) = Ok (op, scoped_fields key tok terminal secs)"
    using assms(5-7) scoped_fields_valid [OF assms(1-3), of secs]
    unfolding scoped_frame_print by (intro parse_frame_print) auto
  moreover have "ttl_secs (scoped_fields key tok terminal secs) ''ttl'' = Ok secs"
    using assms(4) by (auto simp: ttl_secs_def scoped_fields_read split: option.splits)
  ultimately show ?thesis
    using assms(7) by (auto simp: parse_request_def request_of_def required_def scoped_fields_read SUBSCRIBE_VERB_def)
qed

theorem scoped_frame_parses_witness:
  "parse_request (''REQUEST'' @ tab # ''key=A'' @ tab # ''tty=/dev/pts/1'' @ tab # ''ttl=60'')
     = Ok (RequestGrant ''A'' None (Some ''/dev/pts/1'') (Some 60))"
proof -
  have f: "scoped_frame ''REQUEST'' ''A'' None (Some ''/dev/pts/1'') (Some 60)
      = ''REQUEST'' @ tab # ''key=A'' @ tab # ''tty=/dev/pts/1'' @ tab # ''ttl=60''"
    "parse_name ''A'' = Ok ''A''" "utf8_valid (''REQUEST'' @ tab # ''key=A'' @ tab # ''tty=/dev/pts/1'' @ tab # ''ttl=60'')"
    by code_simp+
  show ?thesis
    using scoped_frame_parses [of "''A''" "''A''" None "Some ''/dev/pts/1''" "Some 60" "''REQUEST''"] f
    by (simp add: u64_max_def MAX_FRAME_BYTES_def)
qed

text \<open>The lifetime reported by the broker is the one the command shows.\<close>

lemma granted_reply_understood:
  assumes "\<forall>n. remaining_secs (b_grants b) sc k (m_now1 m) = Some n \<longrightarrow> n \<le> u64_max"
  shows "parse_ttl_field (granted_fields m a sc k b) =
     (if a_requested_ttl a = None then None else remaining_secs (b_grants b) sc k (m_now1 m))"
proof -
  have none: "parse_ttl_field ''status=granted'' = None"
    by code_simp
  have "parse_ttl_field (''status=granted ttl='' @ show_nat n) = Some n" if "n \<le> u64_max" for n
  proof -
    have "split_on CHR '' '' (''status=granted'' @ CHR '' '' # (''ttl='' @ show_nat n)) = [''status=granted'', ''ttl='' @ show_nat n]"
      using show_nat_not_space [of n] by (subst split_on_append) (simp_all add: split_on_no_sep)
    moreover have "strip_prefix ''ttl='' (''ttl='' @ show_nat n) = Some (show_nat n)" "strip_prefix ''ttl='' ''status=granted'' = None"
      using strip_prefix_append [of "''ttl=''" "show_nat n"] by simp_all
    ultimately show ?thesis
      using that by (simp add: parse_ttl_field_def)
  qed
  then show ?thesis
    using assms none by (auto simp: granted_fields_def split: option.splits)
qed

end
