(* ===== verification/Lines.thy ===== *)
theory Lines
  imports Wire
begin

text \<open>
  The forward crate's bounded line readers: the request line of the arming socket and of the
  callback bridge (\<open>bridge/arm_request.rs\<close>, \<open>bridge/listener.rs\<close>), the grant socket's line
  (\<open>browser/request/line.rs\<close>), the bearer line of the browser relay (\<open>browser/token.rs\<close>) and the
  line of the URL channel (\<open>request.rs\<close>).

  A socket delivers a list of events, each with the clock that the loop reads before it; the end of
  the list is the end of the stream.  A \<open>set_read_timeout\<close> that fails ends every one of these
  loops like a read that fails, so it is the event \<open>ReadError OtherIo\<close>.
\<close>

type_synonym read_events = "(instant \<times> read_event) list"

section \<open>One byte at a time under one deadline\<close>

fun read_request_line :: "nat \<Rightarrow> instant \<Rightarrow> instant \<Rightarrow> string \<Rightarrow> read_events \<Rightarrow> (string \<times> read_events) option" where
  "read_request_line cap deadline closed line es =
     (if \<not> length line < cap then None
      else if deadline \<le> next_clock es closed then None
      else case es of
        [] \<Rightarrow> None
      | (t, ReadByte b) # rest \<Rightarrow>
          if b = newline then Some (line, rest) else read_request_line cap deadline closed (line @ [b]) rest
      | (t, ReadError k) # rest \<Rightarrow>
          if k = Interrupted then read_request_line cap deadline closed line rest else None)"

declare read_request_line.simps [simp del]

text \<open>The grant socket's line also ends with the stream or at the cap, and loses trailing carriage
  returns.\<close>

fun grant_line_loop :: "nat \<Rightarrow> instant \<Rightarrow> instant \<Rightarrow> string \<Rightarrow> read_events \<Rightarrow> string option" where
  "grant_line_loop cap deadline closed line es =
     (if \<not> length line < cap then Some line
      else if deadline \<le> next_clock es closed then None
      else case es of
        [] \<Rightarrow> Some line
      | (t, ReadByte b) # rest \<Rightarrow>
          if b = newline then Some line else grant_line_loop cap deadline closed (line @ [b]) rest
      | (t, ReadError k) # rest \<Rightarrow>
          if k = Interrupted then grant_line_loop cap deadline closed line rest else None)"

declare grant_line_loop.simps [simp del]

definition MAX_GRANT_LINE :: nat where
  "MAX_GRANT_LINE = 128"

definition carriage_return :: char where
  "carriage_return = CHR 0x0D"

definition strip_crs :: "string \<Rightarrow> string" where
  "strip_crs s = rev (dropWhile (\<lambda>c. c = carriage_return) (rev s))"

definition read_grant_line :: "instant \<Rightarrow> duration \<Rightarrow> instant \<Rightarrow> read_events \<Rightarrow> string option" where
  "read_grant_line now timeout closed es =
     (case instant_checked_add now timeout of
        None \<Rightarrow> None
      | Some deadline \<Rightarrow> map_option strip_crs (grant_line_loop MAX_GRANT_LINE deadline closed [] es))"

section \<open>The bearer line\<close>

definition RELAY_PREFIX :: string where
  "RELAY_PREFIX = ''RELAY ''"

definition MAX_RELAY_LINE :: nat where
  "MAX_RELAY_LINE = 128"

text \<open>The loop counts positions, \<open>left\<close> of them remaining, and an interrupted read uses one up.\<close>

fun relay_token_loop :: "nat \<Rightarrow> nat \<Rightarrow> instant \<Rightarrow> instant \<Rightarrow> string \<Rightarrow> read_events \<Rightarrow> string option" where
  "relay_token_loop 0 position deadline closed token es = None"
| "relay_token_loop (Suc left) position deadline closed token es =
     (if deadline \<le> next_clock es closed then None
      else case es of
        [] \<Rightarrow> None
      | (t, ReadByte b) # rest \<Rightarrow>
          (case nth_opt RELAY_PREFIX position of
             Some expected \<Rightarrow>
               if b = expected then relay_token_loop left (Suc position) deadline closed token rest else None
           | None \<Rightarrow>
               if b = newline then Some token
               else relay_token_loop left (Suc position) deadline closed (token @ [b]) rest)
      | (t, ReadError k) # rest \<Rightarrow>
          if k = Interrupted then relay_token_loop left (Suc position) deadline closed token rest else None)"

definition read_relay_token :: "instant \<Rightarrow> duration \<Rightarrow> instant \<Rightarrow> read_events \<Rightarrow> string option" where
  "read_relay_token now timeout closed es =
     (case instant_checked_add now timeout of
        None \<Rightarrow> None
      | Some deadline \<Rightarrow> relay_token_loop MAX_RELAY_LINE 0 deadline closed [] es)"

section \<open>The URL channel's line\<close>

text \<open>Here the reader is buffered: an event is what one \<open>fill_buf\<close> finds, with the time since the
  start of the read.\<close>

datatype fill_event = FillBytes string | FillError

definition MAX_URL_BYTES :: nat where
  "MAX_URL_BYTES = 8192"

definition URL_READ_TIMEOUT :: duration where
  "URL_READ_TIMEOUT = from_secs 5"

text \<open>\<open>read_until\<close> on at most \<open>limit\<close> buffered bytes: through the first newline, if there is one.\<close>

fun until_newline :: "nat \<Rightarrow> string \<Rightarrow> string \<times> string" where
  "until_newline 0 s = ([], s)"
| "until_newline (Suc n) [] = ([], [])"
| "until_newline (Suc n) (b # s) =
     (if b = newline then ([b], s) else case until_newline n s of (l, rest) \<Rightarrow> (b # l, rest))"

definition ends_with_newline :: "string \<Rightarrow> bool" where
  "ends_with_newline s \<longleftrightarrow> s \<noteq> [] \<and> last s = newline"

text \<open>A call of \<open>fill_buf\<close> returns what is left of the buffer first; since the take limit is below the
  buffered length only at the cap, nothing is left when the loop goes on.\<close>

fun read_url_line :: "string \<Rightarrow> (duration \<times> fill_event) list \<Rightarrow> string option" where
  "read_url_line bytes [] =
     (if length bytes < MAX_URL_BYTES then None
      else if ends_with_newline bytes then Some bytes else None)"
| "read_url_line bytes ((elapsed, e) # es) =
     (if \<not> length bytes < MAX_URL_BYTES then if ends_with_newline bytes then Some bytes else None
      else if URL_READ_TIMEOUT \<le> elapsed then None
      else case e of
        FillError \<Rightarrow> None
      | FillBytes chunk \<Rightarrow>
          if chunk = [] then None
          else let bytes' = bytes @ fst (until_newline (min (MAX_URL_BYTES - length bytes) (length chunk)) chunk)
               in if ends_with_newline bytes' then Some bytes' else read_url_line bytes' es)"

section \<open>What the readers accept\<close>

definition bytes_of :: "read_events \<Rightarrow> string" where
  "bytes_of es = concat (map (\<lambda>(t, e). case e of ReadByte b \<Rightarrow> [b] | ReadError _ \<Rightarrow> []) es)"

text \<open>Events that a reader gets through before its deadline.\<close>

definition timely :: "instant \<Rightarrow> read_events \<Rightarrow> bool" where
  "timely deadline es \<longleftrightarrow>
     list_all (\<lambda>(t, e). t < deadline \<and> (case e of ReadByte _ \<Rightarrow> True | ReadError k \<Rightarrow> k = Interrupted)) es"

lemma bytes_of_simps [simp]:
  "bytes_of [] = []" "bytes_of ((t, ReadByte b) # es) = b # bytes_of es"
  "bytes_of ((t, ReadError k) # es) = bytes_of es" "bytes_of (xs @ ys) = bytes_of xs @ bytes_of ys"
  by (simp_all add: bytes_of_def)

lemma timely_simps [simp]:
  "timely d []" "timely d ((t, ReadByte b) # es) \<longleftrightarrow> t < d \<and> timely d es"
  "timely d ((t, ReadError k) # es) \<longleftrightarrow> t < d \<and> k = Interrupted \<and> timely d es"
  "timely d (xs @ ys) \<longleftrightarrow> timely d xs \<and> timely d ys"
  by (simp_all add: timely_def)

lemma read_request_line_Nil [simp]: "read_request_line cap d closed line [] = None"
  by (simp add: read_request_line.simps)

lemma read_request_line_Byte [simp]:
  "read_request_line cap d closed line ((t, ReadByte b) # es) =
     (if length line < cap \<and> t < d then
        if b = newline then Some (line, es) else read_request_line cap d closed (line @ [b]) es
      else None)"
  by (simp add: read_request_line.simps [of _ _ _ _ "(t, ReadByte b) # es"])

lemma read_request_line_Error [simp]:
  "read_request_line cap d closed line ((t, ReadError k) # es) =
     (if length line < cap \<and> t < d \<and> k = Interrupted then read_request_line cap d closed line es else None)"
  by (simp add: read_request_line.simps [of _ _ _ _ "(t, ReadError k) # es"])

lemma read_request_line_sound:
  "read_request_line cap d closed line es = Some (l, rest) \<Longrightarrow>
   \<exists>pre t. es = pre @ (t, ReadByte newline) # rest \<and> timely d pre \<and> t < d
      \<and> l = line @ bytes_of pre \<and> newline \<notin> set (bytes_of pre) \<and> length l < cap"
proof (induction es arbitrary: line)
  case (Cons x es)
  obtain t e where x: "x = (t, e)" by fastforce
  show ?case
  proof (cases e)
    case (ReadByte b)
    show ?thesis
    proof (cases "b = newline")
      case True
      then show ?thesis
        using Cons.prems x ReadByte by (intro exI [of _ "[]"]) (auto split: if_splits)
    next
      case False
      then obtain pre u where "es = pre @ (u, ReadByte newline) # rest" "timely d pre" "u < d"
          "l = (line @ [b]) @ bytes_of pre" "newline \<notin> set (bytes_of pre)" "length l < cap"
        using Cons.IH [of "line @ [b]"] Cons.prems x ReadByte by (auto split: if_splits)
      then show ?thesis
        using Cons.prems x ReadByte False by (intro exI [of _ "x # pre"]) (auto split: if_splits)
    qed
  next
    case (ReadError k)
    then obtain pre u where "es = pre @ (u, ReadByte newline) # rest" "timely d pre" "u < d"
        "l = line @ bytes_of pre" "newline \<notin> set (bytes_of pre)" "length l < cap"
      using Cons.IH [of line] Cons.prems x by (auto split: if_splits)
    then show ?thesis
      using Cons.prems x ReadError by (intro exI [of _ "x # pre"]) (auto split: if_splits)
  qed
qed simp

lemma read_request_line_complete:
  assumes "timely d pre" and "t < d" and "newline \<notin> set (bytes_of pre)" and "length (line @ bytes_of pre) < cap"
  shows "read_request_line cap d closed line (pre @ (t, ReadByte newline) # rest) = Some (line @ bytes_of pre, rest)"
  using assms
proof (induction pre arbitrary: line)
  case Nil
  then show ?case by simp
next
  case (Cons x pre)
  obtain u e where x: "x = (u, e)" by fastforce
  show ?case
  proof (cases e)
    case (ReadByte b)
    then show ?thesis
      using Cons.prems Cons.IH [of "line @ [b]"] x
      by auto
  next
    case (ReadError k)
    then show ?thesis
      using Cons.prems Cons.IH [of line] x
      by auto
  qed
qed

text \<open>Exactly the timely lines below the cap are read, and nothing after the newline is consumed.\<close>

lemma read_request_line_iff:
  "read_request_line cap d closed [] es = Some (l, rest) \<longleftrightarrow>
   (\<exists>pre t. es = pre @ (t, ReadByte newline) # rest \<and> timely d pre \<and> t < d
      \<and> bytes_of pre = l \<and> newline \<notin> set l \<and> length l < cap)"
  using read_request_line_sound [of cap d closed "[]" es l rest] read_request_line_complete [of d _ _ "[]" cap closed rest]
  by fastforce

section \<open>Trimming a line\<close>

lemma white_strings_lasts: "list_all (\<lambda>p. p \<noteq> [] \<and> \<not> is_ascii_graphic (last p)) white_strings"
  by code_simp

lemma strip_any_rev_graphic: "is_ascii_graphic c \<Longrightarrow> strip_any (map rev white_strings) (c # s) = None"
proof (rule ccontr)
  assume c: "is_ascii_graphic c" and "strip_any (map rev white_strings) (c # s) \<noteq> None"
  then obtain p t where p: "p \<in> set white_strings" "c # s = rev p @ t"
    using strip_any_Some [of "map rev white_strings" "c # s"] by auto
  then have "p \<noteq> []" "\<not> is_ascii_graphic (last p)"
    using white_strings_lasts by (auto simp: list_all_iff)
  then show False
    using c p(2) by (cases p rule: rev_cases) auto
qed

lemma white_strings_newline:
  "map rev white_strings = [[CHR 0x09], [newline], [CHR 0x0B], [CHR 0x0C], [CHR 0x0D], [CHR '' '']] @ drop 6 (map rev white_strings)"
  by code_simp

lemma strip_any_rev_newline: "strip_any (map rev white_strings) (newline # s) = Some s"
  by (subst white_strings_newline) simp

text \<open>A line that starts and ends with a graphic ASCII character loses just its newline.\<close>

lemma trim_graphic:
  assumes "s \<noteq> []" and "is_ascii_graphic (hd s)" and "is_ascii_graphic (last s)"
  shows "trim s = s" and "trim (s @ [newline]) = s"
proof -
  obtain c r where c: "s = c # r" "is_ascii_graphic c"
    using assms by (cases s) auto
  obtain r' d where d: "s = r' @ [d]" "is_ascii_graphic d"
    using assms by (cases s rule: rev_cases) auto
  have start: "trim_start (s @ t) = s @ t" for t
    using c by (simp add: trim_start_def strip_any_graphic)
  have "strip_rounds n (map rev white_strings) (rev s) = rev s" for n
    using d strip_any_rev_graphic [of d "rev r'"] by (cases n) auto
  then have "trim_end s = s" and "trim_end (s @ [newline]) = s"
    by (simp_all add: trim_end_def strip_any_rev_newline)
  then show "trim s = s" and "trim (s @ [newline]) = s"
    using start [of "[]"] start [of "[newline]"] by (simp_all add: trim_def)
qed

section \<open>The bearer line, uninterrupted and interrupted\<close>

definition at_once :: "instant \<Rightarrow> string \<Rightarrow> read_events" where
  "at_once t s = map (\<lambda>b. (t, ReadByte b)) s"

lemma at_once_simps [simp]: "at_once t [] = []" "at_once t (b # s) = (t, ReadByte b) # at_once t s"
  by (simp_all add: at_once_def)

lemma relay_token_body:
  assumes "t < d" and "newline \<notin> set tok" and "length tok < left" and "6 \<le> position"
  shows "relay_token_loop left position d closed acc (at_once t (tok @ [newline]) @ rest) = Some (acc @ tok)"
  using assms
proof (induction tok arbitrary: left position acc)
  case Nil
  then obtain n where "left = Suc n" by (cases left) auto
  then show ?case
    using Nil.prems by (simp add: nth_opt_def RELAY_PREFIX_def)
next
  case (Cons b tok)
  then obtain n where "left = Suc n" by (cases left) auto
  then show ?case
    using Cons.prems Cons.IH [of n "Suc position" "acc @ [b]"] by (auto simp: nth_opt_def RELAY_PREFIX_def)
qed

lemma relay_token_read:
  assumes "instant_checked_add now timeout = Some d" and "t < d" and "newline \<notin> set tok" and "length tok \<le> 121"
  shows "read_relay_token now timeout closed (at_once t (RELAY_PREFIX @ tok @ [newline]) @ rest) = Some tok"
proof -
  obtain m :: nat where m: "m = 122"
    by simp
  then have n: "MAX_RELAY_LINE = Suc (Suc (Suc (Suc (Suc (Suc m)))))"
    by (simp add: MAX_RELAY_LINE_def)
  have p: "nth_opt RELAY_PREFIX 0 = Some CHR ''R''" "nth_opt RELAY_PREFIX (Suc 0) = Some CHR ''E''"
      "nth_opt RELAY_PREFIX (Suc (Suc 0)) = Some CHR ''L''" "nth_opt RELAY_PREFIX (Suc (Suc (Suc 0))) = Some CHR ''A''"
      "nth_opt RELAY_PREFIX (Suc (Suc (Suc (Suc 0)))) = Some CHR ''Y''"
      "nth_opt RELAY_PREFIX (Suc (Suc (Suc (Suc (Suc 0))))) = Some CHR '' ''"
    by (simp_all add: nth_opt_def RELAY_PREFIX_def)
  have e: "at_once t (RELAY_PREFIX @ tok @ [newline]) @ rest =
      at_once t ''RELAY '' @ (at_once t (tok @ [newline]) @ rest)"
    by (simp add: RELAY_PREFIX_def)
  have "relay_token_loop m (Suc (Suc (Suc (Suc (Suc (Suc 0)))))) d closed [] (at_once t (tok @ [newline]) @ rest) = Some tok"
    using relay_token_body [of t d tok m 6 closed "[]" rest] assms m by (simp add: numeral_eq_Suc)
  then show ?thesis
    using assms(1,2) unfolding read_relay_token_def n e
    by (simp add: p)
qed

text \<open>C40: An interrupted system call breaks the bearer line: a signal that arrives before the first byte
  makes the relay refuse every well-formed line, whatever its token, because the interrupted
  read uses up a position of the expected prefix; and one that arrives after the first byte
  makes it accept a line whose prefix misses a letter.  The other line readers of the crate
  retry the read in place.\<close>

theorem relay_token_lost_on_interrupt:
  "read_relay_token now timeout closed ((t, ReadError Interrupted) # at_once t (RELAY_PREFIX @ tok @ [newline])) = None
   \<and> read_relay_token 0 5 9 ((0, ReadByte CHR ''R'') # (0, ReadError Interrupted) # at_once 0 (''LAY abc'' @ [newline]))
     = Some ''abc''"
proof
  obtain m :: nat where n: "MAX_RELAY_LINE = Suc (Suc m)"
    by (simp add: MAX_RELAY_LINE_def numeral_eq_Suc)
  have p: "nth_opt RELAY_PREFIX (Suc 0) = Some CHR ''E''"
    by (simp add: nth_opt_def RELAY_PREFIX_def)
  have "at_once t (RELAY_PREFIX @ tok @ [newline]) = (t, ReadByte CHR ''R'') # at_once t (''ELAY '' @ tok @ [newline])"
    by (simp add: RELAY_PREFIX_def)
  then show "read_relay_token now timeout closed ((t, ReadError Interrupted) # at_once t (RELAY_PREFIX @ tok @ [newline])) = None"
    unfolding read_relay_token_def n by (simp add: p split: option.split)
  obtain k :: nat where k: "MAX_RELAY_LINE = Suc (Suc (Suc (Suc (Suc (Suc (Suc (Suc (Suc (Suc k)))))))))"
    by (simp add: MAX_RELAY_LINE_def numeral_eq_Suc)
  have d: "instant_checked_add 0 5 = Some 5"
    by (simp add: time_ops)
  show "read_relay_token 0 5 9 ((0, ReadByte CHR ''R'') # (0, ReadError Interrupted) # at_once 0 (''LAY abc'' @ [newline]))
     = Some ''abc''"
    unfolding read_relay_token_def k d by (simp add: nth_opt_def RELAY_PREFIX_def)
qed

end
