(* ===== verification/Net.thy ===== *)
theory Net
  imports Prelude
begin

text \<open>
  The fragment of \<open>std::net\<close> that the forward crate uses: addresses and ports at their width, the
  address classes its policies test, the textual parser behind \<open>str::parse::<IpAddr>\<close> and the
  dotted-quad printer.
\<close>

type_synonym port = "16 word"

datatype ip_addr = V4 "32 word" | V6 "128 word"

type_synonym socket_addr = "ip_addr \<times> port"

definition LOCALHOST :: ip_addr where
  "LOCALHOST = V4 0x7F000001"

definition BROADCAST :: ip_addr where
  "BROADCAST = V4 0xFFFFFFFF"

text \<open>An IPv4-mapped IPv6 address \<open>::ffff:a.b.c.d\<close> is the IPv4 address.\<close>

fun to_canonical :: "ip_addr \<Rightarrow> ip_addr" where
  "to_canonical (V4 a) = V4 a"
| "to_canonical (V6 a) = (if drop_bit 32 a = 0xFFFF then V4 (ucast a) else V6 a)"

fun is_loopback :: "ip_addr \<Rightarrow> bool" where
  "is_loopback (V4 a) \<longleftrightarrow> drop_bit 24 a = 127"
| "is_loopback (V6 a) \<longleftrightarrow> a = 1"

fun is_unspecified :: "ip_addr \<Rightarrow> bool" where
  "is_unspecified (V4 a) \<longleftrightarrow> a = 0"
| "is_unspecified (V6 a) \<longleftrightarrow> a = 0"

fun is_multicast :: "ip_addr \<Rightarrow> bool" where
  "is_multicast (V4 a) \<longleftrightarrow> drop_bit 28 a = 14"
| "is_multicast (V6 a) \<longleftrightarrow> drop_bit 120 a = 0xFF"

section \<open>Reading an address\<close>

definition to_digit :: "nat \<Rightarrow> char \<Rightarrow> nat option" where
  "to_digit radix c =
     (let v = (if is_ascii_digit c then char_code c - 48
               else if in_range 97 122 c then char_code c - 87
               else if in_range 65 90 c then char_code c - 55
               else radix)
      in if v < radix then Some v else None)"

definition digit_run :: "nat \<Rightarrow> string \<Rightarrow> string" where
  "digit_run radix s = takeWhile (\<lambda>c. to_digit radix c \<noteq> None) s"

definition run_value :: "nat \<Rightarrow> string \<Rightarrow> nat" where
  "run_value radix ds = foldl (\<lambda>n c. radix * n + the (to_digit radix c)) 0 ds"

text \<open>A number of at most \<open>max_digits\<close> digits that fits the target type; a leading zero is
  refused for decimal octets.\<close>

definition read_number :: "nat \<Rightarrow> nat \<Rightarrow> bool \<Rightarrow> nat \<Rightarrow> string \<Rightarrow> (nat \<times> string) option" where
  "read_number radix max_digits allow_zero_prefix mx s =
     (let ds = digit_run radix s in
      if ds = [] \<or> max_digits < length ds then None
      else if \<not> allow_zero_prefix \<and> hd ds = CHR ''0'' \<and> 1 < length ds then None
      else if run_value radix ds \<le> mx then Some (run_value radix ds, drop (length ds) s)
      else None)"

definition read_separator :: "char \<Rightarrow> nat \<Rightarrow> (string \<Rightarrow> ('a \<times> string) option) \<Rightarrow> string \<Rightarrow> ('a \<times> string) option" where
  "read_separator sep i p s =
     (if 0 < i then (case s of [] \<Rightarrow> None | c # rest \<Rightarrow> if c = sep then p rest else None)
      else p s)"

fun read_octets :: "nat \<Rightarrow> nat \<Rightarrow> string \<Rightarrow> (nat list \<times> string) option" where
  "read_octets i 0 s = Some ([], s)"
| "read_octets i (Suc n) s =
     (case read_separator CHR ''.'' i (read_number 10 3 False 255) s of
        None \<Rightarrow> None
      | Some (v, rest) \<Rightarrow> map_option (\<lambda>(vs, t). (v # vs, t)) (read_octets (Suc i) n rest))"

definition read_ipv4_addr :: "string \<Rightarrow> (nat list \<times> string) option" where
  "read_ipv4_addr s = read_octets 0 4 s"

text \<open>
  Up to \<open>n\<close> further groups of an IPv6 address, \<open>i\<close> having been read: the groups, whether the last
  two came from an embedded IPv4 address, and the rest of the text.
\<close>

fun read_groups :: "nat \<Rightarrow> nat \<Rightarrow> string \<Rightarrow> nat list \<times> bool \<times> string" where
  "read_groups i 0 s = ([], False, s)"
| "read_groups i (Suc n) s =
     (case (if 0 < n then read_separator CHR '':'' i read_ipv4_addr s else None) of
        Some (os, rest) \<Rightarrow> ([256 * (os ! 0) + os ! 1, 256 * (os ! 2) + os ! 3], True, rest)
      | None \<Rightarrow>
          (case read_separator CHR '':'' i (read_number 16 4 True 65535) s of
             None \<Rightarrow> ([], False, s)
           | Some (g, rest) \<Rightarrow>
               (case read_groups (Suc i) n rest of (gs, v4, t) \<Rightarrow> (g # gs, v4, t))))"

definition read_ipv6_addr :: "string \<Rightarrow> (nat list \<times> string) option" where
  "read_ipv6_addr s =
     (case read_groups 0 8 s of (hd_groups, hd_ipv4, rest) \<Rightarrow>
        if length hd_groups = 8 then Some (hd_groups, rest)
        else if hd_ipv4 then None
        else (case strip_prefix ''::'' rest of
          None \<Rightarrow> None
        | Some rest2 \<Rightarrow>
            (case read_groups 0 (8 - (length hd_groups + 1)) rest2 of (tl_groups, _, rest3) \<Rightarrow>
               Some (hd_groups @ replicate (8 - length hd_groups - length tl_groups) 0 @ tl_groups,
                     rest3))))"

definition be_word :: "'a::len word \<Rightarrow> nat list \<Rightarrow> 'a word" where
  "be_word base vs = foldl (\<lambda>w v. base * w + of_nat v) 0 vs"

definition parse_ip_addr :: "string \<Rightarrow> ip_addr option" where
  "parse_ip_addr s =
     (case read_ipv4_addr s of
        Some (os, rest) \<Rightarrow> if rest = [] then Some (V4 (be_word 256 os)) else None
      | None \<Rightarrow>
          (case read_ipv6_addr s of
             Some (gs, rest) \<Rightarrow> if rest = [] then Some (V6 (be_word 65536 gs)) else None
           | None \<Rightarrow> None))"

text \<open>\<open>Display\<close> of an IPv4 address.\<close>

definition octets :: "32 word \<Rightarrow> nat list" where
  "octets a = map (\<lambda>k. unat (drop_bit k a) mod 256) [24, 16, 8, 0]"

definition show_ipv4 :: "32 word \<Rightarrow> string" where
  "show_ipv4 a = join_with CHR ''.'' (map show_nat (octets a))"

text \<open>\<open>Display\<close> of an IPv6 address: the longest run of two or more zero groups becomes \<open>::\<close>.\<close>

definition hex_char :: "nat \<Rightarrow> char" where
  "hex_char d = char_of (if d < 10 then 48 + d else 87 + d)"

fun show_hex :: "nat \<Rightarrow> string" where
  "show_hex n = (if n < 16 then [hex_char n] else show_hex (n div 16) @ [hex_char (n mod 16)])"

declare show_hex.simps [simp del]

definition segments :: "128 word \<Rightarrow> nat list" where
  "segments a = map (\<lambda>k. unat (drop_bit k a) mod 65536) [112, 96, 80, 64, 48, 32, 16, 0]"

fun zero_span :: "nat \<Rightarrow> nat \<times> nat \<Rightarrow> nat \<times> nat \<Rightarrow> nat list \<Rightarrow> nat \<times> nat" where
  "zero_span i longest current [] = longest"
| "zero_span i longest current (g # gs) =
     (if g = 0 then
        let current' = ((if snd current = 0 then i else fst current), Suc (snd current))
        in zero_span (Suc i) (if snd longest < snd current' then current' else longest) current' gs
      else zero_span (Suc i) longest (0, 0) gs)"

definition fmt_subslice :: "nat list \<Rightarrow> string" where
  "fmt_subslice gs = join_with CHR '':'' (map show_hex gs)"

definition show_ipv6 :: "128 word \<Rightarrow> string" where
  "show_ipv6 a =
     (if drop_bit 32 a = 0xFFFF then ''::ffff:'' @ show_ipv4 (ucast a)
      else let gs = segments a; (start, len) = zero_span 0 (0, 0) (0, 0) gs
           in if 1 < len then fmt_subslice (take start gs) @ ''::'' @ fmt_subslice (drop (start + len) gs)
              else fmt_subslice gs)"

fun show_ip :: "ip_addr \<Rightarrow> string" where
  "show_ip (V4 a) = show_ipv4 a"
| "show_ip (V6 a) = show_ipv6 a"

section \<open>Facts\<close>

lemma to_canonical_idem [simp]: "to_canonical (to_canonical ip) = to_canonical ip"
  by (cases ip) auto

lemma to_canonical_V4_iff:
  "to_canonical ip = V4 a \<longleftrightarrow> ip = V4 a \<or> (\<exists>b. ip = V6 b \<and> drop_bit 32 b = 0xFFFF \<and> a = ucast b)"
  by (cases ip) auto

lemma to_digit_10: "to_digit 10 c \<noteq> None \<longleftrightarrow> is_ascii_digit c"
  by (auto simp: to_digit_def Let_def ascii_defs)

lemma to_digit_10_val: "is_ascii_digit c \<Longrightarrow> to_digit 10 c = Some (digit_val c)"
  by (auto simp: to_digit_def Let_def ascii_defs digit_val_def)

lemma run_value_10: "list_all is_ascii_digit ds \<Longrightarrow> run_value 10 ds = dec_value ds"
proof -
  have "foldl (\<lambda>n c. 10 * n + the (to_digit 10 c)) k ds = foldl (\<lambda>n c. 10 * n + digit_val c) k ds"
    if "list_all is_ascii_digit ds" for k
    using that by (induction ds arbitrary: k) (auto simp: to_digit_10_val)
  then show "list_all is_ascii_digit ds \<Longrightarrow> ?thesis"
    by (simp add: run_value_def dec_value_def)
qed

lemma digit_run_show:
  "(case rest of [] \<Rightarrow> True | c # _ \<Rightarrow> \<not> is_ascii_digit c) \<Longrightarrow>
   digit_run 10 (show_nat n @ rest) = show_nat n"
proof -
  assume "case rest of [] \<Rightarrow> True | c # _ \<Rightarrow> \<not> is_ascii_digit c"
  then have "takeWhile is_ascii_digit rest = []"
    by (cases rest) auto
  moreover have "\<forall>c \<in> set (show_nat n). is_ascii_digit c"
    using show_nat_digits [of n] by (simp add: list_all_iff)
  ultimately show ?thesis
    unfolding digit_run_def to_digit_10 by (simp add: takeWhile_append2)
qed

lemma show_nat_hd_zero: "hd (show_nat n) = CHR ''0'' \<Longrightarrow> n = 0"
proof (induction n rule: show_nat.induct)
  case (1 n)
  show ?case
  proof (cases "n < 10")
    case True
    then have "digit_val (hd (show_nat n)) = n"
      by (subst show_nat.simps) (simp add: digit_val_digit_char)
    then show ?thesis
      using "1.prems" by (simp add: digit_val_def char_code_def)
  next
    case False
    then have "hd (show_nat n) = hd (show_nat (n div 10))"
      by (subst show_nat.simps) simp
    then show ?thesis
      using "1.IH" False "1.prems" by simp
  qed
qed

lemma show_nat_0: "show_nat 0 = ''0''"
  by (subst show_nat.simps) (simp add: digit_char_def, code_simp)

lemma read_number_show:
  assumes "case rest of [] \<Rightarrow> True | c # _ \<Rightarrow> \<not> is_ascii_digit c" and "n \<le> 255"
  shows "read_number 10 3 False 255 (show_nat n @ rest) = Some (n, rest)"
proof -
  have "length (show_nat n) \<le> 3"
    using assms(2) by (intro length_show_nat) auto
  moreover have "\<not> (hd (show_nat n) = CHR ''0'' \<and> 1 < length (show_nat n))"
    using show_nat_hd_zero [of n] by (auto simp: show_nat_0)
  ultimately show ?thesis
    using assms by (simp add: read_number_def digit_run_show run_value_10 Let_def)
qed

definition be_value :: "nat \<Rightarrow> nat list \<Rightarrow> nat" where
  "be_value base vs = foldl (\<lambda>n v. base * n + v) 0 vs"

lemma be_word_value: "be_word (of_nat base) vs = of_nat (be_value base vs)"
proof -
  have "foldl (\<lambda>w v. of_nat base * w + of_nat v) (of_nat k) vs = of_nat (foldl (\<lambda>n v. base * n + v) k vs)" for k
    by (induction vs arbitrary: k) (simp_all flip: of_nat_mult of_nat_add)
  from this [of 0] show ?thesis
    by (simp add: be_word_def be_value_def)
qed

lemma be_value_octets: "be_value 256 (octets a) = unat a"
proof -
  have "unat a < 2 ^ LENGTH(32)"
    by (rule unsigned_less)
  then have "unat a div 16777216 mod 256 = unat a div 16777216"
    by simp
  moreover have "n = 256 * (n div 256) + n mod 256" for n :: nat
    by simp
  then have "unat a = 256 * (256 * (256 * (unat a div 256 div 256 div 256)
      + unat a div 256 div 256 mod 256) + unat a div 256 mod 256) + unat a mod 256"
    by metis
  ultimately show ?thesis
    unfolding octets_def unat_drop_bit_eq by (simp add: be_value_def drop_bit_eq_div flip: div_mult2_eq)
qed

lemma octets_le: "v \<in> set (octets a) \<Longrightarrow> v \<le> 255"
  by (auto simp: octets_def)

lemma read_octets_show:
  assumes "\<forall>v \<in> set vs. v \<le> 255" and "vs \<noteq> []"
  shows "read_octets i (length vs) ((if 0 < i then ''.'' else []) @ join_with CHR ''.'' (map show_nat vs)) = Some (vs, [])"
  using assms
proof (induction vs arbitrary: i)
  case (Cons v vs)
  have dot: "\<not> is_ascii_digit CHR ''.''"
    by code_simp
  show ?case
  proof (cases vs)
    case Nil
    then show ?thesis
      using Cons.prems read_number_show [of "[]" v] by (cases i) (simp_all add: read_separator_def)
  next
    case (Cons w ws)
    have "read_octets (Suc i) (length vs) (''.'' @ join_with CHR ''.'' (map show_nat vs)) = Some (vs, [])"
      using Cons.IH [of "Suc i"] Cons.prems Cons by simp
    then show ?thesis
      using Cons.prems Cons dot read_number_show [of "CHR ''.'' # join_with CHR ''.'' (map show_nat vs)" v]
      by (cases i) (simp_all add: read_separator_def)
  qed
qed simp

lemma parse_show_ipv4: "parse_ip_addr (show_ipv4 a) = Some (V4 a)"
proof -
  have "length (octets a) = 4" and "octets a \<noteq> []"
    by (simp_all add: octets_def)
  then have "read_ipv4_addr (show_ipv4 a) = Some (octets a, [])"
    using read_octets_show [of "octets a" 0] octets_le [of _ a]
    by (simp add: read_ipv4_addr_def show_ipv4_def)
  then show ?thesis
    using be_word_value [of 256 "octets a", where 'a = 32] by (simp add: parse_ip_addr_def be_value_octets)
qed

subsection \<open>Printed IPv6 addresses parse back\<close>

lemma hex_char_digit: "d < 16 \<Longrightarrow> to_digit 16 (hex_char d) = Some d"
  by (cases "d < 10") (auto simp: to_digit_def hex_char_def Let_def is_ascii_digit_def in_range_def char_code_char_of)

lemma show_hex_not_Nil [simp]: "show_hex n \<noteq> []"
  by (subst show_hex.simps) simp

lemma show_hex_digits: "c \<in> set (show_hex n) \<Longrightarrow> to_digit 16 c \<noteq> None"
proof (induction n rule: show_hex.induct)
  case (1 n)
  then show ?case
    by (subst (asm) (2) show_hex.simps) (auto simp: hex_char_digit split: if_splits)
qed

lemma run_value_snoc: "run_value r (ds @ [c]) = r * run_value r ds + the (to_digit r c)"
  by (simp add: run_value_def)

lemma run_value_show_hex: "run_value 16 (show_hex n) = n"
proof (induction n rule: show_hex.induct)
  case (1 n)
  then show ?case
    by (subst show_hex.simps) (simp add: run_value_snoc hex_char_digit, simp add: run_value_def hex_char_digit)
qed

lemma length_show_hex: "n < 16 ^ k \<Longrightarrow> 0 < k \<Longrightarrow> length (show_hex n) \<le> k"
proof (induction n arbitrary: k rule: show_hex.induct)
  case (1 n)
  show ?case
  proof (cases "n < 16")
    case True
    with "1.prems" show ?thesis by (subst show_hex.simps) simp
  next
    case False
    with "1.prems" obtain j where k: "k = Suc (Suc j)"
      by (metis One_nat_def gr0_implies_Suc old.nat.exhaust power_one_right)
    with "1.prems" have "n div 16 < 16 ^ Suc j" by (simp add: div_less_iff_less_mult)
    with "1.IH" [OF False, of "Suc j"] False k show ?thesis by (subst show_hex.simps) simp
  qed
qed

lemma read_group_show:
  assumes "case rest of [] \<Rightarrow> True | c # _ \<Rightarrow> c = CHR '':''" and "g < 65536"
  shows "read_number 16 4 True 65535 (show_hex g @ rest) = Some (g, rest)"
proof -
  have "to_digit 16 CHR '':'' = None"
    by code_simp
  then have "digit_run 16 (show_hex g @ rest) = show_hex g"
    using assms(1) show_hex_digits [of _ g] unfolding digit_run_def
    by (cases rest) (auto simp: takeWhile_append2 takeWhile_eq_all_conv)
  moreover have "length (show_hex g) \<le> 4"
    using assms(2) by (intro length_show_hex) auto
  ultimately show ?thesis
    using assms(2) by (simp add: read_number_def run_value_show_hex Let_def)
qed

lemma read_number_suffix: "read_number r d z mx s = Some (v, rest) \<Longrightarrow> set rest \<subseteq> set s"
  by (auto simp: read_number_def Let_def split: if_splits dest: in_set_dropD)

lemma read_ipv4_needs_dot: "read_ipv4_addr s = Some x \<Longrightarrow> CHR ''.'' \<in> set s"
  unfolding read_ipv4_addr_def
  by (auto simp: numeral_eq_Suc read_separator_def split: option.splits list.splits if_splits
      dest!: read_number_suffix)

lemma hex_no_dot: "CHR ''.'' \<notin> set (show_hex n)"
proof -
  have "to_digit 16 CHR ''.'' = None" by code_simp
  then show ?thesis using show_hex_digits by blast
qed

lemma set_join_with: "set (join_with c ps) \<subseteq> insert c (\<Union> (set ` set ps))"
  by (induction c ps rule: join_with.induct) auto

lemma fmt_no_dot: "CHR ''.'' \<notin> set (fmt_subslice gs)"
  unfolding fmt_subslice_def using set_join_with [of "CHR '':''" "map show_hex gs"] hex_no_dot by auto

lemma read_ipv4_no_dot: "CHR ''.'' \<notin> set s \<Longrightarrow> read_ipv4_addr s = None"
  by (metis not_None_eq read_ipv4_needs_dot)

lemma separated_ipv4_no_dot: "CHR ''.'' \<notin> set s \<Longrightarrow> read_separator c i read_ipv4_addr s = None"
  by (auto simp: read_separator_def read_ipv4_no_dot split: list.splits)

text \<open>The groups before a double colon, or up to the end of the text, are read back in order.\<close>

lemma read_groups_stop:
  assumes "rest = [] \<or> (\<exists>t. rest = ''::'' @ t)" and "CHR ''.'' \<notin> set rest"
  shows "read_groups i n rest = ([], False, rest)"
proof (cases n)
  case (Suc m)
  have "to_digit 16 CHR '':'' = None"
    by code_simp
  then have none: "read_number 16 4 True 65535 t = None" if "t = [] \<or> hd t = CHR '':''" for t
    using that by (cases t) (auto simp: read_number_def digit_run_def)
  have "read_separator CHR '':'' i (read_number 16 4 True 65535) rest = None"
    using assms(1) none by (auto simp: read_separator_def split: list.splits)
  then show ?thesis
    using Suc assms(2) by (simp add: separated_ipv4_no_dot)
qed simp

lemma read_groups_show:
  assumes "rest = [] \<or> (\<exists>t. rest = ''::'' @ t)" and "CHR ''.'' \<notin> set rest"
    and "length gs \<le> n" and "\<forall>g \<in> set gs. g < 65536"
  shows "read_groups i n ((if 0 < i \<and> gs \<noteq> [] then '':'' else []) @ fmt_subslice gs @ rest) = (gs, False, rest)"
  using assms(3,4)
proof (induction gs arbitrary: i n)
  case Nil
  then show ?case
    using read_groups_stop assms(1,2) by (simp add: fmt_subslice_def)
next
  case (Cons g gs)
  then obtain m where n: "n = Suc m"
    by (cases n) auto
  define more where "more = (if gs \<noteq> [] then '':'' else []) @ fmt_subslice gs @ rest"
  have split: "fmt_subslice (g # gs) @ rest = show_hex g @ more"
    by (cases gs) (simp_all add: fmt_subslice_def more_def)
  have "case more of [] \<Rightarrow> True | c # _ \<Rightarrow> c = CHR '':''"
    using assms(1) by (cases gs) (auto simp: more_def fmt_subslice_def)
  then have "read_number 16 4 True 65535 (show_hex g @ more) = Some (g, more)"
    using Cons.prems by (intro read_group_show) auto
  moreover define inp where "inp = (if 0 < i then '':'' else []) @ show_hex g @ more"
  ultimately have group: "read_separator CHR '':'' i (read_number 16 4 True 65535) inp = Some (g, more)"
    by (simp add: read_separator_def)
  have "CHR ''.'' \<notin> set inp"
    using fmt_no_dot [of gs] hex_no_dot [of g] assms(2) by (auto simp: inp_def more_def)
  then have "read_groups i n inp = (case read_groups (Suc i) m more of (gs', v4, t) \<Rightarrow> (g # gs', v4, t))"
    using group by (simp add: n separated_ipv4_no_dot)
  moreover have "read_groups (Suc i) m more = (gs, False, rest)"
    using Cons.IH [of m "Suc i"] Cons.prems n by (simp add: more_def)
  ultimately show ?case
    using split by (simp add: inp_def)
qed

text \<open>The span found is a run of zeros of the groups.\<close>

lemma zero_span_sound:
  assumes "zero_span i longest current suf = (start, len)" and "gs = pre @ suf" and "i = length pre"
    and "fst longest + snd longest \<le> i" and "\<forall>k < snd longest. gs ! (fst longest + k) = 0"
    and "snd current = 0 \<or> fst current + snd current = i"
    and "\<forall>k < snd current. gs ! (fst current + k) = 0"
  shows "start + len \<le> length gs \<and> (\<forall>k < len. gs ! (start + k) = 0)"
  using assms
proof (induction suf arbitrary: i longest current pre)
  case Nil
  then show ?case by auto
next
  case (Cons g suf)
  show ?case
  proof (cases "g = 0")
    case True
    define cur where "cur = ((if snd current = 0 then i else fst current), Suc (snd current))"
    have at: "gs ! i = 0"
      using Cons.prems(2,3) True by simp
    have cur: "fst cur + snd cur = Suc i" "\<forall>k < snd cur. gs ! (fst cur + k) = 0"
      using Cons.prems(6,7) at by (auto simp: cur_def less_Suc_eq)
    have rest: "zero_span (Suc i) (if snd longest < snd cur then cur else longest) cur suf = (start, len)"
      using Cons.prems(1) True unfolding cur_def by (simp add: Let_def split: if_splits)
    show ?thesis
      by (rule Cons.IH [OF rest, where pre = "pre @ [g]"]) (use cur Cons.prems(2-5) in auto)
  next
    case False
    then have rest: "zero_span (Suc i) longest (0, 0) suf = (start, len)"
      using Cons.prems(1) by simp
    show ?thesis
      by (rule Cons.IH [OF rest, where pre = "pre @ [g]"]) (use Cons.prems in auto)
  qed
qed

lemma zero_run_replicate:
  "start + len \<le> length gs \<Longrightarrow> \<forall>k < len. gs ! (start + k) = 0 \<Longrightarrow>
   take start gs @ replicate len 0 @ drop (start + len) gs = (gs :: nat list)"
  by (rule nth_equalityI) (auto simp: nth_append min_def not_less dest: le_Suc_ex)

lemma segments_bound: "g \<in> set (segments a) \<Longrightarrow> g < 65536"
  by (auto simp: segments_def)

lemma length_segments [simp]: "length (segments a) = 8"
  by (simp add: segments_def)

lemma be_value_segments: "be_value 65536 (segments a) = unat a"
proof -
  have "unat a < 2 ^ LENGTH(128)"
    by (rule unsigned_less)
  then have "unat a div 2 ^ 112 mod 65536 = unat a div 2 ^ 112"
    by (simp add: less_mult_imp_div_less)
  moreover have "n = 65536 * (n div 65536) + n mod 65536" for n :: nat
    by simp
  then have "unat a = 65536 * (65536 * (65536 * (65536 * (65536 * (65536 * (65536 *
      (unat a div 65536 div 65536 div 65536 div 65536 div 65536 div 65536 div 65536)
      + unat a div 65536 div 65536 div 65536 div 65536 div 65536 div 65536 mod 65536)
      + unat a div 65536 div 65536 div 65536 div 65536 div 65536 mod 65536)
      + unat a div 65536 div 65536 div 65536 div 65536 mod 65536)
      + unat a div 65536 div 65536 div 65536 mod 65536)
      + unat a div 65536 div 65536 mod 65536) + unat a div 65536 mod 65536) + unat a mod 65536"
    by metis
  ultimately show ?thesis
    unfolding segments_def unat_drop_bit_eq by (simp add: be_value_def drop_bit_eq_div flip: div_mult2_eq)
qed

lemma read_show_ipv6:
  assumes "drop_bit 32 a \<noteq> (0xFFFF :: 128 word)"
  shows "read_ipv6_addr (show_ipv6 a) = Some (segments a, [])"
proof -
  define gs where "gs = segments a"
  obtain start len where span: "zero_span 0 (0, 0) (0, 0) gs = (start, len)"
    by fastforce
  then have run: "start + len \<le> length gs" "\<forall>k < len. gs ! (start + k) = 0"
    using zero_span_sound [OF span, of gs "[]"] by auto
  have gs: "length gs = 8" "\<forall>g \<in> set gs. g < 65536"
    using segments_bound by (auto simp: gs_def)
  show ?thesis
  proof (cases "1 < len")
    case True
    define hs ts where "hs = take start gs" and "ts = drop (start + len) gs"
    have parts: "\<forall>g \<in> set hs. g < 65536" "\<forall>g \<in> set ts. g < 65536" "length hs = start" "length ts = 8 - start - len"
      using gs run(1) by (auto simp: hs_def ts_def dest: in_set_takeD in_set_dropD)
    have "read_groups 0 8 (fmt_subslice hs @ ''::'' @ fmt_subslice ts) = (hs, False, ''::'' @ fmt_subslice ts)"
      using read_groups_show [of "''::'' @ fmt_subslice ts" hs 8 0] parts fmt_no_dot [of ts] run(1) gs(1) by auto
    moreover have "read_groups 0 (8 - (start + 1)) (fmt_subslice ts) = (ts, False, [])"
      using read_groups_show [of "[]" ts "8 - (start + 1)" 0] parts True by auto
    moreover have "hs @ replicate (8 - length hs - length ts) 0 @ ts = gs"
      using zero_run_replicate [OF run] parts(3,4) gs(1) run(1) by (simp add: hs_def ts_def)
    ultimately show ?thesis
      using assms span True parts(3) run(1) gs(1)
      by (simp add: show_ipv6_def read_ipv6_addr_def Let_def flip: gs_def hs_def ts_def)
  next
    case False
    have "read_groups 0 8 (fmt_subslice gs) = (gs, False, [])"
      using read_groups_show [of "[]" gs 8 0] gs by auto
    then show ?thesis
      using assms span False gs(1) by (simp add: show_ipv6_def read_ipv6_addr_def Let_def flip: gs_def)
  qed
qed

text \<open>A canonical address survives being printed and parsed.\<close>

lemma parse_show_ip: "to_canonical ip = ip \<Longrightarrow> parse_ip_addr (show_ip ip) = Some ip"
proof (cases ip)
  case (V6 a)
  assume "to_canonical ip = ip"
  then have map: "drop_bit 32 a \<noteq> (0xFFFF :: 128 word)"
    using V6 by (auto split: if_splits)
  have "CHR ''.'' \<notin> set (show_ipv6 a)"
    using map fmt_no_dot by (auto simp: show_ipv6_def Let_def split: prod.splits)
  then show ?thesis
    using V6 read_show_ipv6 [OF map]
      be_word_value [of 65536 "segments a", where 'a = 128]
    by (simp add: parse_ip_addr_def read_ipv4_no_dot be_value_segments)
qed (simp add: parse_show_ipv4)

end
