(* ===== verification/ForwardConfig.thy ===== *)
theory ForwardConfig
  imports Net "HOL-Library.Code_Target_Nat"
begin

text \<open>
  The forward crate's configuration (\<open>config.rs\<close>, \<open>config/peers.rs\<close>), the peer authorization every
  network listener applies (\<open>peer.rs\<close>), the configuration a laptop daemon derives for one
  accepted connection (\<open>daemon/origin.rs\<close>) and the ports a configuration reserves
  (\<open>callback.rs\<close>).  \<open>toml::from_str\<close> is the argument of \<open>fc_load\<close>.
\<close>

section \<open>Configuration\<close>

datatype mode = Allowlist | Auto

record fconfig =
  fc_mode :: mode
  fc_opener :: "string list"
  fc_notifier :: "string list"
  fc_clipboard :: "string list"
  fc_forward_ttl_secs :: nat
  fc_listen :: string
  fc_peer :: string
  fc_peers :: "string list option"
  fc_bridge_port :: port
  fc_relay_port :: port
  fc_pcsc_port :: port
  fc_grant_port :: port
  fc_pulse_port :: port
  fc_allow :: "string list"

datatype fconfig_error =
    CfgRead | CfgParse | CfgAddress string string | PeerRequired | PeerConflict | EmptyPeers
  | MultiplePeers | DaemonOnlyPeers

definition default_values :: fconfig where
  "default_values =
     \<lparr>fc_mode = Allowlist, fc_opener = [''xdg-open''], fc_notifier = [], fc_clipboard = [],
      fc_forward_ttl_secs = 300, fc_listen = ''127.0.0.1'', fc_peer = [], fc_peers = None,
      fc_bridge_port = 12801, fc_relay_port = 12803, fc_pcsc_port = 12804, fc_grant_port = 12805,
      fc_pulse_port = 12806, fc_allow = []\<rparr>"

datatype config_file = FileContents string | FileMissing | FileUnreadable

definition fc_load :: "(string \<Rightarrow> fconfig option) \<Rightarrow> config_file \<Rightarrow> (fconfig, fconfig_error) result" where
  "fc_load from_toml f =
     (case f of
        FileContents s \<Rightarrow> ok_or CfgParse (from_toml s)
      | FileMissing \<Rightarrow> Ok default_values
      | FileUnreadable \<Rightarrow> Err CfgRead)"

definition parse_ip :: "string \<Rightarrow> string \<Rightarrow> (ip_addr, fconfig_error) result" where
  "parse_ip fld v = ok_or (CfgAddress fld v) (parse_ip_addr v)"

definition listen_ip :: "fconfig \<Rightarrow> (ip_addr, fconfig_error) result" where
  "listen_ip cfg = and_then (parse_ip ''listen'' (fc_listen cfg)) (\<lambda>ip. Ok (to_canonical ip))"

definition is_multi_peer :: "fconfig \<Rightarrow> bool" where
  "is_multi_peer cfg \<longleftrightarrow> fc_peers cfg \<noteq> None"

definition has_peers :: "fconfig \<Rightarrow> bool" where
  "has_peers cfg \<longleftrightarrow> fc_peers cfg \<noteq> None \<or> fc_peer cfg \<noteq> []"

definition peer_values :: "fconfig \<Rightarrow> (string \<times> string list, fconfig_error) result" where
  "peer_values cfg =
     (case fc_peers cfg of
        Some ps \<Rightarrow> if fc_peer cfg \<noteq> [] then Err PeerConflict
                  else if ps = [] then Err EmptyPeers else Ok (''peers'', ps)
      | None \<Rightarrow> if fc_peer cfg = [] then Ok (''peer'', []) else Ok (''peer'', [fc_peer cfg]))"

definition usable_peer :: "ip_addr \<Rightarrow> bool" where
  "usable_peer ip \<longleftrightarrow> \<not> is_unspecified ip \<and> \<not> is_multicast ip \<and> ip \<noteq> BROADCAST"

definition peer_ip :: "string \<Rightarrow> string \<Rightarrow> (ip_addr, fconfig_error) result" where
  "peer_ip fld v =
     and_then (parse_ip fld v) (\<lambda>ip.
       if usable_peer (to_canonical ip) then Ok (to_canonical ip) else Err (CfgAddress fld v))"

fun peer_ips_loop :: "string \<Rightarrow> string list \<Rightarrow> ip_addr list \<Rightarrow> (ip_addr list, fconfig_error) result" where
  "peer_ips_loop fld [] peers = Ok peers"
| "peer_ips_loop fld (v # vs) peers =
     and_then (peer_ip fld v) (\<lambda>ip.
       peer_ips_loop fld vs (if ip \<in> set peers then peers else peers @ [ip]))"

definition peer_ips :: "fconfig \<Rightarrow> (ip_addr list, fconfig_error) result" where
  "peer_ips cfg = and_then (peer_values cfg) (\<lambda>(fld, vs). peer_ips_loop fld vs [])"

fun admits_loop :: "string \<Rightarrow> ip_addr \<Rightarrow> string list \<Rightarrow> bool \<Rightarrow> bool" where
  "admits_loop fld remote [] found = found"
| "admits_loop fld remote (v # vs) found =
     (case peer_ip fld v of
        Err _ \<Rightarrow> False
      | Ok peer \<Rightarrow> admits_loop fld remote vs (found \<or> peer = to_canonical remote))"

definition admits_peer :: "fconfig \<Rightarrow> ip_addr \<Rightarrow> bool" where
  "admits_peer cfg remote =
     (case peer_values cfg of Err _ \<Rightarrow> False | Ok (fld, vs) \<Rightarrow> admits_loop fld remote vs False)"

fun single_peer_loop :: "string \<Rightarrow> string list \<Rightarrow> ip_addr option \<Rightarrow> bool \<Rightarrow> (ip_addr option, fconfig_error) result"
where
  "single_peer_loop fld [] peer multiple = (if multiple then Err MultiplePeers else Ok peer)"
| "single_peer_loop fld (v # vs) peer multiple =
     and_then (peer_ip fld v) (\<lambda>ip.
       single_peer_loop fld vs (Some ip)
         (multiple \<or> (case peer of None \<Rightarrow> False | Some previous \<Rightarrow> previous \<noteq> ip)))"

definition single_peer_ip :: "fconfig \<Rightarrow> (ip_addr option, fconfig_error) result" where
  "single_peer_ip cfg = and_then (peer_values cfg) (\<lambda>(fld, vs). single_peer_loop fld vs None False)"

definition fc_validate :: "fconfig \<Rightarrow> (unit, fconfig_error) result" where
  "fc_validate cfg =
     and_then (listen_ip cfg) (\<lambda>listen.
       if is_unspecified listen then Err (CfgAddress ''listen'' (fc_listen cfg))
       else and_then (peer_ips cfg) (\<lambda>peers.
         if \<not> is_loopback listen \<and> peers = [] then Err PeerRequired else Ok ()))"

definition validate_devbox :: "fconfig \<Rightarrow> (unit, fconfig_error) result" where
  "validate_devbox cfg =
     and_then (fc_validate cfg) (\<lambda>_. if is_multi_peer cfg then Err DaemonOnlyPeers else Ok ())"

section \<open>Authorization of a connection\<close>

definition authorized_remote :: "fconfig \<Rightarrow> ip_addr \<Rightarrow> bool" where
  "authorized_remote cfg remote \<longleftrightarrow> admits_peer cfg remote"

definition authorized :: "fconfig \<Rightarrow> ip_addr \<Rightarrow> bool" where
  "authorized cfg remote \<longleftrightarrow>
     \<not> is_multi_peer cfg \<and> is_loopback (to_canonical remote) \<or> authorized_remote cfg remote"

definition authorized_sensitive :: "fconfig \<Rightarrow> ip_addr \<Rightarrow> ip_addr \<Rightarrow> bool" where
  "authorized_sensitive cfg remote loc \<longleftrightarrow>
     authorized_remote cfg remote
     \<and> (case listen_ip cfg of Ok listen \<Rightarrow> to_canonical listen = to_canonical loc | Err _ \<Rightarrow> False)"

section \<open>Reserved ports and the origin of a connection\<close>

definition CHANNEL_PORT :: port where "CHANNEL_PORT = 12800"
definition FILES_PORT :: port where "FILES_PORT = 12802"
definition RELAY_TARGET_PORT :: port where "RELAY_TARGET_PORT = 9224"

definition service_ports :: "fconfig \<Rightarrow> port list" where
  "service_ports cfg =
     [CHANNEL_PORT, FILES_PORT, fc_bridge_port cfg, fc_relay_port cfg, fc_pcsc_port cfg,
      fc_grant_port cfg, fc_pulse_port cfg]"

definition is_dynamic_port :: "fconfig \<Rightarrow> port \<Rightarrow> bool" where
  "is_dynamic_port cfg p \<longleftrightarrow> p \<noteq> 0 \<and> p \<notin> set (service_ports cfg)"

text \<open>\<open>host.parse::<Ipv6Addr>()\<close> succeeds on exactly the texts of IPv6 addresses.\<close>

definition url_host :: "string \<Rightarrow> string" where
  "url_host host =
     (case read_ipv6_addr host of
        Some (_, []) \<Rightarrow> ''['' @ host @ '']''
      | _ \<Rightarrow> host)"

definition origin_config :: "fconfig \<Rightarrow> ip_addr \<Rightarrow> fconfig" where
  "origin_config cfg origin =
     (if is_multi_peer cfg then
        let p = show_ip (to_canonical origin)
        in cfg\<lparr>fc_peer := p, fc_peers := None,
               fc_allow := fc_allow cfg @ [url_host p @ '':'' @ show_nat (unat FILES_PORT)]\<rparr>
      else cfg)"

section \<open>The hot-path check agrees with the address list\<close>

lemma peer_ips_loop_Ok:
  "peer_ips_loop fld vs acc = Ok ps \<Longrightarrow>
   set ps = set acc \<union> {ip. \<exists>v \<in> set vs. peer_ip fld v = Ok ip}
   \<and> (\<forall>v \<in> set vs. is_ok (peer_ip fld v)) \<and> (distinct acc \<longrightarrow> distinct ps)"
proof (induction vs arbitrary: acc)
  case (Cons v vs)
  then obtain ip where "peer_ip fld v = Ok ip"
    and "peer_ips_loop fld vs (if ip \<in> set acc then acc else acc @ [ip]) = Ok ps"
    by (auto simp: and_then_Ok)
  then show ?case
    using Cons.IH [of "if ip \<in> set acc then acc else acc @ [ip]"] by (auto split: if_splits)
qed simp

lemma peer_ips_loop_Err:
  "peer_ips_loop fld vs acc = Err e \<Longrightarrow> \<exists>v \<in> set vs. \<not> is_ok (peer_ip fld v)"
  by (induction vs arbitrary: acc) (auto simp: and_then_Err)

lemma admits_loop_iff:
  "admits_loop fld remote vs found \<longleftrightarrow>
   (\<forall>v \<in> set vs. is_ok (peer_ip fld v))
   \<and> (found \<or> (\<exists>v \<in> set vs. peer_ip fld v = Ok (to_canonical remote)))"
  by (induction vs arbitrary: found) (auto split: result.splits)

lemma admits_peer_list:
  "admits_peer cfg remote \<longleftrightarrow> (\<exists>ps. peer_ips cfg = Ok ps \<and> to_canonical remote \<in> set ps)"
proof (cases "peer_values cfg")
  case (Ok r)
  obtain fld vs where r: "r = (fld, vs)" by fastforce
  show ?thesis
  proof (cases "peer_ips_loop fld vs []")
    case (Ok ps)
    then show ?thesis
      using peer_ips_loop_Ok [OF Ok] \<open>peer_values cfg = Ok r\<close> r
      by (auto simp: admits_peer_def peer_ips_def admits_loop_iff)
  next
    case (Err e)
    then show ?thesis
      using peer_ips_loop_Err [OF Err] \<open>peer_values cfg = Ok r\<close> r
      by (auto simp: admits_peer_def peer_ips_def admits_loop_iff)
  qed
qed (simp add: admits_peer_def peer_ips_def)

lemma peer_ip_usable: "peer_ip fld v = Ok ip \<Longrightarrow> usable_peer ip \<and> to_canonical ip = ip"
  by (auto simp: peer_ip_def and_then_Ok split: if_splits)

lemma peer_ips_sound:
  "peer_ips cfg = Ok ps \<Longrightarrow> distinct ps \<and> (\<forall>ip \<in> set ps. usable_peer ip \<and> to_canonical ip = ip)"
  using peer_ips_loop_Ok peer_ip_usable by (fastforce simp: peer_ips_def and_then_Ok)

lemma single_peer_loop_Ok:
  "single_peer_loop fld vs peer multiple = Ok p \<Longrightarrow>
   \<not> multiple \<and> (\<forall>v \<in> set vs. peer_ip fld v = Ok (the p)) \<and> (peer \<noteq> None \<longrightarrow> p = peer)
   \<and> (vs \<noteq> [] \<longrightarrow> p \<noteq> None) \<and> (vs = [] \<longrightarrow> p = peer)"
proof (induction vs arbitrary: peer multiple)
  case (Cons v vs)
  then obtain ip where "peer_ip fld v = Ok ip"
    and *: "single_peer_loop fld vs (Some ip)
          (multiple \<or> (case peer of None \<Rightarrow> False | Some previous \<Rightarrow> previous \<noteq> ip)) = Ok p"
    by (auto simp: and_then_Ok)
  then show ?case
    using Cons.IH [OF *] by (auto split: option.splits)
qed (simp split: if_splits)

text \<open>A single destination is the only address of the list.\<close>

lemma single_peer_list:
  "single_peer_ip cfg = Ok p \<Longrightarrow>
   \<exists>ps. peer_ips cfg = Ok ps \<and> set ps = set_option p"
proof -
  assume "single_peer_ip cfg = Ok p"
  then obtain fld vs where v: "peer_values cfg = Ok (fld, vs)" and l: "single_peer_loop fld vs None False = Ok p"
    by (auto simp: single_peer_ip_def and_then_Ok)
  have all: "\<forall>v \<in> set vs. peer_ip fld v = Ok (the p)" "vs \<noteq> [] \<longrightarrow> p \<noteq> None" "vs = [] \<longrightarrow> p = None"
    using single_peer_loop_Ok [OF l] by auto
  then obtain ps where ps: "peer_ips_loop fld vs [] = Ok ps"
    using peer_ips_loop_Err by (cases "peer_ips_loop fld vs []") fastforce+
  then have "set ps = set_option p"
    using peer_ips_loop_Ok [OF ps] all by (cases vs) (auto simp: neq_Nil_conv)
  then show ?thesis
    using v ps by (auto simp: peer_ips_def)
qed

lemma parse_ip_addr_Nil [simp]: "parse_ip_addr [] = None"
  by (simp add: parse_ip_addr_def read_ipv4_no_dot read_ipv6_addr_def read_groups_stop)

lemma origin_values:
  assumes "is_multi_peer cfg"
  shows "peer_values (origin_config cfg origin) = Ok (''peer'', [show_ip (to_canonical origin)])"
proof -
  have "show_ip (to_canonical origin) \<noteq> []"
    using parse_show_ip [of "to_canonical origin"] by (metis option.distinct(1) parse_ip_addr_Nil to_canonical_idem)
  then show ?thesis
    using assms by (simp add: origin_config_def peer_values_def Let_def)
qed

lemma origin_peer:
  assumes "admits_peer cfg origin"
  shows "peer_ip fld (show_ip (to_canonical origin)) = Ok (to_canonical origin)"
proof -
  have "usable_peer (to_canonical origin)"
    using assms peer_ips_sound by (auto simp: admits_peer_list)
  then show ?thesis
    using parse_show_ip [of "to_canonical origin"] by (simp add: peer_ip_def parse_ip_def)
qed

lemma origin_config_single:
  assumes "is_multi_peer cfg" and "admits_peer cfg origin"
  shows "single_peer_ip (origin_config cfg origin) = Ok (Some (to_canonical origin))"
    and "peer_ips (origin_config cfg origin) = Ok [to_canonical origin]"
  using origin_values [OF assms(1), of origin] origin_peer [OF assms(2)]
  by (simp_all add: single_peer_ip_def peer_ips_def)

lemma fc_validate_Ok:
  "fc_validate cfg = Ok () \<longleftrightarrow>
   (\<exists>listen ps. listen_ip cfg = Ok listen \<and> \<not> is_unspecified listen \<and> peer_ips cfg = Ok ps
      \<and> (is_loopback listen \<or> ps \<noteq> []))"
  by (auto simp: fc_validate_def and_then_Ok split: if_splits)

section \<open>A configuration with one peer\<close>

definition demo_fconfig :: fconfig where
  "demo_fconfig = default_values\<lparr>fc_peer := ''100.64.0.2''\<rparr>"

lemma demo_fconfig_peer:
  "single_peer_ip demo_fconfig = Ok (Some (V4 0x64400002))"
  "peer_ips demo_fconfig = Ok [V4 0x64400002]"
  "listen_ip demo_fconfig = Ok (V4 0x7F000001)"
  by code_simp+

lemma demo_fconfig_ports:
  "fc_bridge_port demo_fconfig = 12801" "fc_relay_port demo_fconfig = 12803" "fc_pcsc_port demo_fconfig = 12804"
  "fc_grant_port demo_fconfig = 12805" "fc_pulse_port demo_fconfig = 12806"
  "fc_mode demo_fconfig = Allowlist" "fc_peers demo_fconfig = None"
  by (simp_all add: demo_fconfig_def default_values_def)

text \<open>The allocation-free check on the connection path admits exactly the addresses of the
  configured peer list: a remote is admitted just when the whole list parses and holds its
  canonical form, and every listed address is canonical, distinct and a usable unicast
  address.\<close>

theorem admits_peer_iff:
  "admits_peer cfg remote \<longleftrightarrow>
   (\<exists>ps. peer_ips cfg = Ok ps \<and> to_canonical remote \<in> set ps \<and> distinct ps
      \<and> list_all (\<lambda>ip. usable_peer ip \<and> to_canonical ip = ip) ps)"
  using admits_peer_list peer_ips_sound by (auto simp: list_all_iff)



text \<open>On a laptop that serves several machines, the configuration derived for an accepted
  connection names exactly the machine that opened it: its single destination, and the only
  remote it admits, is the canonical address of the origin.\<close>

theorem origin_config_pins_peer:
  assumes "is_multi_peer cfg" and "admits_peer cfg origin"
  shows "single_peer_ip (origin_config cfg origin) = Ok (Some (to_canonical origin))
     \<and> (admits_peer (origin_config cfg origin) r \<longleftrightarrow> to_canonical r = to_canonical origin)"
  using origin_config_single [OF assms] by (auto simp: admits_peer_list)

theorem origin_config_pins_peer_witness:
  "single_peer_ip (origin_config (default_values\<lparr>fc_peers := Some [''100.64.0.2'', ''fd7a::3'']\<rparr>) (V6 0xFD7A0000000000000000000000000003))
   = Ok (Some (V6 0xFD7A0000000000000000000000000003))"
proof -
  have m: "is_multi_peer (default_values\<lparr>fc_peers := Some [''100.64.0.2'', ''fd7a::3'']\<rparr>)"
    by (simp add: is_multi_peer_def)
  have a: "admits_peer (default_values\<lparr>fc_peers := Some [''100.64.0.2'', ''fd7a::3'']\<rparr>) (V6 0xFD7A0000000000000000000000000003)"
    by code_simp
  have c: "to_canonical (V6 0xFD7A0000000000000000000000000003) = V6 0xFD7A0000000000000000000000000003"
    by code_simp
  show ?thesis
    using origin_config_pins_peer [OF m a] c by simp
qed

end
