(* ===== verification/UrlPolicy.thy ===== *)
theory UrlPolicy
  imports ForwardConfig
begin

text \<open>
  What a URL may do: whether the laptop opens it (\<open>policy.rs\<close>), which loopback ports it names
  (\<open>localhost.rs\<close>), which of them the devbox arms (\<open>bridge/ports.rs\<close>) and which ports the
  bridge never dials (\<open>bridge/port_policy.rs\<close>).  The \<open>url\<close> crate is not part of the
  repository: a parsed \<open>Url\<close> is the record of what the code reads of it, and
  \<open>Url::parse\<close> is an argument.
\<close>

record url =
  u_scheme :: string
  u_host_str :: "string option"
  u_port :: "port option"
  u_port_or_known_default :: "port option"
  u_path :: string
  u_query_pairs :: "(string \<times> string) list"
  u_as_str :: string

definition parse_port :: "string \<Rightarrow> port option" where
  "parse_port s = map_option of_nat (parse_uint 65535 s)"

section \<open>The open decision\<close>

datatype open_choice = OpenIt | NotifyIt

definition rsplit_once :: "'a \<Rightarrow> 'a list \<Rightarrow> ('a list \<times> 'a list) option" where
  "rsplit_once c s = map_option (\<lambda>(a, b). (rev b, rev a)) (split_once c (rev s))"

definition split_host_and_port :: "string \<Rightarrow> string \<times> port option" where
  "split_host_and_port h =
     (if starts_with ''['' h then
        (case split_once CHR '']'' h of
           None \<Rightarrow> (h, None)
         | Some (inner, suffix) \<Rightarrow>
             (case Option.bind (strip_prefix '':'' suffix) parse_port of
                None \<Rightarrow> (h, None)
              | Some p \<Rightarrow> (inner @ '']'', Some p)))
      else
        (case rsplit_once CHR '':'' h of
           None \<Rightarrow> (h, None)
         | Some (host, port_text) \<Rightarrow>
             (case parse_port port_text of None \<Rightarrow> (h, None) | Some p \<Rightarrow> (host, Some p))))"

definition normalize_loopback_alias :: "string \<Rightarrow> string" where
  "normalize_loopback_alias host =
     (if host = ''127.0.0.1'' \<or> host = ''[::1]'' then ''localhost'' else host)"

fun labels_match :: "string list \<Rightarrow> string list \<Rightarrow> bool" where
  "labels_match [] [] = True"
| "labels_match (p # ps) (h # hs) = ((p = ''*'' \<or> p = h) \<and> labels_match ps hs)"
| "labels_match _ _ = False"

definition trim_end_char :: "char \<Rightarrow> string \<Rightarrow> string" where
  "trim_end_char c s = rev (dropWhile (\<lambda>x. x = c) (rev s))"

definition host_labels :: "string \<Rightarrow> string list" where
  "host_labels h = split_on CHR ''.'' (normalize_loopback_alias (map to_ascii_lowercase h))"

definition allow_matches :: "string \<Rightarrow> url \<Rightarrow> bool" where
  "allow_matches pattern u =
     (let (host_pattern, path_prefix) =
            (case split_once CHR ''/'' pattern of Some (h, p) \<Rightarrow> (h, p) | None \<Rightarrow> (pattern, []));
          (host_pattern, pattern_port) = split_host_and_port host_pattern
      in if pattern_port \<noteq> None \<and> u_port_or_known_default u \<noteq> pattern_port then False
         else case u_host_str u of
           None \<Rightarrow> False
         | Some host \<Rightarrow>
             if \<not> labels_match (host_labels host_pattern) (host_labels host) then False
             else let path_prefix = trim_end_char CHR ''/'' path_prefix;
                      pre = ''/'' @ path_prefix
                  in path_prefix = [] \<or> u_path u = pre \<or> starts_with (pre @ ''/'') (u_path u))"

definition decide :: "fconfig \<Rightarrow> url \<Rightarrow> open_choice" where
  "decide cfg u =
     (case fc_mode cfg of
        Auto \<Rightarrow> OpenIt
      | Allowlist \<Rightarrow> if list_ex (\<lambda>p. allow_matches p u) (fc_allow cfg) then OpenIt else NotifyIt)"

section \<open>Loopback ports of a URL\<close>

definition loopback_port :: "url \<Rightarrow> port option" where
  "loopback_port u =
     (case u_host_str u of
        None \<Rightarrow> None
      | Some host \<Rightarrow>
          if host = ''localhost'' \<or> host = ''127.0.0.1'' \<or> host = ''[::1]'' then u_port u else None)"

fun redirect_ports :: "(string \<Rightarrow> url option) \<Rightarrow> (string \<times> string) list \<Rightarrow> port list \<Rightarrow> port list" where
  "redirect_ports parse_url [] ports = ports"
| "redirect_ports parse_url ((k, v) # pairs) ports =
     redirect_ports parse_url pairs
       (if k = ''redirect_uri'' then
          (case Option.bind (parse_url v) loopback_port of
             Some p \<Rightarrow> if p \<in> set ports then ports else ports @ [p]
           | None \<Rightarrow> ports)
        else ports)"

definition forward_ports :: "(string \<Rightarrow> url option) \<Rightarrow> url \<Rightarrow> port list" where
  "forward_ports parse_url u =
     redirect_ports parse_url (u_query_pairs u)
       (case loopback_port u of Some p \<Rightarrow> [p] | None \<Rightarrow> [])"

definition MAX_DYNAMIC_FORWARDS :: nat where
  "MAX_DYNAMIC_FORWARDS = 4"

definition callback_ports :: "(string \<Rightarrow> url option) \<Rightarrow> fconfig \<Rightarrow> url \<Rightarrow> port list" where
  "callback_ports parse_url cfg u =
     take MAX_DYNAMIC_FORWARDS (filter (is_dynamic_port cfg) (forward_ports parse_url u))"

section \<open>Ports the bridge never dials\<close>

definition LOWEST_CALLBACK_PORT :: port where
  "LOWEST_CALLBACK_PORT = 1024"

definition LETHAL_DEVELOPMENT_PORTS :: "port list" where
  "LETHAL_DEVELOPMENT_PORTS = [2345, 2375, 2376, 3306, 5432, 5678, 6379, 8001, 9229]"

definition globally_denied :: "fconfig \<Rightarrow> port \<Rightarrow> bool" where
  "globally_denied cfg p \<longleftrightarrow>
     p = 0 \<or> p < LOWEST_CALLBACK_PORT \<or> p \<in> set (service_ports cfg)
     \<or> p \<in> set LETHAL_DEVELOPMENT_PORTS"

definition can_arm :: "fconfig \<Rightarrow> port \<Rightarrow> bool" where
  "can_arm cfg p \<longleftrightarrow> \<not> globally_denied cfg p"

definition denied_port :: "fconfig \<Rightarrow> port \<Rightarrow> port \<Rightarrow> bool" where
  "denied_port cfg listener_port p \<longleftrightarrow> globally_denied cfg p \<or> p = listener_port"

section \<open>Facts\<close>

lemma can_arm_dynamic: "can_arm cfg p \<Longrightarrow> is_dynamic_port cfg p"
  by (auto simp: can_arm_def globally_denied_def is_dynamic_port_def)

lemma labels_match_iff: "labels_match ps hs \<longleftrightarrow> list_all2 (\<lambda>p h. p = ''*'' \<or> p = h) ps hs"
  by (induction ps hs rule: labels_match.induct) auto

lemma redirect_ports_set:
  "set (redirect_ports parse_url pairs ports) =
   set ports \<union> {p. \<exists>v. (''redirect_uri'', v) \<in> set pairs \<and> Option.bind (parse_url v) loopback_port = Some p}"
  by (induction parse_url pairs ports rule: redirect_ports.induct) (auto split: option.splits)

lemma redirect_ports_distinct: "distinct ports \<Longrightarrow> distinct (redirect_ports parse_url pairs ports)"
  by (induction parse_url pairs ports rule: redirect_ports.induct) (auto split: option.splits)

lemma forward_ports_distinct: "distinct (forward_ports parse_url u)"
  by (auto simp: forward_ports_def intro!: redirect_ports_distinct split: option.splits)

lemma forward_ports_set:
  "p \<in> set (forward_ports parse_url u) \<longleftrightarrow>
   loopback_port u = Some p
   \<or> (\<exists>v r. (''redirect_uri'', v) \<in> set (u_query_pairs u) \<and> parse_url v = Some r \<and> loopback_port r = Some p)"
  by (auto simp: forward_ports_def redirect_ports_set Option.bind_eq_Some_conv split: option.splits)

lemma callback_ports_distinct: "distinct (callback_ports parse_url cfg u)"
  by (simp add: callback_ports_def forward_ports_distinct)

lemma callback_ports_length: "length (callback_ports parse_url cfg u) \<le> MAX_DYNAMIC_FORWARDS"
  by (simp add: callback_ports_def)

lemma callback_ports_dynamic:
  "p \<in> set (callback_ports parse_url cfg u) \<Longrightarrow>
   is_dynamic_port cfg p \<and> p \<in> set (forward_ports parse_url u)"
  by (auto simp: callback_ports_def dest: in_set_takeD)

text \<open>A trimmed prefix is matched on segment boundaries.\<close>

lemma split_on_snoc_ne:
  "split_on c (xs @ c # ys) = split_on c xs @ split_on c ys"
proof (induction xs)
  case (Cons x xs)
  then show ?case
    using split_on_not_Nil [of c xs] by (cases "split_on c xs") auto
qed simp

lemma path_segments:
  "path = pre \<or> starts_with (pre @ [c]) path \<longleftrightarrow> (\<exists>rest. split_on c path = split_on c pre @ rest)"
proof
  assume "path = pre \<or> starts_with (pre @ [c]) path"
  then show "\<exists>rest. split_on c path = split_on c pre @ rest"
    by (auto simp: starts_with_iff split_on_snoc_ne)
next
  assume "\<exists>rest. split_on c path = split_on c pre @ rest"
  then obtain rest where rest: "split_on c path = split_on c pre @ rest" by blast
  have join: "join_with c (xs @ y # ys) = join_with c xs @ c # join_with c (y # ys)" if "xs \<noteq> []" for xs y ys
    using that by (induction c xs rule: join_with.induct) auto
  have "path = join_with c (split_on c pre @ rest)"
    using rest by (metis join_with_split_on)
  then show "path = pre \<or> starts_with (pre @ [c]) path"
    using join by (cases rest) (auto simp: starts_with_iff)
qed

end
