(* ===== verification/Bridge.thy ===== *)
theory Bridge
  imports Lines UrlPolicy Interfaces
begin

text \<open>
  The devbox's callback bridge: the arming socket and its two requests (\<open>bridge/arm_request.rs\<close>,
  \<open>bridge/arming.rs\<close>), the table of armed and held ports (\<open>bridge/armed.rs\<close>), the processes that
  hold a port (\<open>bridge/holder.rs\<close>, \<open>bridge/hold.rs\<close>, \<open>fdpass.rs\<close>), the permit counter
  (\<open>bridge/limit.rs\<close>) and the listener that relays (\<open>bridge/listener.rs\<close>).

  Every accepted connection runs in a thread of its own.  A thread is a value of \<open>br_task\<close>, and one
  call of \<open>advance_bridge\<close> is its next atomic section: one lock section of \<open>Armed\<close>, one exchange
  with a holder under the holder's lock, or one read of a request line.  An \<open>Arc<Holder>\<close> is a
  number.  The log of what the sections did is a ghost: no operation reads it.
\<close>

section \<open>Requests on the arming socket\<close>

datatype arm_request = Arm port nat | Hold port

definition MAX_ARM_LINE :: nat where
  "MAX_ARM_LINE = 64"

definition ARM_REQUEST_TIMEOUT :: duration where
  "ARM_REQUEST_TIMEOUT = from_secs 5"

definition plain_number :: "nat \<Rightarrow> string \<Rightarrow> nat option" where
  "plain_number mx s = (if s = [] \<or> \<not> list_all is_ascii_digit s then None else parse_uint mx s)"

definition u16_max :: nat where
  "u16_max = 65535"

definition parse_arm_request :: "string \<Rightarrow> arm_request option" where
  "parse_arm_request line =
     (if \<not> utf8_valid line then None
      else case split_on CHR '' '' line of
        [k, p, t] \<Rightarrow>
          if k = ''ARM'' then
            (case (plain_number u16_max p, plain_number u64_max t) of
               (Some p', Some t') \<Rightarrow> Some (Arm (of_nat p') t') | _ \<Rightarrow> None)
          else None
      | [k, p] \<Rightarrow> if k = ''HOLD'' then map_option (\<lambda>p'. Hold (of_nat p')) (plain_number u16_max p) else None
      | _ \<Rightarrow> None)"

definition read_arm_request :: "instant \<Rightarrow> instant \<Rightarrow> read_events \<Rightarrow> arm_request option" where
  "read_arm_request now closed es =
     (case instant_checked_add now ARM_REQUEST_TIMEOUT of
        None \<Rightarrow> None
      | Some deadline \<Rightarrow>
          (case read_request_line MAX_ARM_LINE deadline closed [] es of
             None \<Rightarrow> None | Some (line, rest) \<Rightarrow> parse_arm_request line))"

text \<open>What the clients of the socket write (\<open>arm_one\<close>, \<open>hold\<close>), newline excluded.\<close>

fun print_request :: "arm_request \<Rightarrow> string" where
  "print_request (Arm p t) = ''ARM '' @ show_nat (unat p) @ '' '' @ show_nat t"
| "print_request (Hold p) = ''HOLD '' @ show_nat (unat p)"

section \<open>Requests on the bridge\<close>

definition MAX_REQUEST_LINE :: nat where
  "MAX_REQUEST_LINE = 64"

definition REQUEST_LINE_READ_TIMEOUT :: duration where
  "REQUEST_LINE_READ_TIMEOUT = from_secs 10"

definition parse_connect :: "string \<Rightarrow> port option" where
  "parse_connect line =
     (if \<not> utf8_valid line then None
      else case strip_prefix ''CONNECT '' line of
        None \<Rightarrow> None | Some request \<Rightarrow> map_option of_nat (plain_number u16_max request))"

definition read_port :: "instant \<Rightarrow> instant \<Rightarrow> read_events \<Rightarrow> port option" where
  "read_port now closed es =
     (case instant_checked_add now REQUEST_LINE_READ_TIMEOUT of
        None \<Rightarrow> None
      | Some deadline \<Rightarrow>
          (case read_request_line MAX_REQUEST_LINE deadline closed [] es of
             None \<Rightarrow> None | Some (line, rest) \<Rightarrow> parse_connect line))"

section \<open>Descriptors and dials\<close>

text \<open>What \<open>SO_TYPE\<close> and \<open>getpeername\<close> say of a received descriptor.\<close>

datatype received_fd = FdStream "socket_addr option" | FdOtherSocket | FdNotSocket

definition connected_stream :: "received_fd \<Rightarrow> socket_addr option" where
  "connected_stream fd = (case fd of FdStream peer \<Rightarrow> peer | _ \<Rightarrow> None)"

text \<open>What \<open>recvmsg\<close> returned, after its interrupted calls: the byte count, the byte, the
  truncation flag and the descriptors of the control messages, \<open>None\<close> where reading those fails.\<close>

record recv_msg =
  rm_bytes :: nat
  rm_byte :: char
  rm_truncated :: bool
  rm_fds :: "received_fd list option"

definition fd_receive :: "recv_msg option \<Rightarrow> (char \<times> received_fd option) option" where
  "fd_receive m =
     (case m of
        None \<Rightarrow> None
      | Some msg \<Rightarrow>
          (case rm_fds msg of
             None \<Rightarrow> None
           | Some fds \<Rightarrow>
               if rm_bytes msg = 0 then None
               else if rm_truncated msg then None
               else Some (rm_byte msg, case fds of [] \<Rightarrow> None | fd # _ \<Rightarrow> Some fd)))"

datatype dial = DialConnected socket_addr | DialUnreachable | DialGone

record dial_env =
  de_deadline_ok :: bool
  de_write_ok :: bool
  de_reply :: "recv_msg option"

definition stream_from :: "received_fd \<Rightarrow> port \<Rightarrow> socket_addr option" where
  "stream_from fd p =
     (case connected_stream fd of
        None \<Rightarrow> None
      | Some peer \<Rightarrow> if is_loopback (fst peer) \<and> snd peer = p then Some peer else None)"

definition holder_dial :: "dial_env \<Rightarrow> port \<Rightarrow> dial" where
  "holder_dial env p =
     (if \<not> de_deadline_ok env then DialGone
      else if \<not> de_write_ok env then DialGone
      else case fd_receive (de_reply env) of
        None \<Rightarrow> DialGone
      | Some (answer, fd) \<Rightarrow>
          if answer = CHR ''+'' then
            (case fd of
               None \<Rightarrow> DialGone
             | Some sock \<Rightarrow> (case stream_from sock p of Some peer \<Rightarrow> DialConnected peer | None \<Rightarrow> DialGone))
          else if answer = CHR ''-'' then (if fd = None then DialUnreachable else DialGone)
          else DialGone)"

text \<open>A peek at the holder's end, after the interrupted ones.\<close>

datatype peek = PeekAgain | PeekReadable | PeekError

definition holder_is_alive :: "peek \<Rightarrow> bool" where
  "holder_is_alive r \<longleftrightarrow> r = PeekAgain"

section \<open>Armed and held ports\<close>

datatype upstream = HolderSocket nat socket_addr | HostLoopback port

datatype br_event =
    EvArmed port instant
  | EvHeld port nat
  | EvDead port nat
  | EvDialled port instant

record bridge =
  br_ports :: "port \<rightharpoonup> instant"
  br_holders :: "port \<rightharpoonup> nat"
  br_next :: nat
  br_log :: "br_event list"

definition br_record :: "br_event \<Rightarrow> bridge \<Rightarrow> bridge" where
  "br_record e b = b\<lparr>br_log := e # br_log b\<rparr>"

text \<open>The second lock section of \<open>arm\<close>: \<open>None\<close> goes round the loop again.\<close>

definition arm_port :: "port \<Rightarrow> instant \<Rightarrow> bridge \<Rightarrow> bridge option" where
  "arm_port p deadline b =
     (if br_holders b p \<noteq> None then None
      else Some (br_record (EvArmed p deadline)
        (b\<lparr>br_ports := (br_ports b)(p \<mapsto>
             (case br_ports b p of Some old \<Rightarrow> if old < deadline then deadline else old | None \<Rightarrow> deadline))\<rparr>)))"

definition is_armed :: "port \<Rightarrow> instant \<Rightarrow> bridge \<Rightarrow> bool \<times> bridge" where
  "is_armed p now b =
     (let ports = (\<lambda>q. case br_ports b q of Some d \<Rightarrow> if now < d then Some d else None | None \<Rightarrow> None)
      in (ports p \<noteq> None, b\<lparr>br_ports := ports\<rparr>))"

definition br_release :: "port \<Rightarrow> nat \<Rightarrow> bridge \<Rightarrow> bridge" where
  "br_release p h b = (if br_holders b p = Some h then b\<lparr>br_holders := (br_holders b)(p := None)\<rparr> else b)"

text \<open>The first lock section of \<open>hold\<close>: the existing holder, or the outcome of the hold.\<close>

datatype hold_outcome = HoldExisting nat | HoldVanished | HoldOk

definition hold_port :: "port \<Rightarrow> bool \<Rightarrow> bridge \<Rightarrow> hold_outcome \<times> bridge" where
  "hold_port p ack_ok b =
     (case br_holders b p of
        Some h \<Rightarrow> (HoldExisting h, b)
      | None \<Rightarrow>
          if \<not> ack_ok then (HoldVanished, b)
          else (HoldOk, br_record (EvHeld p (br_next b))
                 (b\<lparr>br_holders := (br_holders b)(p \<mapsto> br_next b), br_next := Suc (br_next b),
                    br_ports := (br_ports b)(p := None)\<rparr>)))"

section \<open>Threads\<close>

definition GENERIC_REFUSAL :: string where "GENERIC_REFUSAL = ''REFUSED'' @ [newline]"
definition PEER_REFUSAL :: string where "PEER_REFUSAL = ''REFUSED PEER'' @ [newline]"
definition BUSY_REFUSAL :: string where "BUSY_REFUSAL = ''REFUSED BUSY'' @ [newline]"
definition DENIED_PORT_REFUSAL :: string where "DENIED_PORT_REFUSAL = ''REFUSED DENIED'' @ [newline]"
definition UNARMED_PORT_REFUSAL :: string where "UNARMED_PORT_REFUSAL = ''REFUSED UNARMED'' @ [newline]"

definition HELD :: string where "HELD = ''ok'' @ [newline]"
definition BUSY :: string where "BUSY = ''busy'' @ [newline]"
definition UNSAFE :: string where "UNSAFE = ''unsafe'' @ [newline]"

datatype br_task =
    ArmRead
  | ArmLook port instant
  | ArmPeek port instant nat
  | ArmRelease port instant nat
  | ArmRecord port instant
  | HoldLook port
  | HoldPeek port nat
  | HoldRelease port nat
  | ArmAnswered string
  | ConnRead "ip_addr option"
  | ConnLook ip_addr port
  | ConnDial ip_addr port nat
  | ConnFree ip_addr port nat
  | ConnArmed ip_addr port
  | ConnHost ip_addr port
  | ConnRelay ip_addr port upstream
  | ConnAnswered string

text \<open>What the next system calls of a thread return.\<close>

record bridge_env =
  be_started :: instant
  be_events :: read_events
  be_closed :: instant
  be_now :: instant
  be_ack_ok :: bool
  be_peek :: peek
  be_dial :: dial_env
  be_connect_ok :: bool
  be_timeouts_ok :: bool

fun start_arming :: "fconfig \<Rightarrow> instant \<Rightarrow> arm_request \<Rightarrow> br_task" where
  "start_arming cfg now (Arm p ttl) =
     (if \<not> can_arm cfg p then ArmAnswered []
      else case instant_checked_add now (from_secs ttl) of None \<Rightarrow> ArmAnswered [] | Some d \<Rightarrow> ArmLook p d)"
| "start_arming cfg now (Hold p) = (if \<not> can_arm cfg p then ArmAnswered UNSAFE else HoldLook p)"

definition start_connection :: "fconfig \<Rightarrow> port \<Rightarrow> bridge_env \<Rightarrow> ip_addr option \<Rightarrow> br_task" where
  "start_connection cfg listener_port env remote =
     (case remote of
        None \<Rightarrow> ConnAnswered GENERIC_REFUSAL
      | Some r \<Rightarrow>
          if \<not> authorized cfg r then ConnAnswered PEER_REFUSAL
          else case read_port (be_started env) (be_closed env) (be_events env) of
            None \<Rightarrow> ConnAnswered GENERIC_REFUSAL
          | Some p \<Rightarrow> if denied_port cfg listener_port p then ConnAnswered DENIED_PORT_REFUSAL else ConnLook r p)"

text \<open>After a connection the handler bounds both sockets, and refuses when it cannot.\<close>

definition start_relay :: "bridge_env \<Rightarrow> ip_addr \<Rightarrow> port \<Rightarrow> upstream \<Rightarrow> br_task" where
  "start_relay env r p u = (if be_timeouts_ok env then ConnRelay r p u else ConnAnswered GENERIC_REFUSAL)"

fun advance_bridge :: "fconfig \<Rightarrow> port \<Rightarrow> bridge_env \<Rightarrow> br_task \<Rightarrow> bridge \<Rightarrow> br_task \<times> bridge" where
  "advance_bridge cfg lp env ArmRead b =
     (case read_arm_request (be_started env) (be_closed env) (be_events env) of
        None \<Rightarrow> (ArmAnswered [], b) | Some req \<Rightarrow> (start_arming cfg (be_now env) req, b))"
| "advance_bridge cfg lp env (ArmLook p d) b =
     (case br_holders b p of Some h \<Rightarrow> (ArmPeek p d h, b) | None \<Rightarrow> (ArmRecord p d, b))"
| "advance_bridge cfg lp env (ArmPeek p d h) b =
     (if holder_is_alive (be_peek env) then (ArmAnswered HELD, b)
      else (ArmRelease p d h, br_record (EvDead p h) b))"
| "advance_bridge cfg lp env (ArmRelease p d h) b = (ArmRecord p d, br_release p h b)"
| "advance_bridge cfg lp env (ArmRecord p d) b =
     (case arm_port p d b of None \<Rightarrow> (ArmLook p d, b) | Some b' \<Rightarrow> (ArmAnswered HELD, b'))"
| "advance_bridge cfg lp env (HoldLook p) b =
     (case hold_port p (be_ack_ok env) b of
        (HoldExisting h, b') \<Rightarrow> (HoldPeek p h, b')
      | (HoldVanished, b') \<Rightarrow> (ArmAnswered [], b')
      | (HoldOk, b') \<Rightarrow> (ArmAnswered HELD, b'))"
| "advance_bridge cfg lp env (HoldPeek p h) b =
     (if holder_is_alive (be_peek env) then (ArmAnswered BUSY, b)
      else (HoldRelease p h, br_record (EvDead p h) b))"
| "advance_bridge cfg lp env (HoldRelease p h) b = (HoldLook p, br_release p h b)"
| "advance_bridge cfg lp env (ArmAnswered s) b = (ArmAnswered s, b)"
| "advance_bridge cfg lp env (ConnRead remote) b = (start_connection cfg lp env remote, b)"
| "advance_bridge cfg lp env (ConnLook r p) b =
     (case br_holders b p of Some h \<Rightarrow> (ConnDial r p h, b) | None \<Rightarrow> (ConnArmed r p, b))"
| "advance_bridge cfg lp env (ConnDial r p h) b =
     (case holder_dial (be_dial env) p of
        DialConnected peer \<Rightarrow> (start_relay env r p (HolderSocket h peer), b)
      | DialUnreachable \<Rightarrow> (ConnAnswered GENERIC_REFUSAL, b)
      | DialGone \<Rightarrow> (ConnFree r p h, br_record (EvDead p h) b))"
| "advance_bridge cfg lp env (ConnFree r p h) b = (ConnAnswered GENERIC_REFUSAL, br_release p h b)"
| "advance_bridge cfg lp env (ConnArmed r p) b =
     (case is_armed p (be_now env) b of
        (True, b') \<Rightarrow> (ConnHost r p, br_record (EvDialled p (be_now env)) b')
      | (False, b') \<Rightarrow> (ConnAnswered UNARMED_PORT_REFUSAL, b'))"
| "advance_bridge cfg lp env (ConnHost r p) b =
     (if be_connect_ok env then (start_relay env r p (HostLoopback p), b)
      else (ConnAnswered GENERIC_REFUSAL, b))"
| "advance_bridge cfg lp env (ConnRelay r p u) b = (ConnRelay r p u, b)"
| "advance_bridge cfg lp env (ConnAnswered s) b = (ConnAnswered s, b)"

section \<open>Accepting\<close>

definition MAX_CONCURRENT_CONNECTIONS :: nat where
  "MAX_CONCURRENT_CONNECTIONS = 32"

definition acquire_permit :: "nat \<Rightarrow> nat option" where
  "acquire_permit active = (if active = MAX_CONCURRENT_CONNECTIONS then None else Some (active + 1))"

record bridge_system =
  bs_bridge :: bridge
  bs_active :: nat
  bs_arm_active :: nat
  bs_conns :: "br_task list"
  bs_arms :: "br_task list"

text \<open>A connection to the bridge: its refusal, or a thread of its own.  \<open>None\<close> as the remote address
  is a \<open>peer_addr\<close> that fails.\<close>

definition accept_connection ::
  "fconfig \<Rightarrow> ip_addr option \<Rightarrow> ip_addr option \<Rightarrow> bridge_system \<Rightarrow> string option \<times> bridge_system" where
  "accept_connection cfg remote remote' s =
     (if \<not> (case remote of Some r \<Rightarrow> authorized cfg r | None \<Rightarrow> False) then (Some PEER_REFUSAL, s)
      else case acquire_permit (bs_active s) of
        None \<Rightarrow> (Some BUSY_REFUSAL, s)
      | Some n \<Rightarrow> (None, s\<lparr>bs_active := n, bs_conns := bs_conns s @ [ConnRead remote']\<rparr>))"

definition accept_arming :: "bridge_system \<Rightarrow> bridge_system" where
  "accept_arming s =
     (case acquire_permit (bs_arm_active s) of
        None \<Rightarrow> s
      | Some n \<Rightarrow> s\<lparr>bs_arm_active := n, bs_arms := bs_arms s @ [ArmRead]\<rparr>)"

definition br_init :: "bridge_system \<Rightarrow> bool" where
  "br_init s \<longleftrightarrow> s = \<lparr>bs_bridge = \<lparr>br_ports = Map.empty, br_holders = Map.empty, br_next = 0, br_log = []\<rparr>,
     bs_active = 0, bs_arm_active = 0, bs_conns = [], bs_arms = []\<rparr>"

inductive br_step :: "fconfig \<Rightarrow> port \<Rightarrow> bridge_system \<Rightarrow> bridge_system \<Rightarrow> bool" for cfg lp where
  connection: "br_step cfg lp s (snd (accept_connection cfg remote remote' s))"
| arming: "br_step cfg lp s (accept_arming s)"
| conn_step:
    "bs_conns s = xs @ t # ys \<Longrightarrow> advance_bridge cfg lp env t (bs_bridge s) = (t', b) \<Longrightarrow>
     br_step cfg lp s (s\<lparr>bs_bridge := b, bs_conns := xs @ t' # ys\<rparr>)"
| arm_step:
    "bs_arms s = xs @ t # ys \<Longrightarrow> advance_bridge cfg lp env t (bs_bridge s) = (t', b) \<Longrightarrow>
     br_step cfg lp s (s\<lparr>bs_bridge := b, bs_arms := xs @ t' # ys\<rparr>)"
| conn_end:
    "bs_conns s = xs @ t # ys \<Longrightarrow> (\<exists>r p u. t = ConnRelay r p u) \<or> (\<exists>a. t = ConnAnswered a) \<Longrightarrow>
     br_step cfg lp s (s\<lparr>bs_active := bs_active s - 1, bs_conns := xs @ ys\<rparr>)"
| arm_end:
    "bs_arms s = xs @ ArmAnswered a # ys \<Longrightarrow>
     br_step cfg lp s (s\<lparr>bs_arm_active := bs_arm_active s - 1, bs_arms := xs @ ys\<rparr>)"

section \<open>The clients of the arming socket\<close>

definition ARM_REPLY :: string where "ARM_REPLY = ''ok'' @ [newline]"

text \<open>\<open>read_exact\<close> on three bytes of the reply; \<open>None\<close> where a system call of the client fails.\<close>

definition read_exact :: "nat \<Rightarrow> string \<Rightarrow> string option" where
  "read_exact n s = (if n \<le> length s then Some (take n s) else None)"

definition arm_one :: "string option \<Rightarrow> bool" where
  "arm_one ans = (case ans of None \<Rightarrow> False | Some s \<Rightarrow> read_exact 3 s = Some ARM_REPLY)"

definition arm_all :: "(port \<Rightarrow> string option) \<Rightarrow> port list \<Rightarrow> bool" where
  "arm_all replies ports = foldl (\<lambda>ok p. ok \<and> arm_one (replies p)) (ports \<noteq> []) ports"

datatype hold_error = HoldBusy | HoldRefused | HoldUnanswered | HoldIo

definition hold_reply :: "string \<Rightarrow> (unit, hold_error) result" where
  "hold_reply s =
     (case read_exact (length HELD) s of
        None \<Rightarrow> Err HoldUnanswered
      | Some answer \<Rightarrow>
          if answer = HELD then Ok ()
          else if starts_with answer BUSY then Err HoldBusy
          else if starts_with answer UNSAFE then Err HoldRefused
          else Err HoldUnanswered)"

section \<open>Plain numbers\<close>

lemma unat_le_u16 [simp]: "unat (p :: port) \<le> u16_max"
  using unsigned_less [where 'a = nat and w = p] by (simp add: u16_max_def)

lemma plain_number_show [simp]: "plain_number mx (show_nat n) = (if n \<le> mx then Some n else None)"
  by (simp add: plain_number_def)

lemma plain_number_le: "plain_number mx s = Some n \<Longrightarrow> n \<le> mx"
  by (auto simp: plain_number_def parse_uint_le split: if_splits)

lemma parse_port_show [simp]: "parse_port (show_nat (unat p)) = Some p"
  using unat_le_u16 [of p] by (simp add: parse_port_def u16_max_def)

end
