(* ===== verification/BridgeSafety.thy ===== *)
theory BridgeSafety
  imports Bridge
begin

text \<open>
  Safety of the callback bridge under every interleaving of its threads: the shape of the table of
  armed and held ports, what a relay may connect, when the host's loopback may be dialled, and that
  a live hold is not taken over.  Also the round trip of the arming socket's requests.
\<close>

section \<open>Requests\<close>

fun valid_request :: "arm_request \<Rightarrow> bool" where
  "valid_request (Arm p t) \<longleftrightarrow> t \<le> u64_max"
| "valid_request (Hold p) \<longleftrightarrow> True"

lemma print_request_ascii: "list_all is_ascii (print_request r)"
  by (cases r) (simp_all add: show_nat_ascii is_ascii_def char_code_def)

lemma split_on_print_request:
  "split_on CHR '' '' (print_request r) =
     (case r of Arm p t \<Rightarrow> [''ARM'', show_nat (unat p), show_nat t] | Hold p \<Rightarrow> [''HOLD'', show_nat (unat p)])"
proof (cases r)
  case (Arm p t)
  have "split_on CHR '' '' (''ARM'' @ CHR '' '' # show_nat (unat p) @ CHR '' '' # show_nat t)
      = [''ARM'', show_nat (unat p), show_nat t]"
    by (subst split_on_append, simp)
      (simp add: split_on_append show_nat_not_space split_on_no_sep)
  with Arm show ?thesis by simp
next
  case (Hold p)
  have "split_on CHR '' '' (''HOLD'' @ CHR '' '' # show_nat (unat p)) = [''HOLD'', show_nat (unat p)]"
    by (subst split_on_append, simp) (simp add: show_nat_not_space split_on_no_sep)
  with Hold show ?thesis by simp
qed

interpretation arm_wire: codec valid_request print_request parse_arm_request
proof
  fix r
  assume "valid_request r"
  then show "parse_arm_request (print_request r) = Some r"
    by (cases r)
      (simp_all add: parse_arm_request_def utf8_valid_ascii print_request_ascii split_on_print_request
        del: print_request.simps)
qed

lemma print_request_length: "valid_request r \<Longrightarrow> length (print_request r) < MAX_ARM_LINE"
proof (cases r)
  case (Arm p t)
  assume "valid_request r"
  then have "length (show_nat t) \<le> 20"
    using Arm by (intro length_show_nat) (simp_all add: u64_max_def)
  moreover have "length (show_nat (unat p)) \<le> 5"
    using unat_le_u16 [of p] by (intro length_show_nat) (simp_all add: u16_max_def)
  ultimately show ?thesis
    using Arm by (simp add: MAX_ARM_LINE_def)
next
  case (Hold p)
  have "length (show_nat (unat p)) \<le> 5"
    using unat_le_u16 [of p] by (intro length_show_nat) (simp_all add: u16_max_def)
  then show ?thesis
    using Hold by (simp add: MAX_ARM_LINE_def)
qed

lemma print_request_no_newline: "newline \<notin> set (print_request r)"
  by (cases r) (simp_all add: show_nat_not_newline)

text \<open>A request that a client writes on the arming socket is the request that the bridge reads,
  however its bytes are split over reads and whatever interrupted calls come between, as long as
  every read starts before the five-second deadline.\<close>

theorem arm_request_round_trip:
  assumes "valid_request r" and "now + ARM_REQUEST_TIMEOUT < instant_limit"
    and "bytes_of pre = print_request r" and "timely (now + ARM_REQUEST_TIMEOUT) pre"
    and "t < now + ARM_REQUEST_TIMEOUT"
  shows "read_arm_request now closed (pre @ (t, ReadByte newline) # rest) = Some r"
proof -
  have "instant_checked_add now ARM_REQUEST_TIMEOUT = Some (now + ARM_REQUEST_TIMEOUT)"
    using assms(2) by (simp add: instant_checked_add_Some)
  moreover have "read_request_line MAX_ARM_LINE (now + ARM_REQUEST_TIMEOUT) closed []
      (pre @ (t, ReadByte newline) # rest) = Some (print_request r, rest)"
    using read_request_line_complete [of "now + ARM_REQUEST_TIMEOUT" pre t "[]"] assms
      print_request_no_newline [of r] print_request_length [of r] by simp
  ultimately show ?thesis
    using arm_wire.parse_print [OF assms(1)] by (simp add: read_arm_request_def)
qed

theorem arm_request_round_trip_witness:
  "read_arm_request 0 9 ((0, ReadError Interrupted) # at_once 1 ''HOLD 5173'' @ [(2, ReadByte newline), (3, ReadByte CHR ''D'')])
   = Some (Hold 5173)"
proof -
  have p: "print_request (Hold 5173) = ''HOLD 5173''"
    by code_simp
  have b: "bytes_of (at_once u s) = s" for u s
    by (induction s) simp_all
  have t: "u < d \<Longrightarrow> timely d (at_once u s)" for u d s
    by (induction s) simp_all
  show ?thesis
    using arm_request_round_trip [of "Hold 5173" 0 "(0, ReadError Interrupted) # at_once 1 ''HOLD 5173''" 2 9
        "[(3, ReadByte CHR ''D'')]"]
    by (simp add: p b t ARM_REQUEST_TIMEOUT_def time_ops del: print_request.simps at_once_simps)
qed

section \<open>What the log says\<close>

text \<open>The deadlines armed for a port since it was last held, and the holder that took it last and has
  not been found dead since.\<close>

fun arms_since_hold :: "br_event list \<Rightarrow> port \<Rightarrow> instant set" where
  "arms_since_hold [] p = {}"
| "arms_since_hold (EvArmed q d # l) p = (if q = p then {d} else {}) \<union> arms_since_hold l p"
| "arms_since_hold (EvHeld q h # l) p = (if q = p then {} else arms_since_hold l p)"
| "arms_since_hold (e # l) p = arms_since_hold l p"

fun held_by :: "br_event list \<Rightarrow> port \<Rightarrow> nat option" where
  "held_by [] p = None"
| "held_by (EvHeld q h # l) p = (if q = p then Some h else held_by l p)"
| "held_by (EvDead q h # l) p = (if q = p \<and> held_by l p = Some h then None else held_by l p)"
| "held_by (e # l) p = held_by l p"

fun log_ok :: "br_event list \<Rightarrow> bool" where
  "log_ok [] = True"
| "log_ok (EvDialled p t # l) = ((\<exists>d \<in> arms_since_hold l p. t < d) \<and> log_ok l)"
| "log_ok (EvHeld p h # l) = (held_by l p = None \<and> log_ok l)"
| "log_ok (e # l) = log_ok l"

lemma log_ok_suffix: "log_ok (l @ m) \<Longrightarrow> log_ok m"
proof (induction l)
  case (Cons e l)
  then show ?case by (cases e) auto
qed simp

section \<open>The invariant\<close>

definition table_ok :: "fconfig \<Rightarrow> bridge \<Rightarrow> bool" where
  "table_ok cfg b \<longleftrightarrow>
     (\<forall>p d. br_ports b p = Some d \<longrightarrow> can_arm cfg p \<and> br_holders b p = None \<and> d \<in> arms_since_hold (br_log b) p)
     \<and> (\<forall>p h. br_holders b p = Some h \<longrightarrow> can_arm cfg p \<and> h < br_next b)
     \<and> (\<forall>p h. held_by (br_log b) p = Some h \<longrightarrow> br_holders b p = Some h)
     \<and> log_ok (br_log b)"

text \<open>What a thread relies on: a port it acts on is one that may be armed, its peer is authorized, a
  holder it is about to release is dead, and the upstream it relays is the port's own.\<close>

fun arm_task_ok :: "fconfig \<Rightarrow> bridge \<Rightarrow> br_task \<Rightarrow> bool" where
  "arm_task_ok cfg b ArmRead \<longleftrightarrow> True"
| "arm_task_ok cfg b (ArmLook p d) \<longleftrightarrow> can_arm cfg p"
| "arm_task_ok cfg b (ArmPeek p d h) \<longleftrightarrow> can_arm cfg p \<and> h < br_next b"
| "arm_task_ok cfg b (ArmRelease p d h) \<longleftrightarrow> can_arm cfg p \<and> h < br_next b \<and> held_by (br_log b) p \<noteq> Some h"
| "arm_task_ok cfg b (ArmRecord p d) \<longleftrightarrow> can_arm cfg p"
| "arm_task_ok cfg b (HoldLook p) \<longleftrightarrow> can_arm cfg p"
| "arm_task_ok cfg b (HoldPeek p h) \<longleftrightarrow> can_arm cfg p \<and> h < br_next b"
| "arm_task_ok cfg b (HoldRelease p h) \<longleftrightarrow> can_arm cfg p \<and> h < br_next b \<and> held_by (br_log b) p \<noteq> Some h"
| "arm_task_ok cfg b (ArmAnswered s) \<longleftrightarrow> True"
| "arm_task_ok cfg b _ \<longleftrightarrow> False"

definition conn_ok :: "fconfig \<Rightarrow> port \<Rightarrow> ip_addr \<Rightarrow> port \<Rightarrow> bool" where
  "conn_ok cfg lp r p \<longleftrightarrow> authorized cfg r \<and> \<not> denied_port cfg lp p"

fun upstream_ok :: "bridge \<Rightarrow> port \<Rightarrow> upstream \<Rightarrow> bool" where
  "upstream_ok b p (HolderSocket h peer) \<longleftrightarrow> is_loopback (fst peer) \<and> snd peer = p"
| "upstream_ok b p (HostLoopback q) \<longleftrightarrow> q = p \<and> (\<exists>t. EvDialled p t \<in> set (br_log b))"

fun conn_task_ok :: "fconfig \<Rightarrow> port \<Rightarrow> bridge \<Rightarrow> br_task \<Rightarrow> bool" where
  "conn_task_ok cfg lp b (ConnRead r) \<longleftrightarrow> True"
| "conn_task_ok cfg lp b (ConnLook r p) \<longleftrightarrow> conn_ok cfg lp r p"
| "conn_task_ok cfg lp b (ConnDial r p h) \<longleftrightarrow> conn_ok cfg lp r p \<and> h < br_next b"
| "conn_task_ok cfg lp b (ConnFree r p h) \<longleftrightarrow> conn_ok cfg lp r p \<and> h < br_next b \<and> held_by (br_log b) p \<noteq> Some h"
| "conn_task_ok cfg lp b (ConnArmed r p) \<longleftrightarrow> conn_ok cfg lp r p"
| "conn_task_ok cfg lp b (ConnHost r p) \<longleftrightarrow> conn_ok cfg lp r p \<and> (\<exists>t. EvDialled p t \<in> set (br_log b))"
| "conn_task_ok cfg lp b (ConnRelay r p u) \<longleftrightarrow> conn_ok cfg lp r p \<and> upstream_ok b p u"
| "conn_task_ok cfg lp b (ConnAnswered s) \<longleftrightarrow> True"
| "conn_task_ok cfg lp b _ \<longleftrightarrow> False"

definition br_inv :: "fconfig \<Rightarrow> port \<Rightarrow> bridge_system \<Rightarrow> bool" where
  "br_inv cfg lp s \<longleftrightarrow>
     bs_active s = length (bs_conns s) \<and> bs_active s \<le> MAX_CONCURRENT_CONNECTIONS
     \<and> bs_arm_active s = length (bs_arms s) \<and> bs_arm_active s \<le> MAX_CONCURRENT_CONNECTIONS
     \<and> table_ok cfg (bs_bridge s)
     \<and> list_all (arm_task_ok cfg (bs_bridge s)) (bs_arms s)
     \<and> list_all (conn_task_ok cfg lp (bs_bridge s)) (bs_conns s)"

section \<open>One section keeps it\<close>

text \<open>What a section may change as far as the other threads are concerned.\<close>

definition later :: "bridge \<Rightarrow> bridge \<Rightarrow> bool" where
  "later b c \<longleftrightarrow> br_next b \<le> br_next c \<and> set (br_log b) \<subseteq> set (br_log c)
     \<and> (\<forall>p h. h < br_next b \<longrightarrow> held_by (br_log c) p = Some h \<longrightarrow> held_by (br_log b) p = Some h)"

lemma later_refl [simp]: "later b b"
  by (simp add: later_def)

lemma arm_task_later: "later b c \<Longrightarrow> arm_task_ok cfg b t \<Longrightarrow> arm_task_ok cfg c t"
  by (cases t) (auto simp: later_def)

lemma upstream_later: "later b c \<Longrightarrow> upstream_ok b p u \<Longrightarrow> upstream_ok c p u"
  by (cases u) (auto simp: later_def)

lemma conn_task_later: "later b c \<Longrightarrow> conn_task_ok cfg lp b t \<Longrightarrow> conn_task_ok cfg lp c t"
  by (cases t) (auto simp: upstream_later, auto simp: later_def)

lemma dead_later: "later b (br_record (EvDead p h) b)"
  by (auto simp: later_def br_record_def split: if_splits)

lemma dead_table: "table_ok cfg b \<Longrightarrow> table_ok cfg (br_record (EvDead p h) b)"
  by (auto simp: table_ok_def br_record_def split: if_splits)

lemma release_later: "later b (br_release p h b)"
  by (auto simp: later_def br_release_def)

lemma table_held: "table_ok cfg b \<Longrightarrow> held_by (br_log b) p = Some h \<Longrightarrow> br_holders b p = Some h"
  by (simp add: table_ok_def)

lemma release_table:
  assumes "table_ok cfg b" and "held_by (br_log b) p \<noteq> Some h"
  shows "table_ok cfg (br_release p h b)"
proof (cases "br_holders b p = Some h")
  case True
  then have "held_by (br_log b) p = None"
    using assms table_held [OF assms(1), of p] by (cases "held_by (br_log b) p") auto
  then show ?thesis
    using assms True by (auto simp: table_ok_def br_release_def)
next
  case False
  then show ?thesis
    using assms by (simp add: br_release_def)
qed

lemma arm_port_keeps:
  assumes "table_ok cfg b" and "can_arm cfg p" and "arm_port p d b = Some c"
  shows "table_ok cfg c \<and> later b c"
  using assms
  by (auto simp: table_ok_def later_def arm_port_def br_record_def split: if_splits option.splits)

lemma hold_port_keeps:
  assumes "table_ok cfg b" and "can_arm cfg p" and "hold_port p ack b = (r, c)"
  shows "table_ok cfg c \<and> later b c \<and> (\<forall>h. r = HoldExisting h \<longrightarrow> h < br_next c)"
proof (cases "br_holders b p")
  case None
  then have "held_by (br_log b) p = None"
    using table_held [OF assms(1)] by (cases "held_by (br_log b) p") fastforce+
  with None show ?thesis
    using assms
    by (auto simp: table_ok_def later_def hold_port_def br_record_def less_Suc_eq split: if_splits)
next
  case (Some h)
  then show ?thesis
    using assms by (auto simp: table_ok_def hold_port_def)
qed

lemma is_armed_keeps:
  assumes "table_ok cfg b" and "is_armed p now b = (ok, c)"
  shows "table_ok cfg c \<and> later b c \<and> br_next c = br_next b
    \<and> (ok \<longrightarrow> table_ok cfg (br_record (EvDialled p now) c) \<and> later b (br_record (EvDialled p now) c))"
  using assms
  by (auto simp: table_ok_def later_def is_armed_def br_record_def Let_def split: if_splits option.splits)

lemma start_arming_ok: "arm_task_ok cfg b (start_arming cfg now r)"
  by (cases r) (auto split: option.splits)

lemma start_connection_ok: "conn_task_ok cfg lp b (start_connection cfg lp env remote)"
  by (auto simp: start_connection_def conn_ok_def split: option.splits)

lemma dial_connected: "holder_dial env p = DialConnected peer \<Longrightarrow> is_loopback (fst peer) \<and> snd peer = p"
  by (auto simp: holder_dial_def stream_from_def split: if_splits option.splits prod.splits)

lemma start_relay_ok:
  "conn_ok cfg lp r p \<Longrightarrow> upstream_ok b p u \<Longrightarrow> conn_task_ok cfg lp b (start_relay env r p u)"
  by (simp add: start_relay_def)

lemma arm_advance:
  assumes "table_ok cfg b" and "arm_task_ok cfg b t" and "advance_bridge cfg lp env t b = (t', c)"
  shows "table_ok cfg c \<and> later b c \<and> arm_task_ok cfg c t'"
proof (cases t)
  case ArmRead
  then show ?thesis
    using assms by (auto simp: start_arming_ok split: option.splits)
next
  case (ArmLook p d)
  then show ?thesis
    using assms by (auto simp: table_ok_def split: option.splits)
next
  case (ArmPeek p d h)
  then show ?thesis
    using assms dead_table dead_later by (auto simp: br_record_def split: if_splits)
next
  case (ArmRelease p d h)
  then show ?thesis
    using assms release_table release_later by auto
next
  case (ArmRecord p d)
  then show ?thesis
    using assms arm_port_keeps [of cfg b p d] by (auto split: option.splits)
next
  case (HoldLook p)
  then show ?thesis
    using assms hold_port_keeps [of cfg b p "be_ack_ok env"]
    by (auto split: prod.splits hold_outcome.splits)
next
  case (HoldPeek p h)
  then show ?thesis
    using assms dead_table dead_later by (auto simp: br_record_def split: if_splits)
next
  case (HoldRelease p h)
  then show ?thesis
    using assms release_table release_later by auto
qed (use assms in auto)

lemma conn_advance:
  assumes "table_ok cfg b" and "conn_task_ok cfg lp b t" and "advance_bridge cfg lp env t b = (t', c)"
  shows "table_ok cfg c \<and> later b c \<and> conn_task_ok cfg lp c t'"
proof (cases t)
  case (ConnRead r)
  then show ?thesis
    using assms by (auto simp: start_connection_ok)
next
  case (ConnLook r p)
  then show ?thesis
    using assms by (auto simp: table_ok_def split: option.splits)
next
  case (ConnDial r p h)
  then show ?thesis
    using assms dead_table dead_later dial_connected [of "be_dial env" p]
    by (auto simp: br_record_def start_relay_ok split: dial.splits)
next
  case (ConnFree r p h)
  then show ?thesis
    using assms release_table release_later by auto
next
  case (ConnArmed r p)
  then show ?thesis
    using assms is_armed_keeps [of cfg b p "be_now env"]
    by (auto simp: br_record_def split: prod.splits bool.splits)
next
  case (ConnHost r p)
  then show ?thesis
    using assms by (auto intro!: start_relay_ok split: if_splits)
qed (use assms in auto)

lemma br_inv_init: "br_init s \<Longrightarrow> br_inv cfg lp s"
  by (simp add: br_init_def br_inv_def table_ok_def MAX_CONCURRENT_CONNECTIONS_def)

lemma br_inv_log: "br_inv cfg lp s \<Longrightarrow> br_log (bs_bridge s) = l @ m \<Longrightarrow> log_ok m"
  by (metis br_inv_def table_ok_def log_ok_suffix)

lemma list_all_later:
  "later b c \<Longrightarrow> list_all (arm_task_ok cfg b) ts \<Longrightarrow> list_all (arm_task_ok cfg c) ts"
  "later b c \<Longrightarrow> list_all (conn_task_ok cfg lp b) ts \<Longrightarrow> list_all (conn_task_ok cfg lp c) ts"
  by (auto simp: list_all_iff arm_task_later conn_task_later)

lemma br_inv_step:
  assumes "br_inv cfg lp s" and "br_step cfg lp s t"
  shows "br_inv cfg lp t"
  using assms(2)
proof cases
  case (connection remote remote')
  then show ?thesis
    using assms(1) by (auto simp: br_inv_def accept_connection_def acquire_permit_def)
next
  case arming
  then show ?thesis
    using assms(1) by (auto simp: br_inv_def accept_arming_def acquire_permit_def)
next
  case (conn_step xs x ys env x' b)
  then show ?thesis
    using assms(1) conn_advance [of cfg "bs_bridge s" lp x env x' b] list_all_later [of "bs_bridge s" b]
    by (auto simp: br_inv_def)
next
  case (arm_step xs x ys env x' b)
  then show ?thesis
    using assms(1) arm_advance [of cfg "bs_bridge s" x lp env x' b] list_all_later [of "bs_bridge s" b]
    by (auto simp: br_inv_def)
next
  case (conn_end xs x ys)
  then show ?thesis
    using assms(1) by (auto simp: br_inv_def)
next
  case (arm_end xs a ys)
  then show ?thesis
    using assms(1) by (auto simp: br_inv_def)
qed

interpretation bridge_threads: invariant_system br_init "br_step cfg lp" "br_inv cfg lp" for cfg lp
  by unfold_locales (auto intro: br_inv_init br_inv_step)

section \<open>A run of the bridge\<close>

text \<open>One thread alone, section by section.\<close>

fun run_thread :: "fconfig \<Rightarrow> port \<Rightarrow> bridge_env list \<Rightarrow> br_task \<times> bridge \<Rightarrow> br_task \<times> bridge" where
  "run_thread cfg lp [] tb = tb"
| "run_thread cfg lp (env # envs) tb = run_thread cfg lp envs (advance_bridge cfg lp env (fst tb) (snd tb))"

lemma run_arm_reach:
  "reach br_init (br_step cfg lp) s \<Longrightarrow> bs_arms s = xs @ [t] \<Longrightarrow>
   reach br_init (br_step cfg lp)
     (s\<lparr>bs_bridge := snd (run_thread cfg lp envs (t, bs_bridge s)),
        bs_arms := xs @ [fst (run_thread cfg lp envs (t, bs_bridge s))]\<rparr>)"
proof (induction envs arbitrary: s t)
  case Nil
  then show ?case
    by (cases s) simp
next
  case (Cons env envs)
  define n where "n = advance_bridge cfg lp env t (bs_bridge s)"
  have "br_step cfg lp s (s\<lparr>bs_bridge := snd n, bs_arms := xs @ [fst n]\<rparr>)"
    using arm_step [of s xs t "[]" cfg lp env "fst n" "snd n"] Cons.prems by (simp add: n_def)
  then have "reach br_init (br_step cfg lp) (s\<lparr>bs_bridge := snd n, bs_arms := xs @ [fst n]\<rparr>)"
    using Cons.prems reach_step by metis
  then show ?case
    using Cons.IH [of "s\<lparr>bs_bridge := snd n, bs_arms := xs @ [fst n]\<rparr>" "fst n"] by (simp add: n_def)
qed

lemma run_conn_reach:
  "reach br_init (br_step cfg lp) s \<Longrightarrow> bs_conns s = xs @ [t] \<Longrightarrow>
   reach br_init (br_step cfg lp)
     (s\<lparr>bs_bridge := snd (run_thread cfg lp envs (t, bs_bridge s)),
        bs_conns := xs @ [fst (run_thread cfg lp envs (t, bs_bridge s))]\<rparr>)"
proof (induction envs arbitrary: s t)
  case Nil
  then show ?case
    by (cases s) simp
next
  case (Cons env envs)
  define n where "n = advance_bridge cfg lp env t (bs_bridge s)"
  have "br_step cfg lp s (s\<lparr>bs_bridge := snd n, bs_conns := xs @ [fst n]\<rparr>)"
    using conn_step [of s xs t "[]" cfg lp env "fst n" "snd n"] Cons.prems by (simp add: n_def)
  then have "reach br_init (br_step cfg lp) (s\<lparr>bs_bridge := snd n, bs_conns := xs @ [fst n]\<rparr>)"
    using Cons.prems reach_step by metis
  then show ?case
    using Cons.IH [of "s\<lparr>bs_bridge := snd n, bs_conns := xs @ [fst n]\<rparr>" "fst n"] by (simp add: n_def)
qed

text \<open>Port 8400 is armed for 300 seconds, the peer connects and is relayed to the host's loopback; then a
  process holds the port, and the peer's next connection is relayed to that process.\<close>

definition bridge_demo_env :: "string \<Rightarrow> instant \<Rightarrow> bridge_env" where
  "bridge_demo_env line now =
     \<lparr>be_started = now, be_events = at_once now (line @ [newline]), be_closed = now, be_now = now, be_ack_ok = True,
      be_peek = PeekAgain,
      be_dial = \<lparr>de_deadline_ok = True, de_write_ok = True,
        de_reply = Some \<lparr>rm_bytes = 1, rm_byte = CHR ''+'', rm_truncated = False,
                         rm_fds = Some [FdStream (Some (V6 1, 8400))]\<rparr>\<rparr>,
      be_connect_ok = True, be_timeouts_ok = True\<rparr>"

definition demo_bridge0 :: bridge where
  "demo_bridge0 = \<lparr>br_ports = Map.empty, br_holders = Map.empty, br_next = 0, br_log = []\<rparr>"

definition demo_arm :: "br_task \<times> bridge" where
  "demo_arm = run_thread demo_fconfig 12801 (replicate 3 (bridge_demo_env ''ARM 8400 300'' 7)) (ArmRead, demo_bridge0)"

definition demo_conn :: "bridge \<Rightarrow> br_task \<times> bridge" where
  "demo_conn b =
     run_thread demo_fconfig 12801 (replicate 4 (bridge_demo_env ''CONNECT 8400'' 9)) (ConnRead (Some (V4 0x64400002)), b)"

definition demo_hold :: "bridge \<Rightarrow> br_task \<times> bridge" where
  "demo_hold b = run_thread demo_fconfig 12801 (replicate 2 (bridge_demo_env ''HOLD 8400'' 11)) (ArmRead, b)"

definition demo_relay :: bridge where
  "demo_relay = snd (demo_hold (snd (demo_conn (snd demo_arm))))"

definition demo_bridge_state :: bridge_system where
  "demo_bridge_state =
     \<lparr>bs_bridge = snd (demo_conn demo_relay), bs_active = Suc (Suc 0), bs_arm_active = Suc (Suc 0),
      bs_conns = [ConnRelay (V4 0x64400002) 8400 (HostLoopback 8400),
                  ConnRelay (V4 0x64400002) 8400 (HolderSocket 0 (V6 1, 8400))],
      bs_arms = [ArmAnswered HELD, ArmAnswered HELD]\<rparr>"

lemma demo_run_values:
  "fst demo_arm = ArmAnswered HELD"
  "fst (demo_conn (snd demo_arm)) = ConnRelay (V4 0x64400002) 8400 (HostLoopback 8400)"
  "fst (demo_hold (snd (demo_conn (snd demo_arm)))) = ArmAnswered HELD"
  "fst (demo_conn demo_relay) = ConnRelay (V4 0x64400002) 8400 (HolderSocket 0 (V6 1, 8400))"
  "br_log (snd (demo_conn demo_relay)) = [EvHeld 8400 0, EvDialled 8400 9, EvArmed 8400 300000000007]"
  by code_simp+

lemma demo_authorized: "authorized demo_fconfig (V4 0x64400002)"
  by code_simp

lemma accept_connection_reach:
  assumes "reach br_init (br_step cfg lp) s" and "authorized cfg r" and "bs_active s \<noteq> MAX_CONCURRENT_CONNECTIONS"
  shows "reach br_init (br_step cfg lp) (s\<lparr>bs_active := bs_active s + 1, bs_conns := bs_conns s @ [ConnRead (Some r)]\<rparr>)"
  using reach_step [OF assms(1) connection [of cfg lp s "Some r" "Some r"]] assms
  by (simp add: accept_connection_def acquire_permit_def)

lemma accept_arming_reach:
  assumes "reach br_init (br_step cfg lp) s" and "bs_arm_active s \<noteq> MAX_CONCURRENT_CONNECTIONS"
  shows "reach br_init (br_step cfg lp) (s\<lparr>bs_arm_active := bs_arm_active s + 1, bs_arms := bs_arms s @ [ArmRead]\<rparr>)"
  using reach_step [OF assms(1) arming [of cfg lp s]] assms
  by (simp add: accept_arming_def acquire_permit_def)

lemma demo_bridge_reach: "reach br_init (br_step demo_fconfig 12801) demo_bridge_state"
proof -
  let ?R = "reach br_init (br_step demo_fconfig 12801)"
  note capacity = MAX_CONCURRENT_CONNECTIONS_def
  have "?R \<lparr>bs_bridge = demo_bridge0, bs_active = 0, bs_arm_active = 0, bs_conns = [], bs_arms = []\<rparr>"
    by (rule reach_init) (simp add: br_init_def demo_bridge0_def)
  from run_arm_reach [OF accept_arming_reach [OF this], of "[]" ArmRead "replicate 3 (bridge_demo_env ''ARM 8400 300'' 7)"]
  have "?R \<lparr>bs_bridge = snd demo_arm, bs_active = 0, bs_arm_active = 1, bs_conns = [], bs_arms = [ArmAnswered HELD]\<rparr>"
    by (simp add: capacity demo_run_values(1) [symmetric] demo_arm_def del: run_thread.simps replicate.simps)
  from run_conn_reach [OF accept_connection_reach [OF this demo_authorized], of "[]" "ConnRead (Some (V4 0x64400002))"
      "replicate 4 (bridge_demo_env ''CONNECT 8400'' 9)"]
  have "?R \<lparr>bs_bridge = snd (demo_conn (snd demo_arm)), bs_active = 1, bs_arm_active = 1,
      bs_conns = [ConnRelay (V4 0x64400002) 8400 (HostLoopback 8400)], bs_arms = [ArmAnswered HELD]\<rparr>"
    by (simp add: capacity demo_run_values(2) [symmetric] demo_conn_def del: run_thread.simps replicate.simps)
  from run_arm_reach [OF accept_arming_reach [OF this], of "[ArmAnswered HELD]" ArmRead
      "replicate 2 (bridge_demo_env ''HOLD 8400'' 11)"]
  have "?R \<lparr>bs_bridge = demo_relay, bs_active = 1, bs_arm_active = Suc (Suc 0),
      bs_conns = [ConnRelay (V4 0x64400002) 8400 (HostLoopback 8400)], bs_arms = [ArmAnswered HELD, ArmAnswered HELD]\<rparr>"
    using demo_run_values(3)
    by (simp add: capacity demo_relay_def demo_hold_def del: run_thread.simps replicate.simps)
  from run_conn_reach [OF accept_connection_reach [OF this demo_authorized],
      of "[ConnRelay (V4 0x64400002) 8400 (HostLoopback 8400)]" "ConnRead (Some (V4 0x64400002))"
      "replicate 4 (bridge_demo_env ''CONNECT 8400'' 9)"]
  show ?thesis
    using demo_run_values(4)
    by (simp add: capacity demo_bridge_state_def demo_conn_def del: run_thread.simps replicate.simps)
qed

section \<open>Properties\<close>

text \<open>C37: The table of the bridge is well formed under every interleaving of its threads: a port is never
  both armed and held, only ports that may be armed are in it, and at most 32 connections of
  either listener are served at once.\<close>

theorem bridge_table_wf:
  assumes "reach br_init (br_step cfg lp) s"
  shows "dom (br_ports (bs_bridge s)) \<inter> dom (br_holders (bs_bridge s)) = {}
     \<and> (\<forall>p \<in> dom (br_ports (bs_bridge s)) \<union> dom (br_holders (bs_bridge s)). can_arm cfg p)
     \<and> length (bs_conns s) \<le> MAX_CONCURRENT_CONNECTIONS \<and> length (bs_arms s) \<le> MAX_CONCURRENT_CONNECTIONS"
proof -
  have "br_inv cfg lp s"
    using assms bridge_threads.reach_inv by metis
  then show ?thesis
    by (auto simp: br_inv_def table_ok_def)
qed

theorem bridge_table_wf_witness:
  "br_holders (bs_bridge demo_bridge_state) 8400 = Some 0 \<and> br_ports (bs_bridge demo_bridge_state) 8400 = None"
proof -
  have h: "br_holders (bs_bridge demo_bridge_state) 8400 = Some 0"
    by code_simp
  then show ?thesis
    using bridge_table_wf [OF demo_bridge_reach] by (auto simp: dom_def)
qed

text \<open>C5: Every relay of the bridge connects an authorized peer to the port it asked for, on a loopback
  address, and to none of the denied ports: either a socket that a holder handed over, whose own
  peer is loopback at that very port, or the host's loopback at that port after a check that the
  port was armed.\<close>

theorem bridge_relay_confined:
  assumes "reach br_init (br_step cfg lp) s" and "ConnRelay r p u \<in> set (bs_conns s)"
  shows "authorized cfg r \<and> \<not> denied_port cfg lp p
     \<and> (case u of
          HolderSocket h peer \<Rightarrow> is_loopback (fst peer) \<and> snd peer = p
        | HostLoopback q \<Rightarrow> q = p \<and> (\<exists>t. EvDialled p t \<in> set (br_log (bs_bridge s))))"
proof -
  have "br_inv cfg lp s"
    using assms(1) bridge_threads.reach_inv by metis
  then have "conn_task_ok cfg lp (bs_bridge s) (ConnRelay r p u)"
    using assms(2) by (auto simp: br_inv_def list_all_iff)
  then show ?thesis
    by (cases u) (auto simp: conn_ok_def)
qed

theorem bridge_relay_confined_witness:
  "is_loopback (V6 1) \<and> \<not> denied_port demo_fconfig 12801 8400
   \<and> (\<exists>t. EvDialled 8400 t \<in> set (br_log (bs_bridge demo_bridge_state)))"
  using bridge_relay_confined [OF demo_bridge_reach, of "V4 0x64400002" 8400 "HolderSocket 0 (V6 1, 8400)"]
    bridge_relay_confined [OF demo_bridge_reach, of "V4 0x64400002" 8400 "HostLoopback 8400"]
  by (simp add: demo_bridge_state_def)

text \<open>C11: The bridge dials the host's loopback only under a live arming: at the moment it decides to, some
  arming of that port made since the port was last held has a deadline in the future.  A hold
  ends every earlier arming of its port.\<close>

theorem bridge_dials_live_arming:
  assumes "reach br_init (br_step cfg lp) s"
    and "br_log (bs_bridge s) = post @ EvDialled p t # pre"
  shows "\<exists>d \<in> arms_since_hold pre p. t < d"
proof -
  have "br_inv cfg lp s"
    using assms(1) bridge_threads.reach_inv by metis
  then have "log_ok (EvDialled p t # pre)"
    using assms(2) br_inv_log by blast
  then show ?thesis
    by simp
qed

theorem bridge_dials_live_arming_witness:
  "\<exists>d \<in> arms_since_hold [EvArmed 8400 300000000007] 8400. 9 < d"
  using bridge_dials_live_arming [OF demo_bridge_reach, of "[EvHeld 8400 0]" 8400 9 "[EvArmed 8400 300000000007]"]
    demo_run_values(5)
  by (simp add: demo_bridge_state_def)

text \<open>C12: A held port is not taken over: whenever a process becomes the holder of a port, the previous
  holder of that port has been found dead first, and as long as it has not, the table still
  names it.\<close>

theorem bridge_hold_exclusive:
  assumes "reach br_init (br_step cfg lp) s"
  shows "(br_log (bs_bridge s) = post @ EvHeld p h # pre \<longrightarrow> held_by pre p = None)
     \<and> (held_by (br_log (bs_bridge s)) p = Some h' \<longrightarrow> br_holders (bs_bridge s) p = Some h')"
proof -
  have inv: "br_inv cfg lp s"
    using assms bridge_threads.reach_inv by metis
  have "held_by pre p = None" if "br_log (bs_bridge s) = post @ EvHeld p h # pre"
  proof -
    have "log_ok (EvHeld p h # pre)"
      using inv that br_inv_log by blast
    then show ?thesis
      by simp
  qed
  moreover have "br_holders (bs_bridge s) p = Some h'" if "held_by (br_log (bs_bridge s)) p = Some h'"
    using inv that by (auto simp: br_inv_def table_ok_def)
  ultimately show ?thesis
    by blast
qed

theorem bridge_hold_exclusive_witness:
  "held_by [EvDialled 8400 9, EvArmed 8400 300000000007] 8400 = None
   \<and> br_holders (bs_bridge demo_bridge_state) 8400 = Some 0"
  using bridge_hold_exclusive [OF demo_bridge_reach, of "[]" 8400 0
      "[EvDialled 8400 9, EvArmed 8400 300000000007]" 0] demo_run_values(5)
  by (simp add: demo_bridge_state_def)

end
