(* ===== verification/Leases.thy ===== *)
theory Leases
  imports UrlPolicy Interfaces "HOL-Library.AList"
begin

text \<open>
  Callback leases on the laptop (\<open>callback/lease.rs\<close>), the serving of one callback port
  (\<open>callback.rs\<close>, \<open>callback/listener.rs\<close>) and the daemon's two uses of it: the ports of a URL
  (\<open>daemon/origin.rs\<close>) and a hold (\<open>daemon.rs\<close>).

  The lease table is an association list and every \<open>Arc<AtomicBool>\<close> stop flag is a number; the set
  of raised flags is the store they share.  A \<open>serve_on\<close> call and the accept loops it starts run
  as threads that interleave at their lock operations and system calls: a thread is a value of
  \<open>task\<close>, and one call of \<open>advance_task\<close> is its next atomic section.  \<open>Instant + Duration\<close> panics
  past the clock's range and the workspace builds with \<open>panic = "abort"\<close>: that outcome is
  \<open>None\<close>.
\<close>

type_synonym stop_flag = nat

record lease =
  l_owner :: socket_addr
  l_deadline :: instant
  l_listeners :: nat
  l_stop :: stop_flag

record cb_state =
  cb_table :: "(port \<times> lease) list"
  cb_stopped :: "stop_flag set"
  cb_v4 :: "(port \<times> stop_flag) list"
  cb_v6 :: "(port \<times> stop_flag) list"
  cb_next :: stop_flag

datatype refresh = RefreshLive | RefreshReleasing | RefreshAbsent | RefreshOwned socket_addr

section \<open>The lease table\<close>

definition lease_refresh ::
  "port \<Rightarrow> socket_addr \<Rightarrow> duration \<Rightarrow> instant \<Rightarrow> cb_state \<Rightarrow> (refresh \<times> cb_state) option" where
  "lease_refresh p owner ttl now s =
     (case map_of (cb_table s) p of
        Some l \<Rightarrow>
          if l_stop l \<notin> cb_stopped s \<and> l_owner l \<noteq> owner then Some (RefreshOwned (l_owner l), s)
          else if l_stop l \<notin> cb_stopped s then
            map_option (\<lambda>deadline.
              (RefreshLive,
               s\<lparr>cb_table := AList.update p (l\<lparr>l_deadline := max (l_deadline l) deadline\<rparr>) (cb_table s)\<rparr>))
              (instant_checked_add now ttl)
          else Some (RefreshReleasing, s)
      | None \<Rightarrow> Some (RefreshAbsent, s))"

definition lease_insert ::
  "port \<Rightarrow> socket_addr \<Rightarrow> duration \<Rightarrow> stop_flag \<Rightarrow> nat \<Rightarrow> instant \<Rightarrow> cb_state \<Rightarrow> cb_state option" where
  "lease_insert p owner ttl stop listeners now s =
     map_option (\<lambda>deadline.
       s\<lparr>cb_stopped := (case map_of (cb_table s) p of
                         Some replaced \<Rightarrow> insert (l_stop replaced) (cb_stopped s)
                       | None \<Rightarrow> cb_stopped s),
         cb_table := AList.update p
           \<lparr>l_owner = owner, l_deadline = deadline, l_listeners = listeners, l_stop = stop\<rparr> (cb_table s)\<rparr>)
       (instant_checked_add now ttl)"

definition lease_release :: "port \<Rightarrow> stop_flag \<Rightarrow> cb_state \<Rightarrow> bool \<times> cb_state" where
  "lease_release p stop s =
     (case map_of (cb_table s) p of
        Some l \<Rightarrow>
          if l_stop l = stop then
            if l_listeners l - 1 = 0 then
              (True, s\<lparr>cb_table := AList.delete p (cb_table s), cb_stopped := insert stop (cb_stopped s)\<rparr>)
            else (False, s\<lparr>cb_table := AList.update p (l\<lparr>l_listeners := l_listeners l - 1\<rparr>) (cb_table s)\<rparr>)
          else (False, s)
      | None \<Rightarrow> (False, s))"

definition lease_expire :: "instant \<Rightarrow> cb_state \<Rightarrow> cb_state" where
  "lease_expire now s =
     s\<lparr>cb_stopped := cb_stopped s
        \<union> set (map (\<lambda>(_, l). l_stop l) (filter (\<lambda>(_, l). l_deadline l \<le> now) (cb_table s)))\<rparr>"

section \<open>Serving a port\<close>

datatype family = Inet4 | Inet6

datatype serve_error =
    NoPeer port | OwnedPort port socket_addr | TooManyPorts | ReservedPort port | BindFailed port
  | UnnamedPort | NotStarted port

datatype task =
    Served "(port, serve_error) result"
  | WaitReleased port socket_addr duration
  | BindV4 port socket_addr duration
  | BindV6 port socket_addr duration stop_flag
  | InsertLease port socket_addr duration stop_flag bool
  | SpawnV4 port socket_addr stop_flag bool
  | ReleaseV4 port stop_flag bool
  | DropV6 port stop_flag
  | ReleaseV6 port stop_flag
  | SpawnV6 port socket_addr stop_flag
  | ReleaseUnspawned port stop_flag
  | Accepting family port socket_addr stop_flag
  | ReleaseLoop port stop_flag

text \<open>What the kernel answers to a thread's next system call.\<close>

datatype bind6_answer = Bind6Ok | Bind6InUse | Bind6Unavailable

record serve_env =
  se_now :: instant
  se_bind4_ok :: bool
  se_ephemeral :: port
  se_named :: bool
  se_bind6 :: bind6_answer
  se_spawn_ok :: bool
  se_accept_fails :: bool

definition serve_on :: "fconfig \<Rightarrow> port \<Rightarrow> duration \<Rightarrow> instant \<Rightarrow> cb_state \<Rightarrow> (task \<times> cb_state) option" where
  "serve_on cfg p ttl now s =
     (case single_peer_ip cfg of
        Ok (Some peer) \<Rightarrow>
          let bridge = (peer, fc_bridge_port cfg)
          in if p \<noteq> 0 then
               map_option (\<lambda>(r, s').
                 (case r of
                    RefreshLive \<Rightarrow> Served (Ok p)
                  | RefreshOwned owner \<Rightarrow> Served (Err (OwnedPort p owner))
                  | RefreshReleasing \<Rightarrow> WaitReleased p bridge ttl
                  | RefreshAbsent \<Rightarrow> BindV4 p bridge ttl, s')) (lease_refresh p bridge ttl now s)
             else Some (BindV4 p bridge ttl, s)
      | _ \<Rightarrow> Some (Served (Err (NoPeer p)), s))"

definition drop_listener :: "port \<Rightarrow> stop_flag \<Rightarrow> (port \<times> stop_flag) list \<Rightarrow> (port \<times> stop_flag) list" where
  "drop_listener p f ls = filter (\<lambda>x. x \<noteq> (p, f)) ls"

text \<open>One turn of an accept loop: it ends once its flag is raised, and an accept error raises it.\<close>

definition accept_step ::
  "serve_env \<Rightarrow> family \<Rightarrow> port \<Rightarrow> socket_addr \<Rightarrow> stop_flag \<Rightarrow> cb_state \<Rightarrow> task list \<times> cb_state" where
  "accept_step env fam p own f s =
     (if f \<in> cb_stopped s then
        ([ReleaseLoop p f],
         (case fam of
            Inet4 \<Rightarrow> s\<lparr>cb_v4 := drop_listener p f (cb_v4 s)\<rparr>
          | Inet6 \<Rightarrow> s\<lparr>cb_v6 := drop_listener p f (cb_v6 s)\<rparr>))
      else ([Accepting fam p own f],
            if se_accept_fails env then s\<lparr>cb_stopped := insert f (cb_stopped s)\<rparr> else s))"

fun advance_task :: "serve_env \<Rightarrow> task \<Rightarrow> cb_state \<Rightarrow> (task list \<times> cb_state) option" where
  "advance_task env (Served r) s = Some ([Served r], s)"
| "advance_task env (WaitReleased p own ttl) s =
     Some ([if map_of (cb_table s) p \<noteq> None then WaitReleased p own ttl else BindV4 p own ttl], s)"
| "advance_task env (BindV4 p own ttl) s =
     (let b = (if p = 0 then se_ephemeral env else p) in
      if \<not> se_bind4_ok env \<or> b = 0 \<or> b \<in> fst ` set (cb_v4 s) then Some ([Served (Err (BindFailed p))], s)
      else if \<not> se_named env then Some ([Served (Err UnnamedPort)], s)
      else Some ([BindV6 b own ttl (cb_next s)],
                 s\<lparr>cb_v4 := (b, cb_next s) # cb_v4 s, cb_next := Suc (cb_next s)\<rparr>))"
| "advance_task env (BindV6 b own ttl f) s =
     (if b \<in> fst ` set (cb_v6 s) \<or> se_bind6 env = Bind6InUse then
        Some ([Served (Err (BindFailed b))], s\<lparr>cb_v4 := drop_listener b f (cb_v4 s)\<rparr>)
      else if se_bind6 env = Bind6Unavailable then Some ([InsertLease b own ttl f False], s)
      else Some ([InsertLease b own ttl f True], s\<lparr>cb_v6 := (b, f) # cb_v6 s\<rparr>))"
| "advance_task env (InsertLease b own ttl f six) s =
     map_option (\<lambda>s'. ([SpawnV4 b own f six], s')) (lease_insert b own ttl f (1 + of_bool six) (se_now env) s)"
| "advance_task env (SpawnV4 b own f six) s =
     (if se_spawn_ok env then
        Some (Accepting Inet4 b own f # (if six then [SpawnV6 b own f] else [Served (Ok b)]), s)
      else Some ([ReleaseV4 b f six], s\<lparr>cb_v4 := drop_listener b f (cb_v4 s)\<rparr>))"
| "advance_task env (ReleaseV4 b f six) s =
     Some ([if six then DropV6 b f else Served (Err (NotStarted b))], snd (lease_release b f s))"
| "advance_task env (DropV6 b f) s = Some ([ReleaseV6 b f], s\<lparr>cb_v6 := drop_listener b f (cb_v6 s)\<rparr>)"
| "advance_task env (ReleaseV6 b f) s = Some ([Served (Err (NotStarted b))], snd (lease_release b f s))"
| "advance_task env (SpawnV6 b own f) s =
     (if se_spawn_ok env then Some ([Accepting Inet6 b own f, Served (Ok b)], s)
      else Some ([ReleaseUnspawned b f], s\<lparr>cb_v6 := drop_listener b f (cb_v6 s)\<rparr>))"
| "advance_task env (ReleaseUnspawned b f) s = Some ([Served (Ok b)], snd (lease_release b f s))"
| "advance_task env (Accepting fam p own f) s = Some (accept_step env fam p own f s)"
| "advance_task env (ReleaseLoop p f) s = Some ([], snd (lease_release p f s))"

section \<open>The laptop's callback threads\<close>

record cb_system =
  cs_state :: cb_state
  cs_tasks :: "task list"

definition cb_init :: "cb_system \<Rightarrow> bool" where
  "cb_init s \<longleftrightarrow> cs_state s = \<lparr>cb_table = [], cb_stopped = {}, cb_v4 = [], cb_v6 = [], cb_next = 0\<rparr>
     \<and> cs_tasks s = []"

inductive cb_step :: "cb_system \<Rightarrow> cb_system \<Rightarrow> bool" where
  serve_step:
    "serve_on cfg p ttl now (cs_state s) = Some (t, st) \<Longrightarrow>
     cb_step s \<lparr>cs_state = st, cs_tasks = cs_tasks s @ [t]\<rparr>"
| task_step:
    "cs_tasks s = xs @ t # ys \<Longrightarrow> advance_task env t (cs_state s) = Some (ts, st) \<Longrightarrow>
     cb_step s \<lparr>cs_state = st, cs_tasks = xs @ ts @ ys\<rparr>"
| expire_step:
    "cb_step s (s\<lparr>cs_state := lease_expire now (cs_state s)\<rparr>)"

end
