(* ===== verification/RateLimit.thy ===== *)
theory RateLimit
  imports Net
begin

text \<open>
  The laptop daemon's guard against open loops (\<open>ratelimit.rs\<close>): at most three opens of one URL from
  one origin in two seconds, over a bounded queue of recent opens.
\<close>

definition MAX_OPENS_PER_WINDOW :: nat where "MAX_OPENS_PER_WINDOW = 3"
definition MAX_TRACKED_OPENS :: nat where "MAX_TRACKED_OPENS = 64"
definition OPEN_WINDOW :: duration where "OPEN_WINDOW = from_secs 2"

datatype open_decision = Permit | DropOpen nat

record opened_url =
  ou_url :: string
  ou_opened_at :: instant
  ou_origin :: "ip_addr option"

type_synonym recent_opens = "opened_url list"

definition recent :: "instant \<Rightarrow> opened_url \<Rightarrow> bool" where
  "recent now e \<longleftrightarrow> duration_since now (ou_opened_at e) < OPEN_WINDOW"

definition same_open :: "string \<Rightarrow> ip_addr option \<Rightarrow> opened_url \<Rightarrow> bool" where
  "same_open u origin e \<longleftrightarrow> ou_origin e = origin \<and> ou_url e = u"

definition record_open ::
  "string \<Rightarrow> instant \<Rightarrow> ip_addr option \<Rightarrow> recent_opens \<Rightarrow> open_decision \<times> recent_opens" where
  "record_open u now origin entries =
     (let entries = filter (recent now) entries;
          count = length (filter (same_open u origin) entries) + 1
      in if MAX_OPENS_PER_WINDOW < count then (DropOpen count, entries)
         else (Permit,
               (if length entries = MAX_TRACKED_OPENS then tl entries else entries)
               @ [\<lparr>ou_url = u, ou_opened_at = now, ou_origin = origin\<rparr>]))"

text \<open>A sequence of requests, and the opens it let through, oldest first.\<close>

fun run_opens ::
  "recent_opens \<times> opened_url list \<Rightarrow> opened_url list \<Rightarrow> recent_opens \<times> opened_url list" where
  "run_opens s [] = s"
| "run_opens (entries, opened) (r # rs) =
     run_opens
       (case record_open (ou_url r) (ou_opened_at r) (ou_origin r) entries of
          (Permit, entries') \<Rightarrow> (entries', opened @ [r])
        | (DropOpen _, entries') \<Rightarrow> (entries', opened)) rs"

section \<open>The queue holds the recent tail of the history\<close>

definition tracks :: "instant \<Rightarrow> recent_opens \<Rightarrow> opened_url list \<Rightarrow> bool" where
  "tracks now entries opened \<longleftrightarrow>
     length entries \<le> MAX_TRACKED_OPENS
     \<and> sorted (map ou_opened_at opened) \<and> (\<forall>e \<in> set opened. ou_opened_at e \<le> now)
     \<and> (\<exists>k \<le> length opened. entries = drop k opened
          \<and> (\<forall>i < k. recent now (opened ! i) \<longrightarrow> i + MAX_TRACKED_OPENS \<le> length opened))"

definition paced :: "opened_url list \<Rightarrow> bool" where
  "paced opened \<longleftrightarrow>
     (\<forall>a b c d. a < b \<and> b < c \<and> c < d \<and> d < length opened
        \<and> same_open (ou_url (opened ! a)) (ou_origin (opened ! a)) (opened ! b)
        \<and> same_open (ou_url (opened ! a)) (ou_origin (opened ! a)) (opened ! c)
        \<and> same_open (ou_url (opened ! a)) (ou_origin (opened ! a)) (opened ! d)
        \<and> ou_opened_at (opened ! d) - ou_opened_at (opened ! a) < OPEN_WINDOW
        \<longrightarrow> a + MAX_TRACKED_OPENS \<le> d)"

lemma opened_url_eta:
  "\<lparr>ou_url = ou_url r, ou_opened_at = ou_opened_at r, ou_origin = ou_origin r\<rparr> = (r :: opened_url)"
  by simp

lemma recent_earlier: "now \<le> now' \<Longrightarrow> recent now' e \<Longrightarrow> recent now e"
  by (auto simp: recent_def duration_since_def)

text \<open>On a list sorted by time the retained entries are a suffix.\<close>

lemma filter_recent_suffix:
  "sorted (map ou_opened_at xs) \<Longrightarrow>
   \<exists>j \<le> length xs. filter (recent now) xs = drop j xs \<and> (\<forall>i < j. \<not> recent now (xs ! i))"
proof (induction xs)
  case (Cons x xs)
  show ?case
  proof (cases "recent now x")
    case True
    have "recent now y" if "y \<in> set xs" for y
    proof -
      have "ou_opened_at x \<le> ou_opened_at y" using Cons.prems that by simp
      then show ?thesis using True by (auto simp: recent_def duration_since_def)
    qed
    then show ?thesis
      using True by (intro exI [of _ 0]) (auto simp: filter_True)
  next
    case False
    obtain j where "j \<le> length xs" "filter (recent now) xs = drop j xs" "\<forall>i < j. \<not> recent now (xs ! i)"
      using Cons by auto
    then show ?thesis
      using False by (intro exI [of _ "Suc j"]) (auto simp: nth_Cons split: nat.splits)
  qed
qed simp

lemma tracks_retain:
  assumes "tracks now entries opened" and "now \<le> now'"
  shows "tracks now' (filter (recent now') entries) opened"
proof -
  obtain k where k: "k \<le> length opened" "entries = drop k opened"
      "\<forall>i < k. recent now (opened ! i) \<longrightarrow> i + MAX_TRACKED_OPENS \<le> length opened"
    using assms(1) by (auto simp: tracks_def)
  have "sorted (map ou_opened_at entries)"
    using assms(1) k(2) by (simp add: tracks_def drop_map [symmetric] sorted_wrt_drop)
  then obtain j where j: "j \<le> length entries" "filter (recent now') entries = drop j entries"
      "\<forall>i < j. \<not> recent now' (entries ! i)"
    using filter_recent_suffix by blast
  have "\<forall>i < k + j. recent now' (opened ! i) \<longrightarrow> i + MAX_TRACKED_OPENS \<le> length opened"
  proof (intro allI impI)
    fix i assume "i < k + j" and "recent now' (opened ! i)"
    then show "i + MAX_TRACKED_OPENS \<le> length opened"
      using k j(3) recent_earlier [OF assms(2), of "opened ! i"]
      by (cases "i < k") (auto dest: spec [of _ "i - k"])
  qed
  moreover have "k + j \<le> length opened"
    using j(1) k by simp
  moreover have "filter (recent now') entries = drop (k + j) opened"
    using j(2) k(2) by (simp add: add.commute)
  moreover have "length (filter (recent now') entries) \<le> MAX_TRACKED_OPENS"
    using assms(1) by (auto simp: tracks_def intro: order_trans [OF length_filter_le])
  moreover have "\<forall>e \<in> set opened. ou_opened_at e \<le> now'"
    using assms by (auto simp: tracks_def)
  ultimately show ?thesis
    using assms(1) unfolding tracks_def by blast
qed

lemma tracks_push:
  assumes "tracks now entries opened" and "ou_opened_at e = now"
  shows "tracks now ((if length entries = MAX_TRACKED_OPENS then tl entries else entries) @ [e]) (opened @ [e])"
proof -
  obtain k where k: "k \<le> length opened" "entries = drop k opened"
      "\<forall>i < k. recent now (opened ! i) \<longrightarrow> i + MAX_TRACKED_OPENS \<le> length opened"
    using assms(1) by (auto simp: tracks_def)
  define k' where "k' = (if length entries = MAX_TRACKED_OPENS then Suc k else k)"
  have full: "length entries = MAX_TRACKED_OPENS \<Longrightarrow> k + MAX_TRACKED_OPENS = length opened"
    using k by simp
  then have "k' \<le> length opened"
    using k(1) by (auto simp: k'_def MAX_TRACKED_OPENS_def)
  moreover have "(if length entries = MAX_TRACKED_OPENS then tl entries else entries) @ [e] = drop k' (opened @ [e])"
    using k full by (auto simp: k'_def MAX_TRACKED_OPENS_def drop_Suc tl_drop)
  moreover have "\<forall>i < k'. recent now ((opened @ [e]) ! i) \<longrightarrow> i + MAX_TRACKED_OPENS \<le> length (opened @ [e])"
    using k full by (auto simp: k'_def nth_append less_Suc_eq MAX_TRACKED_OPENS_def dest: le_SucI)
  moreover have "sorted (map ou_opened_at (opened @ [e]))" "\<forall>x \<in> set (opened @ [e]). ou_opened_at x \<le> now"
    using assms by (auto simp: tracks_def sorted_append)
  moreover have "length ((if length entries = MAX_TRACKED_OPENS then tl entries else entries) @ [e]) \<le> MAX_TRACKED_OPENS"
    using assms(1) by (auto simp: tracks_def MAX_TRACKED_OPENS_def)
  ultimately show ?thesis
    unfolding tracks_def by (intro conjI exI [of _ k']) simp_all
qed

lemma three_of_filter:
  assumes "i < j" and "j < l" and "l < length xs" and "P (xs ! i)" and "P (xs ! j)" and "P (xs ! l)"
  shows "3 \<le> length (filter P xs)"
proof -
  have "{i, j, l} \<subseteq> {n. n < length xs \<and> P (xs ! n)}"
    using assms by auto
  then have "card {i, j, l} \<le> length (filter P xs)"
    unfolding length_filter_conv_card by (rule card_mono [rotated]) simp
  then show ?thesis
    using assms(1,2) by simp
qed

lemma paced_push:
  assumes "tracks now entries opened" and "paced opened" and "ou_opened_at e = now"
    and few: "length (filter (same_open (ou_url e) (ou_origin e)) entries) < 3"
  shows "paced (opened @ [e])"
  unfolding paced_def
proof (intro allI impI, elim conjE)
  fix a b c d
  assume order: "a < b" "b < c" "c < d" "d < length (opened @ [e])"
    and same: "same_open (ou_url ((opened @ [e]) ! a)) (ou_origin ((opened @ [e]) ! a)) ((opened @ [e]) ! b)"
      "same_open (ou_url ((opened @ [e]) ! a)) (ou_origin ((opened @ [e]) ! a)) ((opened @ [e]) ! c)"
      "same_open (ou_url ((opened @ [e]) ! a)) (ou_origin ((opened @ [e]) ! a)) ((opened @ [e]) ! d)"
    and close: "ou_opened_at ((opened @ [e]) ! d) - ou_opened_at ((opened @ [e]) ! a) < OPEN_WINDOW"
  show "a + MAX_TRACKED_OPENS \<le> d"
  proof (cases "d < length opened")
    case True
    then show ?thesis
      using assms(2) order same close unfolding paced_def by (auto simp: nth_append)
  next
    case False
    then have d: "d = length opened" "a < length opened" "b < length opened" "c < length opened"
      using order by auto
    obtain k where k: "entries = drop k opened"
        "\<forall>i < k. recent now (opened ! i) \<longrightarrow> i + MAX_TRACKED_OPENS \<le> length opened"
      using assms(1) by (auto simp: tracks_def)
    have "recent now (opened ! a)"
      using close d assms(3) by (simp add: nth_append recent_def duration_since_def)
    moreover have "a < k"
    proof (rule ccontr)
      assume "\<not> a < k"
      then have "3 \<le> length (filter (same_open (ou_url e) (ou_origin e)) entries)"
        using order d same k(1)
        by (intro three_of_filter [of "a - k" "b - k" "c - k"]) (auto simp: nth_append same_open_def)
      with few show False by simp
    qed
    ultimately show ?thesis
      using k(2) d(1) by blast
  qed
qed

lemma run_opens_inv:
  assumes "tracks now entries opened" and "paced opened"
    and "sorted (map ou_opened_at rs)" and "\<forall>r \<in> set rs. now \<le> ou_opened_at r"
    and "run_opens (entries, opened) rs = (entries', opened')"
  shows "paced opened' \<and> length entries' \<le> MAX_TRACKED_OPENS"
  using assms
proof (induction rs arbitrary: now entries opened)
  case Nil
  then show ?case by (simp add: tracks_def)
next
  case (Cons r rs)
  define kept where "kept = filter (recent (ou_opened_at r)) entries"
  have t: "tracks (ou_opened_at r) kept opened"
    using Cons.prems(1,4) tracks_retain by (simp add: kept_def)
  have later: "sorted (map ou_opened_at rs)" "\<forall>x \<in> set rs. ou_opened_at r \<le> ou_opened_at x"
    using Cons.prems(3) by auto
  show ?case
  proof (cases "length (filter (same_open (ou_url r) (ou_origin r)) kept) < 3")
    case True
    let ?kept' = "(if length kept = MAX_TRACKED_OPENS then tl kept else kept) @ [r]"
    have "run_opens (?kept', opened @ [r]) rs = (entries', opened')"
      using Cons.prems(5) True
      by (simp add: record_open_def Let_def MAX_OPENS_PER_WINDOW_def kept_def [symmetric] not_less
          opened_url_eta split: if_splits)
    then show ?thesis
      using Cons.IH [OF tracks_push [OF t refl] paced_push [OF t Cons.prems(2) refl True] later] by blast
  next
    case False
    then have "run_opens (kept, opened) rs = (entries', opened')"
      using Cons.prems(5) by (simp add: record_open_def Let_def MAX_OPENS_PER_WINDOW_def kept_def [symmetric])
    then show ?thesis
      using Cons.IH [OF t Cons.prems(2) later] by blast
  qed
qed

text \<open>The open guard works over a whole run of requests with increasing times: four opens of one
  URL from one origin are let through within two seconds only when at least 64 opens were let
  through from the first of them to the last, and the queue of recent opens never grows past 64.\<close>

theorem open_loop_guard:
  assumes "sorted (map ou_opened_at rs)"
    and "run_opens ([], []) rs = (entries, opened)"
  shows "paced opened \<and> length entries \<le> MAX_TRACKED_OPENS"
proof (rule run_opens_inv [OF _ _ assms(1) _ assms(2), of 0])
  show "tracks 0 [] []"
    by (simp add: tracks_def)
  show "paced []"
    by (simp add: paced_def)
qed simp

definition demo_open :: "nat \<Rightarrow> opened_url" where
  "demo_open t = \<lparr>ou_url = ''http://a'', ou_opened_at = t, ou_origin = None\<rparr>"

theorem open_loop_guard_witness:
  "sorted (map ou_opened_at (map demo_open [0, 1, 2, 3, 2000000002]))
   \<and> run_opens ([], []) (map demo_open [0, 1, 2, 3, 2000000002])
     = (map demo_open [2000000002], map demo_open [0, 1, 2, 2000000002])
   \<and> paced (map demo_open [0, 1, 2, 2000000002])"
proof -
  have r: "run_opens ([], []) (map demo_open [0, 1, 2, 3, 2000000002])
     = (map demo_open [2000000002], map demo_open [0, 1, 2, 2000000002])"
    by (simp add: record_open_def Let_def recent_def same_open_def demo_open_def duration_since_def
        OPEN_WINDOW_def MAX_OPENS_PER_WINDOW_def MAX_TRACKED_OPENS_def from_secs_def nanos_per_sec_def)
  have "sorted (map ou_opened_at (map demo_open [0, 1, 2, 3, 2000000002]))"
    by (simp add: demo_open_def)
  then show ?thesis
    using open_loop_guard [OF _ r] r by blast
qed

end
