(* ===== verification/Daemon.thy ===== *)
theory Daemon
  imports Bridge Leases RateLimit
begin

text \<open>
  The laptop daemon's URL channel: its requests (\<open>request.rs\<close>), the callback ports of a URL
  (\<open>daemon/origin.rs\<close>), the notification (\<open>daemon/notification.rs\<close>), the handler that ties them to
  the open decision and the loop guard (\<open>daemon.rs\<close>), and the devbox's side of the channel
  (\<open>send.rs\<close>, \<open>opener.rs\<close>, \<open>port.rs\<close>).

  The outcome of each \<open>serve_on\<close> call, whose threads \<open>Leases\<close> models, is an argument here: a
  function of the port, since the ports of one URL are distinct.
\<close>

section \<open>Requests\<close>

datatype url_request = OpenUrl url | HoldPort port nat

definition parse_hold :: "string \<Rightarrow> url_request option" where
  "parse_hold fs =
     (case split_once CHR '' '' fs of
        None \<Rightarrow> None
      | Some (p, secs) \<Rightarrow>
          if p = [] \<or> \<not> list_all is_ascii_digit p \<or> secs = [] \<or> \<not> list_all is_ascii_digit secs then None
          else case (parse_port p, parse_uint u64_max secs) of
            (Some p', Some n) \<Rightarrow> Some (HoldPort p' n) | _ \<Rightarrow> None)"

definition parse_url_request :: "(string \<Rightarrow> url option) \<Rightarrow> string \<Rightarrow> url_request option" where
  "parse_url_request parse_url bytes =
     (if \<not> utf8_valid bytes then None
      else let line = trim bytes in
        case strip_prefix ''HOLD '' line of
          Some hold \<Rightarrow> parse_hold hold
        | None \<Rightarrow>
            (case parse_url line of
               None \<Rightarrow> None
             | Some u \<Rightarrow> if u_scheme u = ''http'' \<or> u_scheme u = ''https'' then Some (OpenUrl u) else None))"

definition read_url_request ::
  "(string \<Rightarrow> url option) \<Rightarrow> (duration \<times> fill_event) list \<Rightarrow> url_request option" where
  "read_url_request parse_url es = Option.bind (read_url_line [] es) (parse_url_request parse_url)"

section \<open>The callback ports of a URL\<close>

type_synonym serve_outcomes = "port \<Rightarrow> (port, serve_error) result"

fun forward_loop ::
  "fconfig \<Rightarrow> bool \<Rightarrow> serve_outcomes \<Rightarrow> nat \<Rightarrow> port list \<Rightarrow> port list \<Rightarrow> (unit, serve_error) result \<times> port list" where
  "forward_loop cfg strict serve forwarded tried [] = (Ok (), tried)"
| "forward_loop cfg strict serve forwarded tried (p # ps) =
     (if \<not> is_dynamic_port cfg p then
        if strict then (Err (ReservedPort p), tried) else forward_loop cfg strict serve forwarded tried ps
      else if forwarded = MAX_DYNAMIC_FORWARDS then forward_loop cfg strict serve forwarded tried ps
      else case serve p of
        Err e \<Rightarrow>
          if (case e of OwnedPort _ _ \<Rightarrow> True | _ \<Rightarrow> False) \<or> strict then (Err e, tried @ [p])
          else forward_loop cfg strict serve (forwarded + 1) (tried @ [p]) ps
      | Ok _ \<Rightarrow> forward_loop cfg strict serve (forwarded + 1) (tried @ [p]) ps)"

text \<open>The result, and the ports that \<open>serve_on\<close> was called for.\<close>

definition forward_url ::
  "(string \<Rightarrow> url option) \<Rightarrow> fconfig \<Rightarrow> bool \<Rightarrow> serve_outcomes \<Rightarrow> url \<Rightarrow> (unit, serve_error) result \<times> port list" where
  "forward_url parse_url cfg strict serve u =
     (let ports = forward_ports parse_url u in
      if strict \<and> MAX_DYNAMIC_FORWARDS < length ports then (Err TooManyPorts, [])
      else forward_loop cfg strict serve 0 [] ports)"

section \<open>Notification and opener\<close>

text \<open>What \<open>run_command\<close> returned for a configured notifier.\<close>

datatype wait_result = CommandExited bool string | WaitTimedOut | RunError

definition NOTIFIER_APPROVAL_TIMEOUT :: duration where
  "NOTIFIER_APPROVAL_TIMEOUT = from_secs 300"

definition notify_with_approval :: "wait_result \<Rightarrow> bool" where
  "notify_with_approval r =
     (case r of
        CommandExited success stdout \<Rightarrow> success \<and> trim (from_utf8_lossy stdout) = ''default''
      | WaitTimedOut \<Rightarrow> False
      | RunError \<Rightarrow> False)"

definition notify_url :: "fconfig \<Rightarrow> wait_result \<Rightarrow> bool" where
  "notify_url cfg r = (case fc_notifier cfg of [] \<Rightarrow> False | program # arguments \<Rightarrow> notify_with_approval r)"

definition open_url :: "fconfig \<Rightarrow> url \<Rightarrow> string list option" where
  "open_url cfg u =
     (case fc_opener cfg of [] \<Rightarrow> None | program # arguments \<Rightarrow> Some (program # arguments @ [u_as_str u]))"

definition config_peer_ip :: "fconfig \<Rightarrow> ip_addr option" where
  "config_peer_ip cfg = (case single_peer_ip cfg of Ok p \<Rightarrow> p | Err _ \<Rightarrow> None)"

text \<open>The command the daemon spawns, if any.\<close>

definition open_permitted_url ::
  "fconfig \<Rightarrow> url \<Rightarrow> instant \<Rightarrow> recent_opens \<Rightarrow> string list option \<times> recent_opens" where
  "open_permitted_url cfg u now opens =
     (case record_open (u_as_str u) now (config_peer_ip cfg) opens of
        (Permit, opens') \<Rightarrow> (open_url cfg u, opens')
      | (DropOpen n, opens') \<Rightarrow> (None, opens'))"

section \<open>The handler\<close>

datatype url_outcome = Opened | Notified

datatype url_reply = ReplyHeld | ReplyOwn port | ReplyRefused serve_error | ReplyOutcome url_outcome

definition MAX_HOLD :: duration where
  "MAX_HOLD = from_secs 600"

text \<open>\<open>hold\<close> asks \<open>serve_on\<close> for the port and this long a lease.\<close>

definition hold_ttl :: "nat \<Rightarrow> duration" where
  "hold_ttl secs = min (from_secs secs) MAX_HOLD"

definition daemon_hold :: "fconfig \<Rightarrow> (duration \<Rightarrow> serve_outcomes) \<Rightarrow> port \<Rightarrow> nat \<Rightarrow> url_reply" where
  "daemon_hold cfg serve p secs =
     (if \<not> is_dynamic_port cfg p then ReplyOwn p
      else case serve (hold_ttl secs) p of Ok _ \<Rightarrow> ReplyHeld | Err e \<Rightarrow> ReplyRefused e)"

record daemon_env =
  dm_serve :: "duration \<Rightarrow> serve_outcomes"
  dm_notifier :: wait_result
  dm_now :: instant

record handled =
  hd_reply :: "url_reply option"
  hd_spawned :: "string list option"
  hd_opens :: recent_opens

definition handle_url ::
  "(string \<Rightarrow> url option) \<Rightarrow> fconfig \<Rightarrow> bool \<Rightarrow> daemon_env \<Rightarrow> url \<Rightarrow> recent_opens \<Rightarrow> handled" where
  "handle_url parse_url cfg strict env u opens =
     (case fst (forward_url parse_url cfg strict (dm_serve env (from_secs (fc_forward_ttl_secs cfg))) u) of
        Err e \<Rightarrow> \<lparr>hd_reply = Some (ReplyRefused e), hd_spawned = None, hd_opens = opens\<rparr>
      | Ok _ \<Rightarrow>
          if decide cfg u = OpenIt \<or> notify_url cfg (dm_notifier env) then
            (let (spawned, opens') = open_permitted_url cfg u (dm_now env) opens
             in \<lparr>hd_reply = Some (ReplyOutcome Opened), hd_spawned = spawned, hd_opens = opens'\<rparr>)
          else \<lparr>hd_reply = Some (ReplyOutcome Notified), hd_spawned = None, hd_opens = opens\<rparr>)"

definition handle_connection ::
  "(string \<Rightarrow> url option) \<Rightarrow> fconfig \<Rightarrow> bool \<Rightarrow> daemon_env \<Rightarrow> url_request option \<Rightarrow> recent_opens \<Rightarrow> handled" where
  "handle_connection parse_url cfg strict env req opens =
     (case req of
        None \<Rightarrow> \<lparr>hd_reply = None, hd_spawned = None, hd_opens = opens\<rparr>
      | Some (HoldPort p secs) \<Rightarrow>
          \<lparr>hd_reply = Some (daemon_hold cfg (dm_serve env) p secs), hd_spawned = None, hd_opens = opens\<rparr>
      | Some (OpenUrl u) \<Rightarrow> handle_url parse_url cfg strict env u opens)"

text \<open>An accepted connection: refused without an answer, or handled under the configuration of the
  machine that opened it.\<close>

definition daemon_connection ::
  "(string \<Rightarrow> url option) \<Rightarrow> fconfig \<Rightarrow> daemon_env \<Rightarrow> ip_addr option \<Rightarrow> url_request option \<Rightarrow> recent_opens \<Rightarrow> handled" where
  "daemon_connection parse_url cfg env remote req opens =
     (case remote of
        None \<Rightarrow> \<lparr>hd_reply = None, hd_spawned = None, hd_opens = opens\<rparr>
      | Some r \<Rightarrow>
          if \<not> authorized cfg r then \<lparr>hd_reply = None, hd_spawned = None, hd_opens = opens\<rparr>
          else handle_connection parse_url (origin_config cfg r) (is_multi_peer cfg) env req opens)"

section \<open>Answers on the wire\<close>

fun outcome_as_wire :: "url_outcome \<Rightarrow> string" where
  "outcome_as_wire Opened = ''opened''"
| "outcome_as_wire Notified = ''notified''"

definition outcome_from_wire :: "string \<Rightarrow> url_outcome option" where
  "outcome_from_wire line =
     (if trim line = ''opened'' then Some Opened else if trim line = ''notified'' then Some Notified else None)"

text \<open>\<open>show_addr\<close> prints a \<open>SocketAddr\<close> and \<open>io\<close> is the text of the operating system's error.\<close>

fun show_serve_error :: "(socket_addr \<Rightarrow> string) \<Rightarrow> string \<Rightarrow> serve_error \<Rightarrow> string" where
  "show_serve_error show_addr io (NoPeer p) =
     ''no literal peer address; not serving callback port '' @ show_nat (unat p)"
| "show_serve_error show_addr io (OwnedPort p owner) =
     ''callback port '' @ show_nat (unat p) @ '' is already owned by peer bridge '' @ show_addr owner"
| "show_serve_error show_addr io TooManyPorts =
     ''callback URL requires more than '' @ show_nat MAX_DYNAMIC_FORWARDS @ '' forwarded ports''"
| "show_serve_error show_addr io (ReservedPort p) =
     ''callback port '' @ show_nat (unat p) @ '' is reserved by forward''"
| "show_serve_error show_addr io (BindFailed p) =
     ''cannot serve callback port '' @ show_nat (unat p) @ '': '' @ io"
| "show_serve_error show_addr io UnnamedPort = ''cannot determine callback port: '' @ io"
| "show_serve_error show_addr io (NotStarted p) =
     ''could not start serving callback port '' @ show_nat (unat p)"

fun print_reply :: "(socket_addr \<Rightarrow> string) \<Rightarrow> string \<Rightarrow> url_reply \<Rightarrow> string" where
  "print_reply show_addr io ReplyHeld = ''held''"
| "print_reply show_addr io (ReplyOwn p) =
     ''refused port '' @ show_nat (unat p) @ '' is one of forward's own on the laptop''"
| "print_reply show_addr io (ReplyRefused e) = ''refused '' @ show_serve_error show_addr io e"
| "print_reply show_addr io (ReplyOutcome r) = outcome_as_wire r"

section \<open>The devbox's side\<close>

datatype send_error = SendConfig | SendUnreachable | SendIo | SendRefused string | SendUnreported | SendHoldUnanswered

datatype laptop_hold_reply = Held | HoldReplyRefused string

definition request_target :: "fconfig \<Rightarrow> port \<Rightarrow> (socket_addr, send_error) result" where
  "request_target cfg channel_port =
     (case single_peer_ip cfg of
        Err _ \<Rightarrow> Err SendConfig
      | Ok None \<Rightarrow> Ok (LOCALHOST, channel_port)
      | Ok (Some ip) \<Rightarrow> Ok (ip, channel_port))"

text \<open>The exchange itself is an argument: \<open>request\<close> connects, writes one line and reads one.\<close>

definition send_request ::
  "fconfig \<Rightarrow> (socket_addr \<Rightarrow> string \<Rightarrow> (string, send_error) result) \<Rightarrow> string \<Rightarrow> port \<Rightarrow> (string, send_error) result" where
  "send_request cfg exchange line channel_port =
     and_then (request_target cfg channel_port) (\<lambda>target. exchange target (line @ [newline]))"

definition url_answer :: "string \<Rightarrow> (url_outcome, send_error) result" where
  "url_answer line =
     (case strip_prefix ''refused '' (trim line) of
        Some reason \<Rightarrow> Err (SendRefused reason)
      | None \<Rightarrow> (case outcome_from_wire line of Some r \<Rightarrow> Ok r | None \<Rightarrow> Err SendUnreported))"

definition send_url ::
  "fconfig \<Rightarrow> (socket_addr \<Rightarrow> string \<Rightarrow> (string, send_error) result) \<Rightarrow> url \<Rightarrow> port \<Rightarrow> (url_outcome, send_error) result" where
  "send_url cfg exchange u channel_port =
     and_then (send_request cfg exchange (u_as_str u) channel_port) url_answer"

definition hold_answer :: "string \<Rightarrow> (laptop_hold_reply, send_error) result" where
  "hold_answer line =
     (if trim line = ''held'' then Ok Held
      else case strip_prefix ''refused '' (trim line) of
        Some reason \<Rightarrow> Ok (HoldReplyRefused reason) | None \<Rightarrow> Err SendHoldUnanswered)"

definition print_hold_line :: "port \<Rightarrow> nat \<Rightarrow> string" where
  "print_hold_line p secs = ''HOLD '' @ show_nat (unat p) @ '' '' @ show_nat secs"

definition send_hold ::
  "fconfig \<Rightarrow> (socket_addr \<Rightarrow> string \<Rightarrow> (string, send_error) result) \<Rightarrow> port \<Rightarrow> nat \<Rightarrow> port \<Rightarrow> (laptop_hold_reply, send_error) result" where
  "send_hold cfg exchange p secs channel_port =
     and_then (send_request cfg exchange (print_hold_line p secs) channel_port) hold_answer"

definition RENEW_EVERY_SECS :: nat where
  "RENEW_EVERY_SECS = 60"

definition LAPTOP_LEASE_SECS :: nat where
  "LAPTOP_LEASE_SECS = 3 * RENEW_EVERY_SECS"

datatype port_error = PortSend send_error | LaptopRefused port string

definition renew ::
  "fconfig \<Rightarrow> (socket_addr \<Rightarrow> string \<Rightarrow> (string, send_error) result) \<Rightarrow> port \<Rightarrow> port \<Rightarrow> (unit, port_error) result" where
  "renew cfg exchange p channel_port =
     (case send_hold cfg exchange p LAPTOP_LEASE_SECS channel_port of
        Err e \<Rightarrow> Err (PortSend e)
      | Ok Held \<Rightarrow> Ok ()
      | Ok (HoldReplyRefused reason) \<Rightarrow> Err (LaptopRefused p reason))"

text \<open>\<open>forward open\<close>: the exit status, and whether the URL is handed back to the caller.\<close>

datatype open_error = OpenerReentry | OpenSend send_error | NotAllowlisted

text \<open>The ports of the URL are armed on the local bridge first; \<open>replies\<close> is what the bridge answers
  for each.\<close>

definition arm_for_url :: "(string \<Rightarrow> url option) \<Rightarrow> fconfig \<Rightarrow> (port \<Rightarrow> string option) \<Rightarrow> url \<Rightarrow> nat" where
  "arm_for_url parse_url cfg replies u =
     (let ports = callback_ports parse_url cfg u in
      if ports = [] then 0 else if \<not> arm_all replies ports then 0 else length ports)"

definition open_target ::
  "fconfig \<Rightarrow> (socket_addr \<Rightarrow> string \<Rightarrow> (string, send_error) result) \<Rightarrow> url \<Rightarrow> port \<Rightarrow> bool
     \<Rightarrow> (unit, open_error) result \<times> bool" where
  "open_target cfg exchange u channel_port opener_reentry =
     (if opener_reentry then (Err OpenerReentry, False)
      else case send_url cfg exchange u channel_port of
        Err e \<Rightarrow> (Err (OpenSend e), True)
      | Ok Opened \<Rightarrow> (Ok (), False)
      | Ok Notified \<Rightarrow> (Err NotAllowlisted, True))"

section \<open>Which ports are served\<close>

definition is_owned :: "(port, serve_error) result \<Rightarrow> bool" where
  "is_owned r \<longleftrightarrow> (\<exists>p owner. r = Err (OwnedPort p owner))"

lemma owned_case: "(case e of OwnedPort p w \<Rightarrow> True | _ \<Rightarrow> False) \<longleftrightarrow> is_owned (Err e)"
  by (cases e) (simp_all add: is_owned_def)

text \<open>The ports a loop is still to serve: the first dynamic ones, up to the cap.\<close>

abbreviation due_ports :: "fconfig \<Rightarrow> nat \<Rightarrow> port list \<Rightarrow> port list" where
  "due_ports cfg forwarded ps \<equiv> take (MAX_DYNAMIC_FORWARDS - forwarded) (filter (is_dynamic_port cfg) ps)"

lemma forward_loop_lenient:
  "forwarded \<le> MAX_DYNAMIC_FORWARDS \<Longrightarrow>
   (fst (forward_loop cfg False serve forwarded tried ps) = Ok ()
      \<longleftrightarrow> (\<forall>p \<in> set (due_ports cfg forwarded ps). \<not> is_owned (serve p)))
   \<and> (fst (forward_loop cfg False serve forwarded tried ps) = Ok ()
      \<longrightarrow> snd (forward_loop cfg False serve forwarded tried ps) = tried @ due_ports cfg forwarded ps)"
proof (induction ps arbitrary: forwarded tried)
  case (Cons p ps)
  show ?case
  proof (cases "is_dynamic_port cfg p \<and> forwarded < MAX_DYNAMIC_FORWARDS")
    case True
    then have n: "MAX_DYNAMIC_FORWARDS - forwarded = Suc (MAX_DYNAMIC_FORWARDS - Suc forwarded)"
      by (simp add: Suc_diff_Suc)
    show ?thesis
      using True Cons.IH [of "Suc forwarded" "tried @ [p]"]
      by (cases "serve p") (auto simp: n owned_case, auto simp: is_owned_def)
  next
    case False
    then show ?thesis
      using Cons by auto
  qed
qed simp

lemma forward_loop_strict:
  "forwarded + length ps \<le> MAX_DYNAMIC_FORWARDS \<Longrightarrow>
   (fst (forward_loop cfg True serve forwarded tried ps) = Ok ()
      \<longleftrightarrow> (\<forall>p \<in> set ps. is_dynamic_port cfg p \<and> is_ok (serve p)))
   \<and> (fst (forward_loop cfg True serve forwarded tried ps) = Ok ()
      \<longrightarrow> snd (forward_loop cfg True serve forwarded tried ps) = tried @ ps)"
proof (induction ps arbitrary: forwarded tried)
  case (Cons p ps)
  then show ?case
    using Cons.IH [of "Suc forwarded" "tried @ [p]"] by (cases "serve p") auto
qed simp

lemma forward_loop_tried:
  "forwarded \<le> MAX_DYNAMIC_FORWARDS \<Longrightarrow>
   \<exists>ts. snd (forward_loop cfg strict serve forwarded tried ps) = tried @ ts
      \<and> set ts \<subseteq> set (due_ports cfg forwarded ps)"
proof (induction ps arbitrary: forwarded tried)
  case (Cons p ps)
  show ?case
  proof (cases "is_dynamic_port cfg p \<and> forwarded < MAX_DYNAMIC_FORWARDS")
    case True
    then have n: "MAX_DYNAMIC_FORWARDS - forwarded = Suc (MAX_DYNAMIC_FORWARDS - Suc forwarded)"
      by (simp add: Suc_diff_Suc)
    obtain ts where ts: "snd (forward_loop cfg strict serve (Suc forwarded) (tried @ [p]) ps) = (tried @ [p]) @ ts"
        "set ts \<subseteq> set (due_ports cfg (Suc forwarded) ps)"
      using Cons.IH [of "Suc forwarded" "tried @ [p]"] True by auto
    show ?thesis
      using True ts by (cases "serve p") (auto simp: n intro: exI [of _ "p # ts"])
  next
    case False
    then show ?thesis
      using Cons.prems Cons.IH [of forwarded tried]
      by (cases "forwarded = MAX_DYNAMIC_FORWARDS") auto
  qed
qed simp

lemma forward_loop_all:
  "filter (is_dynamic_port cfg) ps = ps \<longleftrightarrow> list_all (is_dynamic_port cfg) ps"
  by (simp add: filter_id_conv list_all_iff)


text \<open>A login page that redirects to port 8400 of the devbox's loopback.\<close>

definition demo_callback :: url where
  "demo_callback =
     \<lparr>u_scheme = ''http'', u_host_str = Some ''localhost'', u_port = Some 8400, u_port_or_known_default = Some 8400,
      u_path = ''/cb'', u_query_pairs = [], u_as_str = ''http://localhost:8400/cb''\<rparr>"

definition demo_login :: url where
  "demo_login =
     \<lparr>u_scheme = ''https'', u_host_str = Some ''login.example'', u_port = None, u_port_or_known_default = Some 443,
      u_path = ''/'', u_query_pairs = [(''redirect_uri'', ''http://localhost:8400/cb'')],
      u_as_str = ''https://login.example/?redirect_uri=http%3A%2F%2Flocalhost%3A8400%2Fcb''\<rparr>"

definition demo_parse_url :: "string \<Rightarrow> url option" where
  "demo_parse_url s =
     (if s = u_as_str demo_callback then Some demo_callback
      else if s = u_as_str demo_login then Some demo_login else None)"

lemma demo_callback_ports:
  "callback_ports demo_parse_url demo_fconfig demo_login = [8400]" "forward_ports demo_parse_url demo_login = [8400]"
  by code_simp+


section \<open>What the daemon opens\<close>


definition demo_daemon_env :: daemon_env where
  "demo_daemon_env = \<lparr>dm_serve = \<lambda>ttl p. Ok p, dm_notifier = CommandExited True (''default'' @ [newline]), dm_now = 5\<rparr>"

definition demo_daemon_config :: fconfig where
  "demo_daemon_config = demo_fconfig\<lparr>fc_notifier := [''ask'']\<rparr>"


text \<open>The daemon reports a URL as opened although nothing was opened: when the loop guard drops it, the
  answer on the wire is still \<open>opened\<close>, so \<open>forward open\<close> exits with success and does not hand the URL
  back.\<close>

theorem dropped_url_reported_opened:
  assumes "record_open (u_as_str u) (dm_now env) (config_peer_ip cfg) opens = (DropOpen n, opens')"
    and "decide cfg u = OpenIt"
    and "fst (forward_url parse_url cfg strict (dm_serve env (from_secs (fc_forward_ttl_secs cfg))) u) = Ok ()"
  shows "hd_spawned (handle_connection parse_url cfg strict env (Some (OpenUrl u)) opens) = None
     \<and> hd_reply (handle_connection parse_url cfg strict env (Some (OpenUrl u)) opens) = Some (ReplyOutcome Opened)
     \<and> url_answer (print_reply show_addr io (ReplyOutcome Opened) @ [newline]) = Ok Opened"
proof -
  have "url_answer (''opened'' @ [newline]) = Ok Opened"
    by code_simp
  then show ?thesis
    using assms by (simp add: handle_connection_def handle_url_def open_permitted_url_def)
qed

theorem dropped_url_reported_opened_witness:
  "hd_reply (handle_connection demo_parse_url (demo_fconfig\<lparr>fc_mode := Auto\<rparr>) False demo_daemon_env
      (Some (OpenUrl demo_login))
      (replicate 3 \<lparr>ou_url = u_as_str demo_login, ou_opened_at = 5, ou_origin = Some (V4 0x64400002)\<rparr>))
     = Some (ReplyOutcome Opened)"
proof -
  let ?opens = "replicate 3 \<lparr>ou_url = u_as_str demo_login, ou_opened_at = 5, ou_origin = Some (V4 0x64400002)\<rparr>"
  have r: "record_open (u_as_str demo_login) (dm_now demo_daemon_env)
      (config_peer_ip (demo_fconfig\<lparr>fc_mode := Auto\<rparr>)) ?opens = (DropOpen 4, ?opens)"
    by code_simp
  have f: "fst (forward_url demo_parse_url (demo_fconfig\<lparr>fc_mode := Auto\<rparr>) False
      (dm_serve demo_daemon_env (from_secs (fc_forward_ttl_secs (demo_fconfig\<lparr>fc_mode := Auto\<rparr>)))) demo_login) = Ok ()"
    by code_simp
  show ?thesis
    using dropped_url_reported_opened [OF r _ f] by (simp add: decide_def)
qed

section \<open>The two ends of the channel\<close>

lemma graphic_digit: "is_ascii_digit c \<Longrightarrow> is_ascii_graphic c"
  by (auto simp: ascii_defs)

lemma last_show_nat_graphic [simp]: "is_ascii_graphic (last (show_nat n))"
  using show_nat_digits [of n] by (simp add: list_all_iff graphic_digit)

lemma graphic_H: "is_ascii_graphic CHR ''H''"
  by (simp add: ascii_defs)

lemma hold_line_parses:
  assumes "secs \<le> u64_max"
  shows "parse_url_request parse_url (print_hold_line p secs @ [newline]) = Some (HoldPort p secs)"
proof -
  have "list_all is_ascii (print_hold_line p secs @ [newline])"
    by (simp add: print_hold_line_def show_nat_ascii is_ascii_def char_code_def)
  moreover have "trim (print_hold_line p secs @ [newline]) = print_hold_line p secs"
    by (rule trim_graphic) (simp_all add: print_hold_line_def graphic_H)
  moreover have "split_once CHR '' '' (show_nat (unat p) @ CHR '' '' # show_nat secs) = Some (show_nat (unat p), show_nat secs)"
    by (simp add: show_nat_not_space)
  ultimately show ?thesis
    using assms
    by (simp add: parse_url_request_def utf8_valid_ascii print_hold_line_def parse_hold_def)
qed

text \<open>The texts the environment supplies end in a graphic character.\<close>

definition ends_graphic :: "string \<Rightarrow> bool" where
  "ends_graphic s \<longleftrightarrow> s \<noteq> [] \<and> is_ascii_graphic (last s)"

lemma ends_graphic_append [simp]: "ends_graphic t \<Longrightarrow> ends_graphic (s @ t)"
  by (simp add: ends_graphic_def)

lemma ends_graphic_show_nat [simp]: "ends_graphic (show_nat n)"
  by (simp add: ends_graphic_def)

lemma ends_graphic_texts:
  "ends_graphic '' forwarded ports''" "ends_graphic '' is reserved by forward''"
  "ends_graphic '' is one of forward's own on the laptop''" "ends_graphic ''held''"
  "ends_graphic ''opened''" "ends_graphic ''notified''"
  by code_simp+

lemma show_serve_error_ends:
  assumes "ends_graphic io" and "\<forall>a. ends_graphic (show_addr a)"
  shows "ends_graphic (show_serve_error show_addr io e)"
  by (cases e) (simp_all only: show_serve_error.simps ends_graphic_append assms spec [OF assms(2)] ends_graphic_show_nat ends_graphic_texts)

lemma print_reply_ends:
  assumes "ends_graphic io" and "\<forall>a. ends_graphic (show_addr a)"
  shows "ends_graphic (print_reply show_addr io r)"
proof (cases r)
  case (ReplyOutcome x)
  then show ?thesis
    by (cases x) (simp_all only: print_reply.simps outcome_as_wire.simps ends_graphic_texts)
qed (simp_all only: print_reply.simps ends_graphic_append show_serve_error_ends [OF assms] ends_graphic_texts)

lemma print_reply_starts: "is_ascii_graphic (hd (print_reply show_addr io r))"
proof (cases r)
  case (ReplyOutcome x)
  then show ?thesis
    by (cases x) (simp_all add: ascii_defs)
qed (simp_all add: ascii_defs)

lemma print_reply_trim:
  assumes "ends_graphic io" and "\<forall>a. ends_graphic (show_addr a)"
  shows "trim (print_reply show_addr io r @ [newline]) = print_reply show_addr io r"
  using print_reply_ends [OF assms, of r] print_reply_starts [of show_addr io r] trim_graphic(2)
  by (simp add: ends_graphic_def)

lemma hold_answer_reply:
  assumes "ends_graphic io" and "\<forall>a. ends_graphic (show_addr a)"
  shows "hold_answer (print_reply show_addr io r @ [newline]) =
     (case r of
        ReplyHeld \<Rightarrow> Ok Held
      | ReplyOwn p \<Rightarrow>
          Ok (HoldReplyRefused (''port '' @ show_nat (unat p) @ '' is one of forward's own on the laptop''))
      | ReplyRefused e \<Rightarrow> Ok (HoldReplyRefused (show_serve_error show_addr io e))
      | ReplyOutcome x \<Rightarrow> Err SendHoldUnanswered)"
  unfolding hold_answer_def print_reply_trim [OF assms]
proof (cases r)
  case (ReplyOutcome x)
  then show "(if print_reply show_addr io r = ''held'' then Ok Held
      else case strip_prefix ''refused '' (print_reply show_addr io r) of
        Some reason \<Rightarrow> Ok (HoldReplyRefused reason) | None \<Rightarrow> Err SendHoldUnanswered) =
     (case r of
        ReplyHeld \<Rightarrow> Ok Held
      | ReplyOwn p \<Rightarrow>
          Ok (HoldReplyRefused (''port '' @ show_nat (unat p) @ '' is one of forward's own on the laptop''))
      | ReplyRefused e \<Rightarrow> Ok (HoldReplyRefused (show_serve_error show_addr io e))
      | ReplyOutcome x \<Rightarrow> Err SendHoldUnanswered)"
    by (cases x) simp_all
qed simp_all

text \<open>C27: A hold sent by the devbox is the hold the laptop handles, and the devbox learns the laptop's
  answer: held just when the laptop serves the port, and otherwise the text of the laptop's reason,
  unchanged.\<close>

theorem hold_end_to_end:
  assumes "single_peer_ip cfg = Ok peer" and "secs \<le> u64_max"
    and "ends_graphic io" and "\<forall>a. ends_graphic (show_addr a)"
    and "\<forall>target line. exchange target line =
       (case hd_reply (handle_connection parse_url laptop strict env (parse_url_request parse_url line) opens) of
          Some r \<Rightarrow> Ok (print_reply show_addr io r @ [newline]) | None \<Rightarrow> Ok [])"
  shows "send_hold cfg exchange p secs channel_port =
     (if \<not> is_dynamic_port laptop p then
        Ok (HoldReplyRefused (''port '' @ show_nat (unat p) @ '' is one of forward's own on the laptop''))
      else case dm_serve env (hold_ttl secs) p of
        Ok _ \<Rightarrow> Ok Held
      | Err e \<Rightarrow> Ok (HoldReplyRefused (show_serve_error show_addr io e)))"
proof -
  obtain target where "request_target cfg channel_port = Ok target"
    using assms(1) by (cases peer) (simp_all add: request_target_def)
  then have "send_hold cfg exchange p secs channel_port =
      hold_answer (print_reply show_addr io (daemon_hold laptop (dm_serve env) p secs) @ [newline])"
    using spec [OF spec [OF assms(5), of target], of "print_hold_line p secs @ [newline]"] hold_line_parses [OF assms(2)]
    by (simp add: send_hold_def send_request_def handle_connection_def)
  then show ?thesis
    by (simp add: hold_answer_reply [OF assms(3,4)] daemon_hold_def split: result.split)
qed

definition demo_show_addr :: "socket_addr \<Rightarrow> string" where
  "demo_show_addr a = ''peer:'' @ show_nat (unat (snd a))"

definition demo_exchange :: "socket_addr \<Rightarrow> string \<Rightarrow> (string, send_error) result" where
  "demo_exchange target line =
     (case hd_reply (handle_connection demo_parse_url demo_fconfig False
         (demo_daemon_env\<lparr>dm_serve := \<lambda>ttl p. Err (OwnedPort p (LOCALHOST, 12801))\<rparr>)
         (parse_url_request demo_parse_url line) []) of
        Some r \<Rightarrow> Ok (print_reply demo_show_addr ''in use'' r @ [newline]) | None \<Rightarrow> Ok [])"

theorem hold_end_to_end_witness:
  "send_hold demo_fconfig demo_exchange 8400 180 12800
     = Ok (HoldReplyRefused ''callback port 8400 is already owned by peer bridge peer:12801'')"
proof -
  have io: "ends_graphic ''in use''"
    by code_simp
  have addr: "\<forall>a. ends_graphic (demo_show_addr a)"
    by (simp only: simp_thms demo_show_addr_def ends_graphic_append ends_graphic_show_nat)
  have dyn: "is_dynamic_port demo_fconfig 8400"
    by code_simp
  have shown: "show_serve_error demo_show_addr ''in use'' (OwnedPort 8400 (LOCALHOST, 12801))
      = ''callback port 8400 is already owned by peer bridge peer:12801''"
    by code_simp
  have ex: "\<forall>target line. demo_exchange target line =
      (case hd_reply (handle_connection demo_parse_url demo_fconfig False
          (demo_daemon_env\<lparr>dm_serve := \<lambda>ttl p. Err (OwnedPort p (LOCALHOST, 12801))\<rparr>)
          (parse_url_request demo_parse_url line) []) of
         Some r \<Rightarrow> Ok (print_reply demo_show_addr ''in use'' r @ [newline]) | None \<Rightarrow> Ok [])"
    by (simp only: demo_exchange_def simp_thms)
  show ?thesis
    using hold_end_to_end [OF demo_fconfig_peer(1) _ io addr ex, of 180 8400 12800] dyn shown
    by (simp add: u64_max_def del: show_serve_error.simps)
qed

end
