(* ===== verification/Feed.thy ===== *)
theory Feed
  imports Lines Bridge
begin

text \<open>
  The laptop's mirror of the browser grants: the live relay tokens of each machine
  (\<open>browser/feed.rs\<close>), the feed client that fills it (\<open>browser/feed/client.rs\<close>), the relay that
  admits a connection by its token (\<open>browser.rs\<close>), and the devbox's end of the feed
  (\<open>browser/push.rs\<close>).

  Times here are \<open>CLOCK_BOOTTIME\<close> readings: a \<open>Duration\<close> of whole seconds in a \<open>u64\<close> and nanoseconds.
\<close>

section \<open>The token table\<close>

type_synonym boot_time = nat

definition boot_checked_add :: "boot_time \<Rightarrow> duration \<Rightarrow> boot_time option" where
  "boot_checked_add t d = (if t + d < 2 ^ 64 * nanos_per_sec then Some (t + d) else None)"

record token_entry =
  te_token :: string
  te_deadline :: boot_time

record feed_state =
  fs_entries :: "token_entry list"
  fs_connected :: bool

definition feed_empty :: feed_state where
  "feed_empty = \<lparr>fs_entries = [], fs_connected = False\<rparr>"

definition MAX_LIVE_TOKENS :: nat where
  "MAX_LIVE_TOKENS = 64"

definition LEASE :: duration where
  "LEASE = from_secs (5 * 60)"

definition LONGEST_TTL :: duration where
  "LONGEST_TTL = from_secs (12 * 60 * 60)"

definition clamp_wire_ttl :: "duration \<Rightarrow> duration" where
  "clamp_wire_ttl ttl = min ttl LONGEST_TTL"

definition live_entries :: "boot_time \<Rightarrow> token_entry list \<Rightarrow> token_entry list" where
  "live_entries now es = filter (\<lambda>e. now < te_deadline e) es"

definition insert_until :: "string \<Rightarrow> boot_time \<Rightarrow> boot_time \<Rightarrow> feed_state \<Rightarrow> feed_state" where
  "insert_until tok deadline now s =
     (let es = filter (\<lambda>e. te_token e \<noteq> tok) (live_entries now (fs_entries s));
          es = (if length es = MAX_LIVE_TOKENS then tl es else es)
      in s\<lparr>fs_entries := es @ [\<lparr>te_token = tok, te_deadline = deadline\<rparr>]\<rparr>)"

definition feed_insert :: "string \<Rightarrow> duration \<Rightarrow> boot_time \<Rightarrow> feed_state \<Rightarrow> feed_state" where
  "feed_insert tok ttl now s =
     (case boot_checked_add now (min (clamp_wire_ttl ttl) LEASE) of
        None \<Rightarrow> s | Some deadline \<Rightarrow> insert_until tok deadline now s)"

text \<open>Every live token is compared, without an early exit.\<close>

definition accepts_at :: "string \<Rightarrow> boot_time \<Rightarrow> feed_state \<Rightarrow> bool \<times> feed_state" where
  "accepts_at presented now s =
     (let es = live_entries now (fs_entries s)
      in (foldl (\<lambda>accepted e. accepted \<or> te_token e = presented) False es, s\<lparr>fs_entries := es\<rparr>))"

definition reap_expired_at :: "boot_time \<Rightarrow> feed_state \<Rightarrow> feed_state" where
  "reap_expired_at now s = s\<lparr>fs_entries := live_entries now (fs_entries s)\<rparr>"

definition next_deadline :: "feed_state \<Rightarrow> boot_time option" where
  "next_deadline s = (case fs_entries s of [] \<Rightarrow> None | e # es \<Rightarrow> Some (foldl min (te_deadline e) (map te_deadline es)))"

text \<open>One table for a laptop with one machine, and one for each machine's canonical address otherwise.\<close>

record relay_tokens =
  rt_shared :: feed_state
  rt_peers :: "ip_addr \<rightharpoonup> feed_state"

definition feed_key :: "fconfig \<Rightarrow> ip_addr \<Rightarrow> ip_addr option" where
  "feed_key cfg peer = (if is_multi_peer cfg then Some (to_canonical peer) else None)"

definition for_peer :: "ip_addr option \<Rightarrow> relay_tokens \<Rightarrow> feed_state" where
  "for_peer key ts =
     (case key of
        None \<Rightarrow> rt_shared ts
      | Some ip \<Rightarrow> (case rt_peers ts ip of Some s \<Rightarrow> s | None \<Rightarrow> feed_empty))"

definition put_peer :: "ip_addr option \<Rightarrow> feed_state \<Rightarrow> relay_tokens \<Rightarrow> relay_tokens" where
  "put_peer key s ts =
     (case key of
        None \<Rightarrow> ts\<lparr>rt_shared := s\<rparr> | Some ip \<Rightarrow> ts\<lparr>rt_peers := (rt_peers ts)(ip \<mapsto> s)\<rparr>)"

section \<open>The feed client\<close>

definition MAX_FEED_LINE :: nat where
  "MAX_FEED_LINE = 128"

definition parse_token_line :: "string \<Rightarrow> (string \<times> nat) option" where
  "parse_token_line line =
     (case strip_prefix ''TOKEN '' line of
        None \<Rightarrow> None
      | Some rest \<Rightarrow>
          (case split_once CHR '' '' rest of
             None \<Rightarrow> None
           | Some (tok, raw) \<Rightarrow>
               if tok = [] \<or> CHR '' '' \<in> set tok then None
               else case parse_uint u64_max raw of
                 None \<Rightarrow> None
               | Some n \<Rightarrow> if n \<noteq> 0 then Some (tok, as_secs (clamp_wire_ttl (from_secs n))) else None))"

definition trim_line_end :: "string \<Rightarrow> string" where
  "trim_line_end s = rev (dropWhile (\<lambda>c. c = carriage_return \<or> c = newline) (rev s))"

datatype feed_end = FeedClosed | FeedMalformed | FeedReadError | FeedAckError

text \<open>The read loop over the lines as \<open>read_line\<close> delivers them, each with the clock at its insertion
  and whether its acknowledgement could be written; \<open>None\<close> is a read that fails.  A line that is
  not UTF-8 is such a failure.\<close>

fun feed_lines ::
  "(string option \<times> boot_time \<times> bool) list \<Rightarrow> feed_state \<Rightarrow> feed_end \<times> feed_state" where
  "feed_lines [] s = (FeedClosed, s)"
| "feed_lines ((None, now, ack) # ls) s = (FeedReadError, s)"
| "feed_lines ((Some line, now, ack) # ls) s =
     (if \<not> utf8_valid line then (FeedReadError, s)
      else if line = [] then (FeedClosed, s)
      else case parse_token_line (trim_line_end line) of
        None \<Rightarrow> (FeedMalformed, s)
      | Some (tok, n) \<Rightarrow>
          (let s' = feed_insert tok (from_secs n) now s
           in if ack then feed_lines ls s' else (FeedAckError, s')))"

definition MAX_UNHEALTHY_FEED :: duration where
  "MAX_UNHEALTHY_FEED = from_secs 30"

definition RECONNECT_BACKOFF :: duration where
  "RECONNECT_BACKOFF = from_secs 5"

definition OUTAGE_RECONNECT_BACKOFF :: duration where
  "OUTAGE_RECONNECT_BACKOFF = from_secs 60"

text \<open>\<open>ReconnectBudget\<close>: since when the feed has been unhealthy.\<close>

definition failed_at :: "instant \<Rightarrow> instant option \<Rightarrow> bool \<times> instant option" where
  "failed_at now budget =
     (let since = (case budget of Some t \<Rightarrow> t | None \<Rightarrow> now)
      in (MAX_UNHEALTHY_FEED \<le> duration_since now since, Some since))"

definition restored_if_long_lived :: "instant \<Rightarrow> instant \<Rightarrow> instant option \<Rightarrow> instant option" where
  "restored_if_long_lived connected_at now budget =
     (if MAX_UNHEALTHY_FEED \<le> duration_since now connected_at then None else budget)"

definition next_backoff :: "instant \<Rightarrow> instant option \<Rightarrow> duration \<times> instant option" where
  "next_backoff now budget =
     (case failed_at now budget of
        (exhausted, budget') \<Rightarrow> (if exhausted then OUTAGE_RECONNECT_BACKOFF else RECONNECT_BACKOFF, budget'))"

section \<open>The relay on the laptop\<close>

definition FEED_REFUSAL :: string where "FEED_REFUSAL = ''REFUSED FEED'' @ [newline]"
definition TOKEN_UPSTREAM_HEALTHY_REFUSAL :: string where
  "TOKEN_UPSTREAM_HEALTHY_REFUSAL = ''REFUSED TOKEN UPSTREAM 200'' @ [newline]"
definition TOKEN_UPSTREAM_DOWN_REFUSAL :: string where
  "TOKEN_UPSTREAM_DOWN_REFUSAL = ''REFUSED TOKEN UPSTREAM 503'' @ [newline]"

text \<open>The status line of the extension's endpoint, \<open>None\<close> where it could not be asked.\<close>

fun contains_sub :: "string \<Rightarrow> string \<Rightarrow> bool" where
  "contains_sub w [] = (w = [])"
| "contains_sub w (c # s) = (starts_with w (c # s) \<or> contains_sub w s)"

definition token_refusal :: "string option \<Rightarrow> string" where
  "token_refusal status =
     (case status of
        None \<Rightarrow> TOKEN_UPSTREAM_DOWN_REFUSAL
      | Some line \<Rightarrow>
          if contains_sub '' 200'' line then TOKEN_UPSTREAM_HEALTHY_REFUSAL else TOKEN_UPSTREAM_DOWN_REFUSAL)"

datatype relay_outcome = RelayRefusedPeer string | RelayRefused string | RelayDropped | RelayUpstream

record relay_env =
  re_started :: instant
  re_events :: read_events
  re_closed :: instant
  re_boot_now :: boot_time
  re_status :: "string option"
  re_connect_ok :: bool
  re_timeouts_ok :: bool

definition RELAY_LINE_TIMEOUT :: duration where
  "RELAY_LINE_TIMEOUT = from_secs 10"

definition relay_handle ::
  "fconfig \<Rightarrow> relay_env \<Rightarrow> ip_addr \<Rightarrow> ip_addr \<Rightarrow> relay_tokens \<Rightarrow> relay_outcome \<times> relay_tokens" where
  "relay_handle cfg env remote loc ts =
     (if \<not> authorized_sensitive cfg remote loc then (RelayRefusedPeer PEER_REFUSAL, ts)
      else
        let key = feed_key cfg remote;
            (accepted, s) =
              (case read_relay_token (re_started env) RELAY_LINE_TIMEOUT (re_closed env) (re_events env) of
                 None \<Rightarrow> (False, for_peer key ts)
               | Some presented \<Rightarrow> accepts_at presented (re_boot_now env) (for_peer key ts));
            ts' = put_peer key s ts
        in if \<not> accepted then
             if \<not> fs_connected s then (RelayRefused FEED_REFUSAL, ts')
             else (RelayRefused (token_refusal (re_status env)), ts')
           else if \<not> re_connect_ok env then (RelayRefused GENERIC_REFUSAL, ts')
           else if \<not> re_timeouts_ok env then (RelayDropped, ts')
           else (RelayUpstream, ts'))"

section \<open>The devbox's end of the feed\<close>

definition print_token_line :: "string \<Rightarrow> nat \<Rightarrow> string" where
  "print_token_line tok ttl = ''TOKEN '' @ tok @ '' '' @ show_nat ttl"

text \<open>\<open>push\<close> on the attached stream: \<open>None\<close> is a system call that fails, otherwise what the laptop
  answered.  A feed that fails is detached.\<close>

definition feed_push :: "bool \<Rightarrow> string option \<Rightarrow> bool \<times> bool" where
  "feed_push attached answer =
     (if \<not> attached then (False, attached)
      else case answer of
        None \<Rightarrow> (False, False)
      | Some s \<Rightarrow> if read_exact 3 s = Some (''OK'' @ [newline]) then (True, True) else (False, False))"

text \<open>\<open>push_live\<close>: how many of the live tokens were delivered before the first failure.\<close>

fun push_live :: "bool \<Rightarrow> (string option) list \<Rightarrow> (string \<times> nat) list \<Rightarrow> (string \<times> nat) list \<times> bool" where
  "push_live attached answers [] = ([], attached)"
| "push_live attached answers (t # ts) =
     (case feed_push attached (case answers of [] \<Rightarrow> None | a # _ \<Rightarrow> a) of
        (ok, attached') \<Rightarrow>
          if \<not> ok then ([], attached')
          else case push_live attached' (tl answers) ts of (sent, attached'') \<Rightarrow> (t # sent, attached''))"

definition attach_if_feed :: "fconfig \<Rightarrow> (ip_addr \<times> ip_addr) option \<Rightarrow> string option \<Rightarrow> bool" where
  "attach_if_feed cfg addresses greeting =
     (case addresses of
        None \<Rightarrow> False
      | Some (remote, loc) \<Rightarrow>
          if \<not> authorized_sensitive cfg remote loc then False
          else case greeting of
            None \<Rightarrow> False
          | Some line \<Rightarrow> utf8_valid line \<and> line \<noteq> [] \<and> trim_end line = ''FEED'')"

section \<open>What the table holds\<close>

text \<open>The operations on the mirror, as the feed clients, the relay and the reaper perform them, each
  under the table's lock.\<close>

datatype feed_event =
    FeedInsert "ip_addr option" string duration boot_time
  | FeedAccept "ip_addr option" string boot_time
  | FeedReap "ip_addr option" boot_time
  | FeedConnected "ip_addr option" bool

fun feed_apply :: "feed_event \<Rightarrow> relay_tokens \<Rightarrow> relay_tokens" where
  "feed_apply (FeedInsert k tok ttl now) ts = put_peer k (feed_insert tok ttl now (for_peer k ts)) ts"
| "feed_apply (FeedAccept k tok now) ts = put_peer k (snd (accepts_at tok now (for_peer k ts))) ts"
| "feed_apply (FeedReap k now) ts = put_peer k (reap_expired_at now (for_peer k ts)) ts"
| "feed_apply (FeedConnected k c) ts = put_peer k ((for_peer k ts)\<lparr>fs_connected := c\<rparr>) ts"

definition feed_run :: "feed_event list \<Rightarrow> relay_tokens" where
  "feed_run evs = fold feed_apply evs \<lparr>rt_shared = feed_empty, rt_peers = Map.empty\<rparr>"

lemma for_put_peer [simp]: "for_peer k (put_peer k' s ts) = (if k = k' then s else for_peer k ts)"
  by (auto simp: for_peer_def put_peer_def split: option.splits)

lemma live_entries_subset: "set (live_entries now es) \<subseteq> set es"
  by (auto simp: live_entries_def)

text \<open>Every entry was delivered for that very machine, and expires no later than its lease.\<close>

definition delivered :: "feed_event list \<Rightarrow> ip_addr option \<Rightarrow> token_entry \<Rightarrow> bool" where
  "delivered evs k e \<longleftrightarrow>
     (\<exists>ttl t0. FeedInsert k (te_token e) ttl t0 \<in> set evs
        \<and> te_deadline e = t0 + min (min ttl LONGEST_TTL) LEASE)"

definition feed_ok :: "feed_event list \<Rightarrow> ip_addr option \<Rightarrow> feed_state \<Rightarrow> bool" where
  "feed_ok evs k s \<longleftrightarrow>
     list_all (delivered evs k) (fs_entries s) \<and> distinct (map te_token (fs_entries s))
     \<and> length (fs_entries s) \<le> MAX_LIVE_TOKENS"

lemma delivered_mono: "delivered evs k e \<Longrightarrow> delivered (evs @ new) k e"
  by (auto simp: delivered_def)

lemma feed_ok_mono: "feed_ok evs k s \<Longrightarrow> feed_ok (evs @ new) k s"
  by (auto simp: feed_ok_def list_all_iff delivered_mono)

lemma feed_ok_filter:
  "feed_ok evs k s \<Longrightarrow> feed_ok evs k (s\<lparr>fs_entries := filter P (fs_entries s)\<rparr>)"
  by (auto simp: feed_ok_def list_all_iff distinct_map_filter intro: le_trans [OF length_filter_le])

lemma feed_ok_insert:
  assumes "feed_ok evs k s"
  shows "feed_ok (evs @ [FeedInsert k tok ttl now]) k (feed_insert tok ttl now s)"
proof (cases "boot_checked_add now (min (clamp_wire_ttl ttl) LEASE)")
  case None
  then show ?thesis
    using assms by (simp add: feed_insert_def feed_ok_mono)
next
  case (Some deadline)
  define kept where "kept = filter (\<lambda>e. te_token e \<noteq> tok \<and> now < te_deadline e) (fs_entries s)"
  have ok: "list_all (delivered evs k) kept" "distinct (map te_token kept)" "length kept \<le> MAX_LIVE_TOKENS"
    using feed_ok_filter [OF assms, of "\<lambda>e. te_token e \<noteq> tok \<and> now < te_deadline e"]
    by (simp_all add: feed_ok_def kept_def)
  have fresh: "tok \<notin> te_token ` set kept"
    by (auto simp: kept_def)
  have new: "delivered (evs @ [FeedInsert k tok ttl now]) k \<lparr>te_token = tok, te_deadline = deadline\<rparr>"
    unfolding delivered_def
    by (rule exI [of _ ttl], rule exI [of _ now])
      (use Some in \<open>auto simp: boot_checked_add_def clamp_wire_ttl_def split: if_splits\<close>)
  define kept' where "kept' = (if length kept = MAX_LIVE_TOKENS then tl kept else kept)"
  have "set kept' \<subseteq> set kept" "distinct (map te_token kept')"
    using ok(2) by (cases kept; auto simp: kept'_def)+
  moreover have "length kept' < MAX_LIVE_TOKENS"
    using ok(3) by (auto simp: kept'_def MAX_LIVE_TOKENS_def)
  moreover have "fs_entries (feed_insert tok ttl now s) = kept' @ [\<lparr>te_token = tok, te_deadline = deadline\<rparr>]"
    using Some by (simp add: feed_insert_def insert_until_def live_entries_def Let_def kept'_def kept_def conj_commute)
  ultimately show ?thesis
    using ok(1) fresh new delivered_mono by (auto simp: feed_ok_def list_all_iff)
qed

lemma feed_apply_ok:
  assumes "\<forall>k. feed_ok evs k (for_peer k ts)"
  shows "\<forall>k. feed_ok (evs @ [ev]) k (for_peer k (feed_apply ev ts))"
proof (cases ev)
  case (FeedInsert k tok ttl now)
  then show ?thesis
    using assms feed_ok_insert feed_ok_mono by auto
next
  case (FeedAccept k tok now)
  then show ?thesis
    using assms feed_ok_filter feed_ok_mono by (auto simp: accepts_at_def live_entries_def Let_def)
next
  case (FeedReap k now)
  then show ?thesis
    using assms feed_ok_filter feed_ok_mono by (auto simp: reap_expired_at_def live_entries_def)
next
  case (FeedConnected k c)
  then show ?thesis
    using assms feed_ok_mono by (auto simp: feed_ok_def list_all_iff delivered_mono)
qed

lemma feed_run_snoc: "feed_run (evs @ [ev]) = feed_apply ev (feed_run evs)"
  by (simp add: feed_run_def)

lemma feed_run_ok: "feed_ok evs k (for_peer k (feed_run evs))"
proof -
  have "\<forall>k. feed_ok evs k (for_peer k (feed_run evs))"
  proof (induction evs rule: rev_induct)
    case Nil
    then show ?case
      by (auto simp: feed_run_def for_peer_def feed_empty_def feed_ok_def split: option.split)
  next
    case (snoc ev evs)
    then show ?case
      using feed_apply_ok by (simp add: feed_run_snoc)
  qed
  then show ?thesis
    by blast
qed

lemma foldl_or: "foldl (\<lambda>a e. a \<or> P e) b es \<longleftrightarrow> b \<or> (\<exists>e \<in> set es. P e)"
  by (induction es arbitrary: b) auto

lemma accepts_at_iff:
  "fst (accepts_at presented now s) \<longleftrightarrow> (\<exists>e \<in> set (fs_entries s). te_token e = presented \<and> now < te_deadline e)"
  by (auto simp: accepts_at_def foldl_or live_entries_def Let_def)

section \<open>Properties\<close>

text \<open>C16: The laptop's browser relay admits a connection only from its configured peer on its configured
  address, and only on a token that this peer's own feed delivered less than its time to live and
  less than five minutes before; so a token that the devbox stops renewing opens nothing after
  five minutes, and a token of one machine never admits another.\<close>

theorem relay_admits_only_leased_token:
  assumes "fst (relay_handle cfg env remote loc (feed_run evs)) = RelayUpstream"
  shows "authorized_sensitive cfg remote loc
     \<and> (\<exists>tok ttl t0. read_relay_token (re_started env) RELAY_LINE_TIMEOUT (re_closed env) (re_events env) = Some tok
          \<and> FeedInsert (feed_key cfg remote) tok ttl t0 \<in> set evs
          \<and> re_boot_now env < t0 + ttl \<and> re_boot_now env < t0 + from_secs 300)"
proof -
  obtain tok where a: "authorized_sensitive cfg remote loc"
      and r: "read_relay_token (re_started env) RELAY_LINE_TIMEOUT (re_closed env) (re_events env) = Some tok"
      and acc: "fst (accepts_at tok (re_boot_now env) (for_peer (feed_key cfg remote) (feed_run evs)))"
    using assms
    by (auto simp: relay_handle_def Let_def split: if_splits option.splits prod.splits)
  then obtain e where e: "e \<in> set (fs_entries (for_peer (feed_key cfg remote) (feed_run evs)))"
      "te_token e = tok" "re_boot_now env < te_deadline e"
    by (auto simp: accepts_at_iff)
  then obtain ttl t0 where "FeedInsert (feed_key cfg remote) tok ttl t0 \<in> set evs"
      "te_deadline e = t0 + min (min ttl LONGEST_TTL) LEASE"
    using feed_run_ok [of evs "feed_key cfg remote"] by (auto simp: feed_ok_def list_all_iff delivered_def)
  moreover from this have "re_boot_now env < t0 + ttl" "re_boot_now env < t0 + from_secs 300"
    using e(3) by (auto simp: LEASE_def)
  ultimately show ?thesis
    using a r by blast
qed

definition demo_relay_env :: "boot_time \<Rightarrow> relay_env" where
  "demo_relay_env now =
     \<lparr>re_started = 0, re_events = at_once 1 (''RELAY abc'' @ [newline]), re_closed = 1, re_boot_now = now,
      re_status = None, re_connect_ok = True, re_timeouts_ok = True\<rparr>"

theorem relay_admits_only_leased_token_witness:
  "fst (relay_handle demo_fconfig (demo_relay_env (from_secs 299)) (V4 0x64400002) (V4 0x7F000001)
      (feed_run [FeedInsert None ''abc'' (from_secs 1800) 0])) = RelayUpstream
   \<and> authorized_sensitive demo_fconfig (V4 0x64400002) (V4 0x7F000001)"
proof -
  have r: "fst (relay_handle demo_fconfig (demo_relay_env (from_secs 299)) (V4 0x64400002) (V4 0x7F000001)
      (feed_run [FeedInsert None ''abc'' (from_secs 1800) 0])) = RelayUpstream"
    by code_simp
  show ?thesis
    using relay_admits_only_leased_token [OF r] r by simp
qed

text \<open>The mirror stays well formed: at most 64 tokens for each machine, no token twice, and each of them
  delivered by that machine's feed with a deadline of at most five minutes after its delivery.\<close>

theorem feed_table_wf:
  "length (fs_entries (for_peer k (feed_run evs))) \<le> MAX_LIVE_TOKENS
   \<and> distinct (map te_token (fs_entries (for_peer k (feed_run evs))))
   \<and> list_all (delivered evs k) (fs_entries (for_peer k (feed_run evs)))"
  using feed_run_ok [of evs k] by (simp add: feed_ok_def)

section \<open>The feed line\<close>

fun valid_push :: "string \<times> nat \<Rightarrow> bool" where
  "valid_push (tok, ttl) \<longleftrightarrow> tok \<noteq> [] \<and> CHR '' '' \<notin> set tok \<and> 0 < ttl \<and> ttl \<le> 12 * 60 * 60"

interpretation feed_wire: codec valid_push "\<lambda>(tok, ttl). print_token_line tok ttl" parse_token_line
proof
  fix x
  assume v: "valid_push x"
  obtain tok ttl where x: "x = (tok, ttl)" by fastforce
  have "split_once CHR '' '' (tok @ CHR '' '' # show_nat ttl) = Some (tok, show_nat ttl)"
    using v x by simp
  moreover have "as_secs (clamp_wire_ttl (from_secs ttl)) = ttl"
    using v x by (simp add: clamp_wire_ttl_def LONGEST_TTL_def min_def)
  moreover have "ttl \<le> u64_max"
    using v x by (simp add: u64_max_def)
  ultimately show "parse_token_line ((\<lambda>(tok, ttl). print_token_line tok ttl) x) = Some x"
    using v x by (simp add: parse_token_line_def print_token_line_def)
qed

end
