(* ===== verification/BrowserGrants.thy ===== *)
theory BrowserGrants
  imports SecretsdClient Feed Containment
begin

text \<open>
  Browser grants on the devbox: the registry of live grants and the pipes they serve
  (\<open>browser/grant.rs\<close>, \<open>grant/lifetime.rs\<close>, \<open>grant/pipes.rs\<close>), the request socket with its
  ceremony (\<open>browser/request/server.rs\<close> and its modules, \<open>request/client.rs\<close>), and the broker
  subscription that revokes (\<open>browser/subscription.rs\<close>).

  The registry has three locks.  A thread is a value of \<open>grant_task\<close> and one call of
  \<open>advance_grant\<close> is its next section; observing a changed authority is two sections, the
  assignment and the draining, between which the authority lock stays held.  \<open>rg_origin\<close> is a
  ghost: what the ceremony of each grant went through.  Shutting down the sockets of a grant that
  has left the table belongs to the section that took it out.
\<close>

section \<open>The registry\<close>

record bgrant =
  bg_session :: string
  bg_anchor :: anchored_peer
  bg_token :: string
  bg_deadline :: instant
  bg_endpoint_port :: port

datatype ceremony_event = CeRedeemed broker_identity nat | CeCurrent broker_identity | CePushed string nat

record pending =
  gp_session :: string
  gp_anchor :: anchored_peer
  gp_authority :: broker_identity
  gp_ttl :: nat
  gp_token :: string
  gp_port :: port
  gp_trace :: "ceremony_event list"

record grants_registry =
  rg_grants :: "(nat \<times> bgrant) list"
  rg_pipes :: "(nat \<times> nat) list"
  rg_authority :: "broker_identity option"
  rg_next :: nat
  rg_severed :: "nat set"
  rg_ended :: "nat set"
  rg_origin :: "nat \<rightharpoonup> pending"

text \<open>\<open>insert_if_authority\<close> under the authority lock: refused unless the authority is the observed one.\<close>

definition insert_if_authority ::
  "broker_identity \<Rightarrow> bgrant \<Rightarrow> pending \<Rightarrow> bool \<Rightarrow> grants_registry \<Rightarrow> nat option \<times> grants_registry" where
  "insert_if_authority auth g p clone_ok reg =
     (if rg_authority reg \<noteq> Some auth then (None, reg)
      else if \<not> clone_ok then (None, reg)
      else (Some (rg_next reg),
            reg\<lparr>rg_grants := (rg_next reg, g) # rg_grants reg, rg_next := rg_next reg + 1,
                rg_origin := (rg_origin reg)(rg_next reg \<mapsto> p)\<rparr>))"

definition observe_authority :: "broker_identity \<Rightarrow> grants_registry \<Rightarrow> bool \<times> grants_registry" where
  "observe_authority auth reg =
     ((case rg_authority reg of Some seen \<Rightarrow> seen \<noteq> auth | None \<Rightarrow> False), reg\<lparr>rg_authority := Some auth\<rparr>)"

definition drain_all :: "grants_registry \<Rightarrow> grants_registry" where
  "drain_all reg =
     reg\<lparr>rg_grants := [], rg_pipes := [], rg_severed := rg_severed reg \<union> snd ` set (rg_pipes reg),
         rg_ended := rg_ended reg \<union> fst ` set (rg_grants reg)\<rparr>"

definition grant_expire :: "nat \<Rightarrow> grants_registry \<Rightarrow> grants_registry" where
  "grant_expire i reg =
     reg\<lparr>rg_grants := filter (\<lambda>e. fst e \<noteq> i) (rg_grants reg),
         rg_pipes := filter (\<lambda>e. fst e \<noteq> i) (rg_pipes reg),
         rg_severed := rg_severed reg \<union> snd ` set (filter (\<lambda>e. fst e = i) (rg_pipes reg)),
         rg_ended := rg_ended reg \<union> (if map_of (rg_grants reg) i = None then {} else {i})\<rparr>"

text \<open>\<open>live\<close>: a stale entry is for the caller to expire.\<close>

datatype live_result = LiveGrant bgrant | LiveStale | LiveNone

definition browser_grant_live :: "nat \<Rightarrow> instant \<Rightarrow> grants_registry \<Rightarrow> live_result" where
  "browser_grant_live i now reg =
     (case map_of (rg_grants reg) i of
        None \<Rightarrow> LiveNone | Some g \<Rightarrow> if now < bg_deadline g then LiveGrant g else LiveStale)"

definition snapshot_live :: "instant \<Rightarrow> grants_registry \<Rightarrow> (string \<times> nat) list" where
  "snapshot_live now reg =
     map (\<lambda>e. (bg_token (snd e), max (as_secs (duration_since (bg_deadline (snd e)) now)) 1))
       (filter (\<lambda>e. now < bg_deadline (snd e)) (rg_grants reg))"

text \<open>The caller's process must still be the one its anchor names; the order of the table is the hash
  map's.\<close>

definition live_for_descendant ::
  "process_table \<Rightarrow> anchored_peer \<Rightarrow> instant \<Rightarrow> grants_registry \<Rightarrow> (port \<times> bgrant) option" where
  "live_for_descendant procs caller now reg =
     (if map_option start (procs (peer_pid caller)) \<noteq> Some (peer_start caller) then None
      else map_option (\<lambda>e. (bg_endpoint_port (snd e), snd e))
        (find (\<lambda>e. now < bg_deadline (snd e) \<and> contains_with procs (bg_anchor (snd e)) (peer_pid caller)) (rg_grants reg)))"

definition register_pipe :: "nat \<Rightarrow> bool \<Rightarrow> grants_registry \<Rightarrow> nat option \<times> grants_registry" where
  "register_pipe i clone_ok reg =
     (if map_of (rg_grants reg) i = None then (None, reg)
      else if \<not> clone_ok then (None, reg)
      else (Some (rg_next reg),
            reg\<lparr>rg_pipes := (i, rg_next reg) # rg_pipes reg, rg_next := rg_next reg + 1\<rparr>))"

definition pipe_drop :: "nat \<Rightarrow> nat \<Rightarrow> grants_registry \<Rightarrow> grants_registry" where
  "pipe_drop i pid reg = reg\<lparr>rg_pipes := filter (\<lambda>e. e \<noteq> (i, pid)) (rg_pipes reg)\<rparr>"

section \<open>Requests\<close>

definition parse_grant_request :: "string \<Rightarrow> (nat \<times> string \<times> port) option" where
  "parse_grant_request line =
     (if \<not> utf8_valid line then None
      else case strip_prefix ''GRANT '' line of
        None \<Rightarrow> None
      | Some rest \<Rightarrow>
          (case split_on CHR '' '' rest of
             [raw_ttl, receipt, raw_port] \<Rightarrow>
               (case (parse_uint u64_max raw_ttl, parse_port raw_port) of
                  (Some n, Some p) \<Rightarrow>
                    if n = 0 \<or> as_secs LONGEST_TTL < n \<or> p = 0 \<or> \<not> valid_hex_bytes receipt 64 then None
                    else Some (n, receipt, p)
                | _ \<Rightarrow> None)
           | _ \<Rightarrow> None))"

definition print_grant_request :: "nat \<Rightarrow> string \<Rightarrow> port \<Rightarrow> string" where
  "print_grant_request n receipt p = ''GRANT '' @ show_nat n @ '' '' @ receipt @ '' '' @ show_nat (unat p)"

definition REFUSED :: string where "REFUSED = ''REFUSED'' @ [newline]"
definition REFUSED_ANCHOR :: string where "REFUSED_ANCHOR = ''REFUSED ANCHOR'' @ [newline]"
definition REFUSED_UPSTREAM :: string where "REFUSED_UPSTREAM = ''REFUSED UPSTREAM'' @ [newline]"
definition REFUSED_RECEIPT :: string where "REFUSED_RECEIPT = ''REFUSED RECEIPT'' @ [newline]"
definition REFUSED_LAPTOP :: string where "REFUSED_LAPTOP = ''REFUSED LAPTOP'' @ [newline]"
definition UNGRANTED_REFUSAL :: string where "UNGRANTED_REFUSAL = ''REFUSED UNGRANTED'' @ [newline]"

definition answer_status :: "process_table \<Rightarrow> anchored_peer option \<Rightarrow> instant \<Rightarrow> grants_registry \<Rightarrow> string" where
  "answer_status procs caller now reg =
     (case Option.bind caller (\<lambda>c. live_for_descendant procs c now reg) of
        None \<Rightarrow> ''NONE'' @ [newline]
      | Some (p, g) \<Rightarrow>
          ''LIVE '' @ show_nat (unat p) @ '' '' @ show_nat (as_secs (duration_since (bg_deadline g) now)) @ [newline])"

definition answer_probe :: "anchored_peer option \<Rightarrow> bool \<Rightarrow> string" where
  "answer_probe anchor has_upstream =
     (if anchor = None then REFUSED_ANCHOR
      else if \<not> has_upstream then REFUSED_UPSTREAM
      else ''OK'' @ [newline])"

section \<open>Threads\<close>

datatype grant_task =
    GtCheckRedeemed pending
  | GtPush pending
  | GtCheckPushed pending
  | GtInsert pending
  | GtOk nat
  | GtControl nat
  | GtExpire nat
  | GtAnswered string
  | RtLive nat
  | RtConnect nat bgrant
  | RtRegister nat bgrant
  | RtPiping nat nat
  | RtExpire nat
  | RtAnswered string

record grant_env =
  ge_now :: instant
  ge_pid_ok :: bool
  ge_line :: "string option"
  ge_procs :: process_table
  ge_anchor :: "anchored_peer option"
  ge_upstream :: bool
  ge_session :: string
  ge_redeem :: "(redeemed_grant, broker_error) result"
  ge_mint :: "string option"
  ge_identity :: "(broker_identity, broker_error) result"
  ge_push_ok :: bool
  ge_clone_ok :: bool
  ge_write_ok :: bool
  ge_fd :: received_fd
  ge_connect_ok :: bool
  ge_timeouts_ok :: bool

text \<open>\<open>ceremony::answer\<close> up to the first authority check: anchor, upstream, redemption, token.\<close>

definition start_ceremony :: "grant_env \<Rightarrow> nat \<times> string \<times> port \<Rightarrow> grant_task" where
  "start_ceremony env req =
     (case ge_anchor env of
        None \<Rightarrow> GtAnswered REFUSED_ANCHOR
      | Some anchor \<Rightarrow>
          if \<not> ge_upstream env then GtAnswered REFUSED_UPSTREAM
          else case ge_redeem env of
            Err _ \<Rightarrow> GtAnswered REFUSED_RECEIPT
          | Ok r \<Rightarrow>
              (case ge_mint env of
                 None \<Rightarrow> GtAnswered REFUSED
               | Some tok \<Rightarrow>
                   GtCheckRedeemed
                     \<lparr>gp_session = ge_session env, gp_anchor = anchor, gp_authority = rd_authority r,
                      gp_ttl = min (fst req) (rd_ttl_secs r), gp_token = tok, gp_port = snd (snd req),
                      gp_trace = [CeRedeemed (rd_authority r) (rd_ttl_secs r)]\<rparr>))"

definition handle_grant_line :: "grant_env \<Rightarrow> grants_registry \<Rightarrow> grant_task" where
  "handle_grant_line env reg =
     (if \<not> ge_pid_ok env then GtAnswered REFUSED
      else case ge_line env of
        None \<Rightarrow> GtAnswered REFUSED
      | Some line \<Rightarrow>
          if line = ''STATUS'' then GtAnswered (answer_status (ge_procs env) (ge_anchor env) (ge_now env) reg)
          else if line = ''PROBE'' then GtAnswered (answer_probe (ge_anchor env) (ge_upstream env))
          else case parse_grant_request line of
            None \<Rightarrow> GtAnswered REFUSED
          | Some req \<Rightarrow> start_ceremony env req)"

definition authority_is_current :: "grant_env \<Rightarrow> broker_identity \<Rightarrow> bool" where
  "authority_is_current env auth = (case ge_identity env of Ok current \<Rightarrow> current = auth | Err _ \<Rightarrow> False)"

definition pending_grant :: "instant \<Rightarrow> pending \<Rightarrow> bgrant" where
  "pending_grant now p =
     \<lparr>bg_session = gp_session p, bg_anchor = gp_anchor p, bg_token = gp_token p,
      bg_deadline = now + from_secs (gp_ttl p), bg_endpoint_port = gp_port p\<rparr>"

definition trace_more :: "ceremony_event \<Rightarrow> pending \<Rightarrow> pending" where
  "trace_more e p = p\<lparr>gp_trace := gp_trace p @ [e]\<rparr>"

text \<open>A descriptor handed over on the control channel must be a loopback TCP connection.\<close>

definition start_relay_one :: "grant_env \<Rightarrow> nat \<Rightarrow> grant_task" where
  "start_relay_one env i =
     (case connected_stream (ge_fd env) of
        None \<Rightarrow> RtAnswered []
      | Some peer \<Rightarrow> if is_loopback (fst peer) then RtLive i else RtAnswered [])"

fun advance_grant :: "grant_env \<Rightarrow> grant_task \<Rightarrow> grants_registry \<Rightarrow> grant_task \<times> grants_registry" where
  "advance_grant env (GtCheckRedeemed p) reg =
     (if authority_is_current env (gp_authority p) then (GtPush (trace_more (CeCurrent (gp_authority p)) p), reg)
      else (GtAnswered REFUSED, reg))"
| "advance_grant env (GtPush p) reg =
     (if ge_push_ok env then (GtCheckPushed (trace_more (CePushed (gp_token p) (gp_ttl p)) p), reg)
      else (GtAnswered REFUSED_LAPTOP, reg))"
| "advance_grant env (GtCheckPushed p) reg =
     (if authority_is_current env (gp_authority p) then (GtInsert (trace_more (CeCurrent (gp_authority p)) p), reg)
      else (GtAnswered REFUSED, reg))"
| "advance_grant env (GtInsert p) reg =
     (case insert_if_authority (gp_authority p) (pending_grant (ge_now env) p) p (ge_clone_ok env) reg of
        (None, reg') \<Rightarrow> (GtAnswered REFUSED, reg')
      | (Some i, reg') \<Rightarrow> (GtOk i, reg'))"
| "advance_grant env (GtOk i) reg = (if ge_write_ok env then (GtControl i, reg) else (GtExpire i, reg))"
| "advance_grant env (GtControl i) reg = (GtExpire i, reg)"
| "advance_grant env (GtExpire i) reg = (GtAnswered [], grant_expire i reg)"
| "advance_grant env (GtAnswered s) reg = (GtAnswered s, reg)"
| "advance_grant env (RtLive i) reg =
     (case browser_grant_live i (ge_now env) reg of
        LiveGrant g \<Rightarrow> (RtConnect i g, reg)
      | LiveStale \<Rightarrow> (RtExpire i, reg)
      | LiveNone \<Rightarrow> (RtAnswered UNGRANTED_REFUSAL, reg))"
| "advance_grant env (RtConnect i g) reg =
     (if ge_connect_ok env \<and> ge_write_ok env then
        if ge_timeouts_ok env then (RtRegister i g, reg) else (RtAnswered [], reg)
      else (RtAnswered GENERIC_REFUSAL, reg))"
| "advance_grant env (RtRegister i g) reg =
     (case register_pipe i (ge_clone_ok env) reg of
        (None, reg') \<Rightarrow> (RtAnswered UNGRANTED_REFUSAL, reg')
      | (Some pid, reg') \<Rightarrow> (RtPiping i pid, reg'))"
| "advance_grant env (RtPiping i pid) reg = (RtAnswered [], pipe_drop i pid reg)"
| "advance_grant env (RtExpire i) reg = (RtAnswered UNGRANTED_REFUSAL, grant_expire i reg)"
| "advance_grant env (RtAnswered s) reg = (RtAnswered s, reg)"

record grant_system =
  gs_reg :: grants_registry
  gs_draining :: bool
  gs_tasks :: "grant_task list"

definition gs_init :: "grant_system \<Rightarrow> bool" where
  "gs_init s \<longleftrightarrow> s =
     \<lparr>gs_reg = \<lparr>rg_grants = [], rg_pipes = [], rg_authority = None, rg_next = 0, rg_severed = {}, rg_ended = {},
                rg_origin = Map.empty\<rparr>,
      gs_draining = False, gs_tasks = []\<rparr>"

fun needs_authority_lock :: "grant_task \<Rightarrow> bool" where
  "needs_authority_lock (GtInsert p) = True"
| "needs_authority_lock _ = False"

inductive gs_step :: "grant_system \<Rightarrow> grant_system \<Rightarrow> bool" where
  grant_request: "gs_step s (s\<lparr>gs_tasks := gs_tasks s @ [handle_grant_line env (gs_reg s)]\<rparr>)"
| relay_socket: "GtControl i \<in> set (gs_tasks s) \<Longrightarrow>
    gs_step s (s\<lparr>gs_tasks := gs_tasks s @ [start_relay_one env i]\<rparr>)"
| advance:
    "gs_tasks s = xs @ t # ys \<Longrightarrow> needs_authority_lock t \<longrightarrow> \<not> gs_draining s \<Longrightarrow>
     advance_grant env t (gs_reg s) = (t', reg) \<Longrightarrow>
     gs_step s (s\<lparr>gs_reg := reg, gs_tasks := xs @ t' # ys\<rparr>)"
| reap: "gs_step s (s\<lparr>gs_reg := grant_expire i (gs_reg s)\<rparr>)"
| observe:
    "\<not> gs_draining s \<Longrightarrow> observe_authority auth (gs_reg s) = (ch, reg) \<Longrightarrow>
     gs_step s (s\<lparr>gs_reg := reg, gs_draining := ch\<rparr>)"
| invalidate:
    "\<not> gs_draining s \<Longrightarrow> gs_step s (s\<lparr>gs_reg := (gs_reg s)\<lparr>rg_authority := None\<rparr>, gs_draining := True\<rparr>)"
| drain: "gs_draining s \<Longrightarrow> gs_step s (s\<lparr>gs_reg := drain_all (gs_reg s), gs_draining := False\<rparr>)"

section \<open>The broker subscription\<close>

datatype sub_failure = SubInitial broker_error | SubAttached broker_error

definition MAX_EPOCH_LINE :: nat where
  "MAX_EPOCH_LINE = 64"

text \<open>One line of the subscription, as \<open>read_line\<close> on at most 64 bytes delivers it: the authority to
  observe, or the end of the subscription.\<close>

definition subscription_event :: "socket_identity \<Rightarrow> string option \<Rightarrow> (broker_identity, sub_failure) result" where
  "subscription_event sock line =
     (case line of
        None \<Rightarrow> Err (SubAttached BeConnect)
      | Some l \<Rightarrow>
          if \<not> utf8_valid l then Err (SubAttached BeConnect)
          else if l = [] then Err (SubAttached BeSubscriptionClosed)
          else if l = SUBSCRIBER_CAPACITY_RESPONSE then Err (SubAttached BeSubscriberCapacity)
          else case parse_authority_event l of
            None \<Rightarrow> Err (SubAttached BeProtocol)
          | Some (inst, e) \<Rightarrow> Ok \<lparr>bi_instance = inst, bi_epoch = e, bi_socket = sock\<rparr>)"

fun subscription_loop ::
  "socket_identity \<Rightarrow> string option list \<Rightarrow> broker_identity list \<times> sub_failure option" where
  "subscription_loop sock [] = ([], None)"
| "subscription_loop sock (l # ls) =
     (case subscription_event sock l of
        Err f \<Rightarrow> ([], Some f)
      | Ok auth \<Rightarrow> (case subscription_loop sock ls of (seen, f) \<Rightarrow> (auth # seen, f)))"

text \<open>\<open>worker\<close> on one failure: whether the grants are revoked, how long it sleeps, and the budget.\<close>

definition SUB_MAX_UNHEALTHY :: duration where
  "SUB_MAX_UNHEALTHY = from_secs 30"

definition on_sub_failure ::
  "sub_failure \<Rightarrow> instant \<Rightarrow> instant option \<Rightarrow> bool \<times> duration \<times> instant option" where
  "on_sub_failure f now budget =
     (case f of
        SubAttached _ \<Rightarrow> (True, RECONNECT_BACKOFF, None)
      | SubInitial e \<Rightarrow>
          if e \<noteq> BeConnect then (True, RECONNECT_BACKOFF, None)
          else let since = (case budget of Some t \<Rightarrow> t | None \<Rightarrow> now)
            in if SUB_MAX_UNHEALTHY \<le> duration_since now since
               then (True, OUTAGE_RECONNECT_BACKOFF, Some since)
               else (False, RECONNECT_BACKOFF, Some since))"

section \<open>The client of the request socket\<close>

datatype grant_status = StatusUnreachable | StatusNone | StatusLive port nat

definition parse_status :: "string \<Rightarrow> grant_status" where
  "parse_status r =
     (if r = ''NONE'' then StatusNone
      else case strip_prefix ''LIVE '' r of
        None \<Rightarrow> StatusUnreachable
      | Some rest \<Rightarrow>
          (case split_once CHR '' '' rest of
             None \<Rightarrow> StatusUnreachable
           | Some (p, secs) \<Rightarrow>
               (case (parse_port p, parse_uint u64_max secs) of
                  (Some p', Some n) \<Rightarrow> StatusLive p' n | _ \<Rightarrow> StatusUnreachable)))"

datatype probe_outcome = ProbeUnreachable | ProbeRefused string | ProbeGrantable

text \<open>The reply line, \<open>None\<close> where the exchange failed.\<close>

definition probe :: "string option \<Rightarrow> probe_outcome" where
  "probe r =
     (case r of
        None \<Rightarrow> ProbeUnreachable
      | Some line \<Rightarrow>
          if \<not> utf8_valid line then ProbeUnreachable
          else if trim_end line = ''OK'' then ProbeGrantable
          else case strip_prefix ''REFUSED'' (trim_end line) of
            Some reason \<Rightarrow> ProbeRefused (trim reason) | None \<Rightarrow> ProbeUnreachable)"

datatype request_failure = RequestUnreachable | RequestRefused string

definition grant_reply :: "string option \<Rightarrow> (unit, request_failure) result" where
  "grant_reply r =
     (case r of
        None \<Rightarrow> Err RequestUnreachable
      | Some line \<Rightarrow>
          if line = ''OK'' then Ok ()
          else if \<not> utf8_valid line then Err RequestUnreachable
          else case strip_prefix ''REFUSED'' line of
            Some reason \<Rightarrow> Err (RequestRefused (trim reason)) | None \<Rightarrow> Err RequestUnreachable)"

text \<open>\<open>forward browser grant\<close>: how far the command gets, with the outcome of each of its steps.\<close>

datatype cli_end =
    CliBadTtl | CliProbe probe_outcome | CliNoAnchor | CliNoEndpoint | CliBroker broker_error
  | CliRequest request_failure | CliNoRelay | CliGranted port

record cli_env =
  ce_probe :: "string option"
  ce_anchor :: "anchored_peer option"
  ce_bind :: "port option"
  ce_authorize :: "(string, broker_error) result"
  ce_reply :: "string option"
  ce_detach_ok :: bool

text \<open>The result, and whether the broker was asked for a touch.\<close>

definition browser_grant_command :: "cli_env \<Rightarrow> string \<Rightarrow> cli_end \<times> bool" where
  "browser_grant_command env ttl_text =
     (case parse_ttl ttl_text of
        None \<Rightarrow> (CliBadTtl, False)
      | Some secs \<Rightarrow>
          if probe (ce_probe env) \<noteq> ProbeGrantable then (CliProbe (probe (ce_probe env)), False)
          else case ce_anchor env of
            None \<Rightarrow> (CliNoAnchor, False)
          | Some anchor \<Rightarrow>
              (case ce_bind env of
                 None \<Rightarrow> (CliNoEndpoint, False)
               | Some p \<Rightarrow>
                   (case ce_authorize env of
                      Err e \<Rightarrow> (CliBroker e, True)
                    | Ok receipt \<Rightarrow>
                        (case grant_reply (ce_reply env) of
                           Err f \<Rightarrow> (CliRequest f, True)
                         | Ok _ \<Rightarrow> (if ce_detach_ok env then CliGranted p else CliNoRelay, True)))))"

end
