(* ===== verification/BrowserSafety.thy ===== *)
theory BrowserSafety
  imports BrowserGrants
begin

text \<open>
  Safety of browser grants under every interleaving of the request socket, the relayed connections,
  the reapers and the broker subscription: a session that is still connected belongs to a grant in
  the registry, a grant in the registry went through the whole ceremony under the authority that
  is observed now, and a grant that left the registry has lost its control channel and its pipes.
\<close>

section \<open>The ceremony\<close>

text \<open>The events a pending grant has behind it, by stage.\<close>

definition stage :: "nat \<Rightarrow> pending \<Rightarrow> bool" where
  "stage k p \<longleftrightarrow>
     (\<exists>n. gp_ttl p \<le> n
        \<and> gp_trace p = take k [CeRedeemed (gp_authority p) n, CeCurrent (gp_authority p),
             CePushed (gp_token p) (gp_ttl p), CeCurrent (gp_authority p)])"

lemma trace_more_sel [simp]:
  "gp_authority (trace_more e p) = gp_authority p" "gp_token (trace_more e p) = gp_token p"
  "gp_ttl (trace_more e p) = gp_ttl p" "gp_trace (trace_more e p) = gp_trace p @ [e]"
  by (simp_all add: trace_more_def)

lemma stage_more:
  "stage 1 p \<Longrightarrow> stage 2 (trace_more (CeCurrent (gp_authority p)) p)"
  "stage 2 p \<Longrightarrow> stage 3 (trace_more (CePushed (gp_token p) (gp_ttl p)) p)"
  "stage 3 p \<Longrightarrow> stage 4 (trace_more (CeCurrent (gp_authority p)) p)"
  by (auto simp: stage_def numeral_eq_Suc)

section \<open>The invariant\<close>

definition reg_ok :: "grants_registry \<Rightarrow> bool" where
  "reg_ok reg \<longleftrightarrow>
     distinct (map fst (rg_grants reg))
     \<and> (\<forall>i g. (i, g) \<in> set (rg_grants reg) \<longrightarrow>
          i < rg_next reg \<and> (\<exists>p now. rg_origin reg i = Some p \<and> g = pending_grant now p))
     \<and> (\<forall>i pid. (i, pid) \<in> set (rg_pipes reg) \<longrightarrow> pid < rg_next reg \<and> i \<in> fst ` set (rg_grants reg))
     \<and> (\<forall>i p. rg_origin reg i = Some p \<longrightarrow>
          i < rg_next reg \<and> stage 4 p \<and> (i \<in> fst ` set (rg_grants reg) \<or> i \<in> rg_ended reg))"

definition auth_ok :: "grants_registry \<Rightarrow> bool" where
  "auth_ok reg \<longleftrightarrow>
     (\<forall>i p. i \<in> fst ` set (rg_grants reg) \<longrightarrow> rg_origin reg i = Some p \<longrightarrow> rg_authority reg = Some (gp_authority p))"

definition piping_ok :: "grants_registry \<Rightarrow> nat \<Rightarrow> nat \<Rightarrow> bool" where
  "piping_ok reg i pid \<longleftrightarrow>
     pid < rg_next reg \<and> ((i, pid) \<in> set (rg_pipes reg) \<or> pid \<in> rg_severed reg)"

fun grant_task_ok :: "grants_registry \<Rightarrow> grant_task \<Rightarrow> bool" where
  "grant_task_ok reg (GtCheckRedeemed p) \<longleftrightarrow> stage 1 p"
| "grant_task_ok reg (GtPush p) \<longleftrightarrow> stage 2 p"
| "grant_task_ok reg (GtCheckPushed p) \<longleftrightarrow> stage 3 p"
| "grant_task_ok reg (GtInsert p) \<longleftrightarrow> stage 4 p"
| "grant_task_ok reg (RtPiping i pid) \<longleftrightarrow> piping_ok reg i pid"
| "grant_task_ok reg _ \<longleftrightarrow> True"

fun task_pids :: "grant_task \<Rightarrow> nat list" where
  "task_pids (RtPiping i pid) = [pid]"
| "task_pids _ = []"

definition gs_inv :: "grant_system \<Rightarrow> bool" where
  "gs_inv s \<longleftrightarrow>
     reg_ok (gs_reg s) \<and> (\<not> gs_draining s \<longrightarrow> auth_ok (gs_reg s))
     \<and> list_all (grant_task_ok (gs_reg s)) (gs_tasks s)
     \<and> distinct (concat (map task_pids (gs_tasks s)))"

text \<open>What a section may do to the pipes of other threads; \<open>pids\<close> are its own.\<close>

definition keeps_pipes :: "nat set \<Rightarrow> grants_registry \<Rightarrow> grants_registry \<Rightarrow> bool" where
  "keeps_pipes pids reg reg' \<longleftrightarrow>
     rg_next reg \<le> rg_next reg' \<and> rg_severed reg \<subseteq> rg_severed reg'
     \<and> (\<forall>i pid. (i, pid) \<in> set (rg_pipes reg) \<longrightarrow> pid \<notin> pids \<longrightarrow>
          (i, pid) \<in> set (rg_pipes reg') \<or> pid \<in> rg_severed reg')"

lemma keeps_refl [simp]: "keeps_pipes pids reg reg"
  by (simp add: keeps_pipes_def)

lemma task_kept:
  "keeps_pipes pids reg reg' \<Longrightarrow> set (task_pids t) \<inter> pids = {} \<Longrightarrow> grant_task_ok reg t \<Longrightarrow> grant_task_ok reg' t"
  by (cases t) (auto simp: keeps_pipes_def piping_ok_def)

section \<open>Each operation keeps it\<close>

lemma authority_keeps [simp]:
  "reg_ok (reg\<lparr>rg_authority := a\<rparr>) \<longleftrightarrow> reg_ok reg" "keeps_pipes {} reg (reg\<lparr>rg_authority := a\<rparr>)"
  by (simp_all add: reg_ok_def keeps_pipes_def)

lemma insert_keeps:
  assumes "reg_ok reg" and "stage 4 p"
    and "insert_if_authority (gp_authority p) (pending_grant now p) p ok reg = (r, reg')"
  shows "reg_ok reg' \<and> keeps_pipes {} reg reg' \<and> (auth_ok reg \<longrightarrow> auth_ok reg')"
proof (cases "rg_authority reg = Some (gp_authority p) \<and> ok")
  case True
  then have reg': "reg' = reg\<lparr>rg_grants := (rg_next reg, pending_grant now p) # rg_grants reg,
      rg_next := rg_next reg + 1, rg_origin := (rg_origin reg)(rg_next reg \<mapsto> p)\<rparr>"
    using assms(3) by (simp add: insert_if_authority_def)
  have below: "i < rg_next reg" if "i \<in> fst ` set (rg_grants reg)" for i
    using that assms(1) by (auto simp: reg_ok_def)
  then have fresh: "rg_next reg \<notin> fst ` set (rg_grants reg)"
    by blast
  have "reg_ok reg'"
    using assms(1,2) fresh unfolding reg' reg_ok_def
    by (auto simp: less_Suc_eq)
  moreover have "auth_ok reg \<longrightarrow> auth_ok reg'"
    using True below unfolding reg' auth_ok_def by auto
  ultimately show ?thesis
    by (auto simp: reg' keeps_pipes_def)
next
  case False
  then show ?thesis
    using assms by (auto simp: insert_if_authority_def split: if_splits)
qed

lemma fst_remaining: "fst ` {x \<in> set xs. fst x \<noteq> i} = fst ` set xs - {i}"
  by auto

lemma expire_keeps:
  assumes "reg_ok reg"
  shows "reg_ok (grant_expire i reg) \<and> keeps_pipes {} reg (grant_expire i reg)
    \<and> (auth_ok reg \<longrightarrow> auth_ok (grant_expire i reg))"
proof -
  have dist: "distinct (map fst (filter (\<lambda>e. fst e \<noteq> i) (rg_grants reg)))"
    using assms by (simp add: reg_ok_def distinct_map_filter)
  have "reg_ok (grant_expire i reg)"
    using assms dist unfolding reg_ok_def grant_expire_def
    by (auto simp: fst_remaining map_of_eq_None_iff)
  then show ?thesis
    by (auto simp: keeps_pipes_def grant_expire_def auth_ok_def fst_remaining intro: rev_image_eqI)
qed

lemma drain_keeps:
  assumes "reg_ok reg"
  shows "reg_ok (drain_all reg) \<and> keeps_pipes {} reg (drain_all reg) \<and> auth_ok (drain_all reg)"
  using assms by (auto simp: reg_ok_def keeps_pipes_def drain_all_def auth_ok_def intro: rev_image_eqI)

lemma register_keeps:
  assumes "reg_ok reg" and "register_pipe i ok reg = (r, reg')"
  shows "reg_ok reg' \<and> keeps_pipes {} reg reg' \<and> (auth_ok reg \<longrightarrow> auth_ok reg')
    \<and> (\<forall>pid. r = Some pid \<longrightarrow> pid = rg_next reg \<and> piping_ok reg' i pid)"
proof (cases "map_of (rg_grants reg) i \<noteq> None \<and> ok")
  case True
  then have i: "i \<in> fst ` set (rg_grants reg)"
    by (auto simp: map_of_eq_None_iff)
  have "r = Some (rg_next reg)"
      and reg': "reg' = reg\<lparr>rg_pipes := (i, rg_next reg) # rg_pipes reg, rg_next := rg_next reg + 1\<rparr>"
    using assms(2) True by (auto simp: register_pipe_def)
  moreover have "reg_ok reg'"
    using assms(1) i unfolding reg' reg_ok_def by (auto simp: less_Suc_eq)
  ultimately show ?thesis
    by (simp add: keeps_pipes_def auth_ok_def piping_ok_def)
next
  case False
  then show ?thesis
    using assms by (auto simp: register_pipe_def split: if_splits)
qed

lemma pipe_drop_keeps:
  assumes "reg_ok reg"
  shows "reg_ok (pipe_drop i pid reg) \<and> keeps_pipes {pid} reg (pipe_drop i pid reg)
    \<and> (auth_ok reg \<longrightarrow> auth_ok (pipe_drop i pid reg))"
  using assms by (auto simp: reg_ok_def keeps_pipes_def pipe_drop_def auth_ok_def)

lemma start_ceremony_ok: "grant_task_ok reg (start_ceremony env req) \<and> task_pids (start_ceremony env req) = []"
  by (auto simp: start_ceremony_def stage_def split: option.splits result.splits)

lemma handle_line_ok: "grant_task_ok reg (handle_grant_line env r) \<and> task_pids (handle_grant_line env r) = []"
  by (auto simp: handle_grant_line_def start_ceremony_ok split: option.splits)

lemma relay_one_ok: "grant_task_ok reg (start_relay_one env i) \<and> task_pids (start_relay_one env i) = []"
  by (auto simp: start_relay_one_def split: option.splits)

lemma grant_advance:
  assumes "reg_ok reg" and "grant_task_ok reg t" and "advance_grant env t reg = (t', reg')"
  shows "reg_ok reg' \<and> keeps_pipes (set (task_pids t)) reg reg' \<and> (auth_ok reg \<longrightarrow> auth_ok reg')
    \<and> grant_task_ok reg' t' \<and> (set (task_pids t') \<subseteq> {rg_next reg}) "
proof (cases t)
  case (GtCheckRedeemed p)
  then show ?thesis
    using assms stage_more(1) by (auto split: if_splits)
next
  case (GtPush p)
  then show ?thesis
    using assms stage_more(2) by (auto split: if_splits)
next
  case (GtCheckPushed p)
  then show ?thesis
    using assms stage_more(3) by (auto split: if_splits)
next
  case (GtInsert p)
  then show ?thesis
    using assms insert_keeps [of reg p "ge_now env" "ge_clone_ok env"]
    by (auto split: prod.splits option.splits)
next
  case (GtExpire i)
  then show ?thesis
    using assms expire_keeps [of reg i] by auto
next
  case (RtLive i)
  then show ?thesis
    using assms by (auto split: live_result.splits)
next
  case (RtRegister i g)
  then show ?thesis
    using assms register_keeps [of reg i "ge_clone_ok env"]
    by (auto split: prod.splits option.splits)
next
  case (RtPiping i pid)
  then show ?thesis
    using assms pipe_drop_keeps [of reg i pid] by auto
next
  case (RtExpire i)
  then show ?thesis
    using assms expire_keeps [of reg i] by auto
qed (use assms in \<open>auto split: if_splits\<close>)

lemma tasks_kept:
  assumes "keeps_pipes pids reg reg'" and "\<forall>t \<in> set ts. set (task_pids t) \<inter> pids = {}"
    and "list_all (grant_task_ok reg) ts"
  shows "list_all (grant_task_ok reg') ts"
  using assms task_kept by (auto simp: list_all_iff)

lemma pids_below: "list_all (grant_task_ok reg) ts \<Longrightarrow> pid \<in> set (concat (map task_pids ts)) \<Longrightarrow> pid < rg_next reg"
proof -
  assume ok: "list_all (grant_task_ok reg) ts" and "pid \<in> set (concat (map task_pids ts))"
  then obtain t where t: "t \<in> set ts" "pid \<in> set (task_pids t)"
    by auto
  then have "grant_task_ok reg t"
    using ok by (auto simp: list_all_iff)
  then show ?thesis
    using t(2) by (induction t) (auto simp: piping_ok_def)
qed

lemma gs_inv_advance:
  assumes inv: "gs_inv s" and ts: "gs_tasks s = xs @ t # ys"
    and adv: "advance_grant env t (gs_reg s) = (t', reg')"
  shows "gs_inv (s\<lparr>gs_reg := reg', gs_tasks := xs @ t' # ys\<rparr>)"
proof -
  have ok: "reg_ok (gs_reg s)" "grant_task_ok (gs_reg s) t" "list_all (grant_task_ok (gs_reg s)) (xs @ ys)"
      and d: "distinct (concat (map task_pids (xs @ t # ys)))"
    using inv ts by (auto simp: gs_inv_def)
  note a = grant_advance [OF ok(1,2) adv]
  have "\<forall>u \<in> set (xs @ ys). set (task_pids u) \<inter> set (task_pids t) = {}"
    using d by fastforce
  then have others: "list_all (grant_task_ok reg') (xs @ ys)"
    using a tasks_kept ok(3) by blast
  have "set (task_pids t') \<inter> set (concat (map task_pids (xs @ ys))) = {}"
    using a pids_below [OF ok(3)] by fastforce
  moreover have "distinct (task_pids t')"
    by (cases t') auto
  ultimately have "distinct (concat (map task_pids (xs @ t' # ys)))"
    using d by auto
  then show ?thesis
    using inv a others by (auto simp: gs_inv_def)
qed

lemma gs_inv_step:
  assumes "gs_inv s" and "gs_step s t"
  shows "gs_inv t"
  using assms(2)
proof cases
  case (grant_request env)
  then show ?thesis
    using assms(1) handle_line_ok [of "gs_reg s" env "gs_reg s"] by (simp add: gs_inv_def)
next
  case (relay_socket i env)
  then show ?thesis
    using assms(1) relay_one_ok [of "gs_reg s" env i] by (simp add: gs_inv_def)
next
  case (advance xs u ys env u' reg)
  then show ?thesis
    using gs_inv_advance [OF assms(1)] by simp
next
  case (reap i)
  then show ?thesis
    using assms(1) expire_keeps [of "gs_reg s" i] tasks_kept [of "{}" "gs_reg s" "grant_expire i (gs_reg s)" "gs_tasks s"]
    by (auto simp: gs_inv_def)
next
  case (observe auth ch reg)
  then have reg: "reg = (gs_reg s)\<lparr>rg_authority := Some auth\<rparr>"
      and same: "\<not> ch \<Longrightarrow> rg_authority (gs_reg s) = Some auth \<or> rg_authority (gs_reg s) = None"
    by (auto simp: observe_authority_def split: option.splits)
  have "auth_ok (gs_reg s)"
    using observe assms(1) by (simp add: gs_inv_def)
  then have "auth_ok reg" if "\<not> ch"
    using same [OF that] by (auto simp: reg auth_ok_def)
  then show ?thesis
    using observe assms(1) tasks_kept [of "{}" "gs_reg s" reg "gs_tasks s"] by (auto simp: gs_inv_def reg)
next
  case invalidate
  then show ?thesis
    using assms(1) tasks_kept [of "{}" "gs_reg s" "(gs_reg s)\<lparr>rg_authority := None\<rparr>" "gs_tasks s"]
    by (auto simp: gs_inv_def)
next
  case drain
  then show ?thesis
    using assms(1) drain_keeps [of "gs_reg s"] tasks_kept [of "{}" "gs_reg s" "drain_all (gs_reg s)" "gs_tasks s"]
    by (auto simp: gs_inv_def)
qed

interpretation browser_grants: invariant_system gs_init gs_step gs_inv
proof
  fix s
  assume "gs_init s"
  then show "gs_inv s"
    by (simp add: gs_init_def gs_inv_def reg_ok_def auth_ok_def)
next
  fix s t
  assume "gs_inv s" and "gs_step s t"
  then show "gs_inv t"
    by (rule gs_inv_step)
qed

section \<open>A run\<close>

fun run_grant_task :: "grant_env list \<Rightarrow> grant_task \<times> grants_registry \<Rightarrow> grant_task \<times> grants_registry" where
  "run_grant_task [] tr = tr"
| "run_grant_task (env # envs) tr = run_grant_task envs (advance_grant env (fst tr) (snd tr))"

lemma run_grant_reach:
  "reach gs_init gs_step s \<Longrightarrow> \<not> gs_draining s \<Longrightarrow> gs_tasks s = xs @ [t] \<Longrightarrow>
   reach gs_init gs_step
     (s\<lparr>gs_reg := snd (run_grant_task envs (t, gs_reg s)), gs_tasks := xs @ [fst (run_grant_task envs (t, gs_reg s))]\<rparr>)"
proof (induction envs arbitrary: s t)
  case Nil
  then show ?case
    by (cases s) simp
next
  case (Cons env envs)
  define n where "n = advance_grant env t (gs_reg s)"
  have "gs_step s (s\<lparr>gs_reg := snd n, gs_tasks := xs @ [fst n]\<rparr>)"
    using advance [of s xs t "[]" env "fst n" "snd n"] Cons.prems by (simp add: n_def)
  then have "reach gs_init gs_step (s\<lparr>gs_reg := snd n, gs_tasks := xs @ [fst n]\<rparr>)"
    using Cons.prems reach_step by metis
  then show ?case
    using Cons.IH [of "s\<lparr>gs_reg := snd n, gs_tasks := xs @ [fst n]\<rparr>" "fst n"] Cons.prems by (simp add: n_def)
qed

definition demo_broker_id :: "nat \<Rightarrow> broker_identity" where
  "demo_broker_id e = \<lparr>bi_instance = ''a7'', bi_epoch = e, bi_socket = \<lparr>si_device = 1, si_inode = 2\<rparr>\<rparr>"

definition demo_grant_env :: grant_env where
  "demo_grant_env =
     \<lparr>ge_now = 100, ge_pid_ok = True,
      ge_line = Some (print_grant_request 1800 (encode (replicate 32 7)) 9222), ge_procs = (\<lambda>_. None),
      ge_anchor = Some \<lparr>peer_pid = 40, peer_start = 9\<rparr>, ge_upstream = True, ge_session = ''omp'',
      ge_redeem = Ok \<lparr>rd_authority = demo_broker_id 0, rd_ttl_secs = 43200\<rparr>, ge_mint = Some ''abc'',
      ge_identity = Ok (demo_broker_id 0), ge_push_ok = True, ge_clone_ok = True, ge_write_ok = True,
      ge_fd = FdStream (Some (LOCALHOST, 50000)), ge_connect_ok = True, ge_timeouts_ok = True\<rparr>"

definition demo_reg0 :: grants_registry where
  "demo_reg0 = \<lparr>rg_grants = [], rg_pipes = [], rg_authority = Some (demo_broker_id 0), rg_next = 0, rg_severed = {},
     rg_ended = {}, rg_origin = Map.empty\<rparr>"

definition demo_ceremony :: "grant_task \<times> grants_registry" where
  "demo_ceremony = run_grant_task (replicate 5 demo_grant_env) (handle_grant_line demo_grant_env demo_reg0, demo_reg0)"

definition demo_session :: "grant_task \<times> grants_registry" where
  "demo_session =
     run_grant_task (replicate 3 demo_grant_env) (start_relay_one demo_grant_env 0, snd demo_ceremony)"

lemma demo_session_values:
  "fst demo_ceremony = GtControl 0" "fst demo_session = RtPiping 0 1" "rg_severed (snd demo_session) = {}"
  "fst ` set (rg_grants (snd demo_session)) = {0}" "rg_pipes (snd demo_session) = [(0, 1)]"
  "rg_origin (snd demo_session) 0 \<noteq> None"
  by code_simp+

definition demo_browser :: grant_system where
  "demo_browser = \<lparr>gs_reg = snd demo_session, gs_draining = False, gs_tasks = [GtControl 0, RtPiping 0 1]\<rparr>"

definition demo_locked :: grant_system where
  "demo_locked = \<lparr>gs_reg = drain_all ((snd demo_session)\<lparr>rg_authority := None\<rparr>), gs_draining = False,
     gs_tasks = [GtControl 0, RtPiping 0 1]\<rparr>"

lemma demo_browser_reach: "reach gs_init gs_step demo_browser"
proof -
  let ?R = "reach gs_init gs_step"
  have "?R \<lparr>gs_reg = demo_reg0\<lparr>rg_authority := None\<rparr>, gs_draining = False, gs_tasks = []\<rparr>"
    by (rule reach_init) (simp add: gs_init_def demo_reg0_def)
  then have "?R \<lparr>gs_reg = demo_reg0, gs_draining = False, gs_tasks = []\<rparr>"
    by (rule reach_step)
      (use observe [of "\<lparr>gs_reg = demo_reg0\<lparr>rg_authority := None\<rparr>, gs_draining = False, gs_tasks = []\<rparr>" "demo_broker_id 0" False]
        in \<open>simp add: observe_authority_def demo_reg0_def\<close>)
  from reach_step [OF this grant_request [of _ demo_grant_env]]
  have "?R \<lparr>gs_reg = demo_reg0, gs_draining = False, gs_tasks = [handle_grant_line demo_grant_env demo_reg0]\<rparr>"
    by simp
  from run_grant_reach [OF this, of "[]" "handle_grant_line demo_grant_env demo_reg0" "replicate 5 demo_grant_env"]
  have "?R \<lparr>gs_reg = snd demo_ceremony, gs_draining = False, gs_tasks = [GtControl 0]\<rparr>"
    using demo_session_values(1) by (simp add: demo_ceremony_def del: run_grant_task.simps replicate.simps)
  from reach_step [OF this relay_socket [of 0 _ demo_grant_env]]
  have "?R \<lparr>gs_reg = snd demo_ceremony, gs_draining = False, gs_tasks = [GtControl 0, start_relay_one demo_grant_env 0]\<rparr>"
    by simp
  from run_grant_reach [OF this, of "[GtControl 0]" "start_relay_one demo_grant_env 0" "replicate 3 demo_grant_env"]
  show ?thesis
    using demo_session_values(2)
    by (simp add: demo_browser_def demo_session_def del: run_grant_task.simps replicate.simps)
qed

lemma demo_locked_reach: "reach gs_init gs_step demo_locked"
proof -
  have "gs_step demo_browser (demo_browser\<lparr>gs_reg := (snd demo_session)\<lparr>rg_authority := None\<rparr>, gs_draining := True\<rparr>)"
    using invalidate [of demo_browser] by (simp add: demo_browser_def)
  then have "reach gs_init gs_step (demo_browser\<lparr>gs_reg := (snd demo_session)\<lparr>rg_authority := None\<rparr>, gs_draining := True\<rparr>)"
    by (rule reach_step [OF demo_browser_reach])
  from reach_step [OF this drain] show ?thesis
    by (simp add: demo_browser_def demo_locked_def)
qed

section \<open>Properties\<close>



text \<open>C9: A grant ends everywhere at once: a grant that was made and is no longer in the registry, whether
  it expired, was revoked by the broker's authority or lost its caller, has its control channel shut
  down and every pipe it was serving severed.\<close>

theorem browser_grant_ends_everywhere:
  assumes "reach gs_init gs_step s" and "rg_origin (gs_reg s) i = Some p" and "i \<notin> fst ` set (rg_grants (gs_reg s))"
  shows "i \<in> rg_ended (gs_reg s)
     \<and> (\<forall>pid. RtPiping i pid \<in> set (gs_tasks s) \<longrightarrow> pid \<in> rg_severed (gs_reg s))"
proof -
  have inv: "gs_inv s"
    using assms(1) by (rule browser_grants.reach_inv)
  then have "piping_ok (gs_reg s) i pid" if "RtPiping i pid \<in> set (gs_tasks s)" for pid
    using that by (auto simp: gs_inv_def list_all_iff)
  moreover have "(i, pid) \<notin> set (rg_pipes (gs_reg s))" for pid
    using inv assms(3) by (auto simp: gs_inv_def reg_ok_def)
  moreover have "i \<in> rg_ended (gs_reg s)"
    using inv assms(2,3) by (auto simp: gs_inv_def reg_ok_def)
  ultimately show ?thesis
    by (auto simp: piping_ok_def)
qed

theorem browser_grant_ends_everywhere_witness:
  "0 \<in> rg_ended (gs_reg demo_locked) \<and> 1 \<in> rg_severed (gs_reg demo_locked)"
proof -
  obtain p where "rg_origin (gs_reg demo_locked) 0 = Some p"
    using demo_session_values(6) by (auto simp: demo_locked_def drain_all_def)
  from browser_grant_ends_everywhere [OF demo_locked_reach this] show ?thesis
    by (simp add: demo_locked_def drain_all_def)
qed

section \<open>Requests and answers\<close>

lemma valid_hex_no_space: "valid_hex_bytes r n \<Longrightarrow> CHR '' '' \<notin> set r \<and> list_all is_ascii r"
  using lower_hex_plain by (auto simp: valid_hex_bytes_def list_all_iff)

fun valid_grant_request :: "nat \<times> string \<times> port \<Rightarrow> bool" where
  "valid_grant_request (n, receipt, p) \<longleftrightarrow> 0 < n \<and> n \<le> 43200 \<and> p \<noteq> 0 \<and> valid_hex_bytes receipt 64"

interpretation grant_wire: codec valid_grant_request
  "\<lambda>(n, receipt, p). print_grant_request n receipt p" parse_grant_request
proof
  fix x
  assume v: "valid_grant_request x"
  obtain n receipt p where x: "x = (n, receipt, p)"
    by (cases x)
  have r: "CHR '' '' \<notin> set receipt" "list_all is_ascii receipt"
    using v x valid_hex_no_space by auto
  let ?rest = "show_nat n @ CHR '' '' # receipt @ CHR '' '' # show_nat (unat p)"
  have "print_grant_request n receipt p = ''GRANT '' @ ?rest"
    by (simp add: print_grant_request_def)
  moreover have "utf8_valid (''GRANT '' @ ?rest)"
    by (rule utf8_valid_ascii) (use r in \<open>simp add: show_nat_ascii ascii_defs\<close>)
  moreover have "split_on CHR '' '' ?rest = [show_nat n, receipt, show_nat (unat p)]"
    using r(1) by (simp add: split_on_append split_on_no_sep show_nat_not_space)
  moreover have "n \<le> u64_max" "\<not> as_secs LONGEST_TTL < n"
    using v x by (auto simp: u64_max_def LONGEST_TTL_def)
  ultimately show "parse_grant_request ((\<lambda>(n, receipt, p). print_grant_request n receipt p) x) = Some x"
    using v x parse_port_show [of p] by (simp add: parse_grant_request_def del: append.simps)
qed

text \<open>The command asks for a touch only when everything it can predict has passed: it has reached the
  broker just when its lifetime parses, the probe is answered with \<open>OK\<close>, the caller has an anchor
  and the endpoint is bound; so no predictable refusal costs a touch.\<close>

theorem touch_asked_last:
  "snd (browser_grant_command env ttl_text) \<longleftrightarrow>
     parse_ttl ttl_text \<noteq> None \<and> probe (ce_probe env) = ProbeGrantable \<and> ce_anchor env \<noteq> None \<and> ce_bind env \<noteq> None"
  by (auto simp: browser_grant_command_def split: option.splits result.splits)

end
