(* ===== verification/Subscribers.thy ===== *)
theory Subscribers
  imports BrokerRuns
begin

text \<open>
  The broker's subscribers (\<open>server/subscribers.rs\<close>): the table behind its own mutex, attachment and
  publication as the critical sections they consist of, and their interleaving with \<open>LOCK\<close>, whose
  change of the epoch and whose publication are two sections apart.  A subscriber carries the last
  event that was written to it in full.  Which peers live and which sockets take a whole line is
  the environment's answer, per process.
\<close>

definition SUBSCRIBER_CAPACITY :: nat where
  "SUBSCRIBER_CAPACITY = 8"

record subscriber =
  sub_pid :: int
  sub_event :: string

datatype hub_owner = Attaching int | AttachWriting int string | Publishing | PublishWriting string

text \<open>\<open>hub_due\<close> counts the locks that have changed the epoch and not published yet.\<close>

record hub =
  hub_subs :: "subscriber list"
  hub_holder :: "hub_owner option"
  hub_broker :: broker
  hub_due :: nat

definition current_event :: "broker \<Rightarrow> string" where
  "current_event b = authority_event (b_instance b) (b_lock_epoch b)"

text \<open>\<open>attach\<close> with the mutex just taken: the dead and the peer's own entry go, and a full table
  refuses and releases the mutex.\<close>

definition attach_enter :: "(int \<Rightarrow> bool) \<Rightarrow> int \<Rightarrow> hub \<Rightarrow> string option \<times> hub" where
  "attach_enter alive pid h =
     (let subs = filter (\<lambda>s. alive (sub_pid s) \<and> sub_pid s \<noteq> pid) (hub_subs h)
      in if SUBSCRIBER_CAPACITY \<le> length subs then (Some SUBSCRIBER_CAPACITY_RESPONSE, h\<lparr>hub_subs := subs\<rparr>)
         else (None, h\<lparr>hub_subs := subs, hub_holder := Some (Attaching pid)\<rparr>))"

definition publish_enter :: "hub \<Rightarrow> hub" where
  "publish_enter h = h\<lparr>hub_holder := Some Publishing\<rparr>"

text \<open>The read of the epoch, under the broker's state lock.\<close>

definition read_current_event :: "hub \<Rightarrow> hub" where
  "read_current_event h =
     (case hub_holder h of
        Some (Attaching pid) \<Rightarrow> h\<lparr>hub_holder := Some (AttachWriting pid (current_event (hub_broker h)))\<rparr>
      | Some Publishing \<Rightarrow> h\<lparr>hub_holder := Some (PublishWriting (current_event (hub_broker h)))\<rparr>
      | _ \<Rightarrow> h)"

text \<open>The writes and the release of the mutex; \<open>full\<close> says whose socket took the whole line.\<close>

definition write_event :: "(int \<Rightarrow> bool) \<Rightarrow> (int \<Rightarrow> bool) \<Rightarrow> hub \<Rightarrow> hub" where
  "write_event alive full h =
     (case hub_holder h of
        Some (AttachWriting pid line) \<Rightarrow>
          h\<lparr>hub_holder := None,
            hub_subs := hub_subs h @ (if full pid then [\<lparr>sub_pid = pid, sub_event = line\<rparr>] else [])\<rparr>
      | Some (PublishWriting line) \<Rightarrow>
          h\<lparr>hub_holder := None,
            hub_subs := map (\<lambda>s. s\<lparr>sub_event := line\<rparr>)
                          (filter (\<lambda>s. alive (sub_pid s) \<and> full (sub_pid s)) (hub_subs h))\<rparr>
      | _ \<Rightarrow> h)"

definition hub_init :: "hub \<Rightarrow> bool" where
  "hub_init h \<longleftrightarrow> hub_subs h = [] \<and> hub_holder h = None \<and> hub_due h = 0"

text \<open>Steps: \<open>LOCK\<close>'s first section, its publication, the worker's heartbeat, an attachment, and any
  handler that leaves the broker's instance and epoch alone.\<close>

inductive hub_step :: "hub \<Rightarrow> hub \<Rightarrow> bool" where
  hub_lock: "hub_step h (h\<lparr>hub_broker := snd (lock_request m (hub_broker h)), hub_due := Suc (hub_due h)\<rparr>)"
| hub_publish: "hub_holder h = None \<Longrightarrow> 0 < hub_due h \<Longrightarrow>
    hub_step h ((publish_enter h)\<lparr>hub_due := hub_due h - 1\<rparr>)"
| hub_heartbeat: "hub_holder h = None \<Longrightarrow> hub_step h (publish_enter h)"
| hub_attach: "hub_holder h = None \<Longrightarrow> hub_step h (snd (attach_enter alive pid h))"
| hub_read: "hub_step h (read_current_event h)"
| hub_write: "hub_step h (write_event alive full h)"
| hub_other: "b_instance b = b_instance (hub_broker h) \<Longrightarrow> b_lock_epoch b = b_lock_epoch (hub_broker h) \<Longrightarrow>
    hub_step h (h\<lparr>hub_broker := b\<rparr>)"

section \<open>Heartbeats (\<open>worker.rs\<close>)\<close>

definition HEARTBEAT_INTERVAL :: duration where
  "HEARTBEAT_INTERVAL = from_secs 10"

text \<open>When the worker publishes: each of its rounds first looks at the time since its last heartbeat.
  A round is the instant of that look and the instant read after the publication; a round that finds
  a request ready ends when its decrypt does.\<close>

fun heartbeats :: "instant \<Rightarrow> (instant \<times> instant) list \<Rightarrow> instant list" where
  "heartbeats since [] = []"
| "heartbeats since ((t, u) # rounds) =
     (if HEARTBEAT_INTERVAL \<le> duration_since t since then t # heartbeats u rounds else heartbeats since rounds)"

section \<open>The invariant\<close>

definition hub_wf :: "hub \<Rightarrow> bool" where
  "hub_wf h \<longleftrightarrow>
     distinct (map sub_pid (hub_subs h)) \<and> length (hub_subs h) \<le> SUBSCRIBER_CAPACITY
     \<and> (case hub_holder h of
          Some (Attaching pid) \<Rightarrow> pid \<notin> sub_pid ` set (hub_subs h) \<and> length (hub_subs h) < SUBSCRIBER_CAPACITY
        | Some (AttachWriting pid _) \<Rightarrow> pid \<notin> sub_pid ` set (hub_subs h) \<and> length (hub_subs h) < SUBSCRIBER_CAPACITY
        | _ \<Rightarrow> True)"

definition subs_fresh :: "hub \<Rightarrow> bool" where
  "subs_fresh h \<longleftrightarrow> list_all (\<lambda>s. sub_event s = current_event (hub_broker h)) (hub_subs h)"

definition hub_fresh :: "hub \<Rightarrow> bool" where
  "hub_fresh h \<longleftrightarrow>
     0 < hub_due h
     \<or> (case hub_holder h of
          None \<Rightarrow> subs_fresh h
        | Some (Attaching _) \<Rightarrow> subs_fresh h
        | Some (AttachWriting _ line) \<Rightarrow> subs_fresh h \<and> line = current_event (hub_broker h)
        | Some Publishing \<Rightarrow> True
        | Some (PublishWriting line) \<Rightarrow> line = current_event (hub_broker h))"

definition hub_inv :: "hub \<Rightarrow> bool" where
  "hub_inv h \<longleftrightarrow> hub_wf h \<and> hub_fresh h"

lemma distinct_map_filter_sub: "distinct (map f xs) \<Longrightarrow> distinct (map f (filter P xs))"
  by (simp add: distinct_map_filter)

lemma hub_wf_attach:
  assumes "hub_wf h" and "hub_holder h = None"
  shows "hub_wf (snd (attach_enter alive pid h))"
  using assms length_filter_le [of "\<lambda>s. alive (sub_pid s) \<and> sub_pid s \<noteq> pid" "hub_subs h"]
  by (auto simp: hub_wf_def attach_enter_def Let_def distinct_map_filter_sub simp del: length_filter_le)

lemma hub_wf_write:
  assumes "hub_wf h"
  shows "hub_wf (write_event alive full h)"
  using assms length_filter_le [of "\<lambda>s. alive (sub_pid s) \<and> full (sub_pid s)" "hub_subs h"]
  by (auto simp: hub_wf_def write_event_def comp_def distinct_map_filter_sub simp del: length_filter_le split: option.splits hub_owner.splits)

lemma hub_fresh_attach:
  "hub_holder h = None \<Longrightarrow> hub_fresh h \<Longrightarrow> hub_fresh (snd (attach_enter alive pid h))"
  by (auto simp: hub_fresh_def attach_enter_def Let_def subs_fresh_def list_all_iff)

lemma hub_fresh_write: "hub_fresh h \<Longrightarrow> hub_fresh (write_event alive full h)"
  by (auto simp: hub_fresh_def write_event_def subs_fresh_def list_all_iff split: option.splits hub_owner.splits)

lemma hub_inv_step:
  assumes "hub_inv h" and "hub_step h h'"
  shows "hub_inv h'"
  using assms(2,1)
proof cases
  case (hub_attach alive pid)
  then show ?thesis
    using assms(1) by (simp add: hub_inv_def hub_wf_attach hub_fresh_attach)
next
  case (hub_write alive full)
  then show ?thesis
    using assms(1) by (simp add: hub_inv_def hub_wf_write hub_fresh_write)
qed (auto simp: hub_inv_def hub_wf_def hub_fresh_def subs_fresh_def publish_enter_def read_current_event_def current_event_def
    split: option.splits hub_owner.splits)

interpretation subscriber_hub: invariant_system hub_init hub_step hub_inv
proof
  fix h
  assume "hub_init h"
  then show "hub_inv h"
    by (simp add: hub_init_def hub_inv_def hub_wf_def hub_fresh_def subs_fresh_def)
qed (rule hub_inv_step)

text \<open>C10: No missed lock: however attachments, heartbeats and locks interleave, once every lock has
  published and the table's mutex is free, the last event each subscriber received in full names the
  broker's current instance and epoch, so it parses to them at the client; and the table holds at
  most eight subscribers, one per process.\<close>

theorem subscriber_never_stale:
  assumes "reach hub_init hub_step h" and "hub_due h = 0" and "hub_holder h = None"
    and "valid_event (b_instance (hub_broker h), b_lock_epoch (hub_broker h))"
  shows "(\<forall>s \<in> set (hub_subs h). parse_authority_event (sub_event s)
            = Some (b_instance (hub_broker h), b_lock_epoch (hub_broker h)))
     \<and> length (hub_subs h) \<le> 8 \<and> distinct (map sub_pid (hub_subs h))"
proof -
  have "hub_inv h"
    using assms(1) by (rule subscriber_hub.reach_inv)
  then show ?thesis
    using assms(2-4) by (auto simp: hub_inv_def hub_wf_def hub_fresh_def subs_fresh_def list_all_iff
        current_event_def parse_authority_event_print SUBSCRIBER_CAPACITY_def)
qed

text \<open>A run: a lock comes between the read of the epoch by an attaching peer and its entry in the
  table, and then publishes.\<close>

lemma lock_request_epoch:
  "b_lock_epoch (snd (lock_request m b)) = sat_add64 (b_lock_epoch b) 1"
  "b_instance (snd (lock_request m b)) = b_instance b"
  by (simp_all add: lock_request_def Let_def split: option.splits prod.splits)

definition hub_demo0 :: hub where
  "hub_demo0 = \<lparr>hub_subs = [], hub_holder = None, hub_broker = demo_b0\<lparr>b_instance := ''6e57''\<rparr>, hub_due = 0\<rparr>"

definition hub_demo_locked :: broker where
  "hub_demo_locked = snd (lock_request (demo_machine 10) (hub_broker hub_demo0))"

definition hub_demo1 :: hub where
  "hub_demo1 = \<lparr>hub_subs = [\<lparr>sub_pid = 7, sub_event = authority_event ''6e57'' 0\<rparr>], hub_holder = None,
     hub_broker = hub_demo_locked, hub_due = 1\<rparr>"

definition hub_demo2 :: hub where
  "hub_demo2 = \<lparr>hub_subs = [\<lparr>sub_pid = 7, sub_event = authority_event ''6e57'' 1\<rparr>], hub_holder = None,
     hub_broker = hub_demo_locked, hub_due = 0\<rparr>"

lemma hub_demo_locked_event:
  "b_instance hub_demo_locked = ''6e57''" "b_lock_epoch hub_demo_locked = 1"
  by (simp_all add: hub_demo_locked_def lock_request_epoch hub_demo0_def demo_b0_def broker_new_def sat_add64_def u64_max_def)

lemma hub_demo_attached: "reach hub_init hub_step hub_demo1"
proof -
  let ?on = "\<lambda>_::int. True"
  let ?a = "snd (attach_enter ?on 7 hub_demo0)"
  let ?r = "read_current_event ?a"
  let ?l = "?r\<lparr>hub_broker := snd (lock_request (demo_machine 10) (hub_broker ?r)), hub_due := Suc (hub_due ?r)\<rparr>"
  have "reach hub_init hub_step hub_demo0"
    by (rule reach_init) (simp add: hub_init_def hub_demo0_def)
  then have "reach hub_init hub_step ?a"
    by (rule reach_step) (rule hub_attach, simp add: hub_demo0_def)
  then have "reach hub_init hub_step ?r"
    by (rule reach_step) (rule hub_read)
  then have "reach hub_init hub_step ?l"
    by (rule reach_step) (rule hub_lock)
  then have "reach hub_init hub_step (write_event ?on ?on ?l)"
    by (rule reach_step) (rule hub_write)
  moreover have "write_event ?on ?on ?l = hub_demo1"
    by (simp add: write_event_def read_current_event_def attach_enter_def hub_demo0_def hub_demo1_def hub_demo_locked_def
        SUBSCRIBER_CAPACITY_def current_event_def demo_b0_def broker_new_def)
  ultimately show ?thesis
    by simp
qed

lemma hub_demo_published: "reach hub_init hub_step hub_demo2"
proof -
  let ?on = "\<lambda>_::int. True"
  let ?p = "(publish_enter hub_demo1)\<lparr>hub_due := hub_due hub_demo1 - 1\<rparr>"
  have "reach hub_init hub_step ?p"
    using hub_demo_attached by (rule reach_step) (rule hub_publish, simp_all add: hub_demo1_def)
  then have "reach hub_init hub_step (read_current_event ?p)"
    by (rule reach_step) (rule hub_read)
  then have "reach hub_init hub_step (write_event ?on ?on (read_current_event ?p))"
    by (rule reach_step) (rule hub_write)
  moreover have "write_event ?on ?on (read_current_event ?p) = hub_demo2"
    by (simp add: write_event_def read_current_event_def publish_enter_def hub_demo1_def hub_demo2_def current_event_def
        hub_demo_locked_event)
  ultimately show ?thesis
    by simp
qed

theorem subscriber_never_stale_witness:
  "map sub_event (hub_subs hub_demo1) = [authority_event ''6e57'' 0]
   \<and> map (\<lambda>s. parse_authority_event (sub_event s)) (hub_subs hub_demo2) = [Some (''6e57'', 1)]"
  using subscriber_never_stale [OF hub_demo_published]
  by (simp add: hub_demo1_def hub_demo2_def hub_demo_locked_event valid_event_def u64_max_def ascii_defs)

end
