(* ===== verification/Authority.thy ===== *)
theory Authority
  imports Subscribers BrowserGrants
begin

text \<open>
  The authority channel end to end: the broker's heartbeats against the read timeout of the browser
  service's subscription (\<open>secrets/src/server/worker.rs\<close> and
  \<open>forward/src/browser/subscription.rs\<close>).
\<close>

definition SUB_READ_TIMEOUT :: duration where
  "SUB_READ_TIMEOUT = from_secs 30"

text \<open>What the subscription's reads deliver, from the lines the broker wrote and when: a read that
  waits for the whole timeout fails.\<close>

fun timed_lines :: "instant \<Rightarrow> (instant \<times> string) list \<Rightarrow> string option list" where
  "timed_lines now [] = [None]"
| "timed_lines now ((t, l) # ls) =
     (if duration_since t now < SUB_READ_TIMEOUT then Some l # timed_lines t ls else [None])"

text \<open>A subscription attached at some instant and then kept by the heartbeats of the worker's rounds.\<close>

definition heartbeat_lines :: "broker \<Rightarrow> instant \<Rightarrow> (instant \<times> instant) list \<Rightarrow> (instant \<times> string) list" where
  "heartbeat_lines b since rounds = map (\<lambda>t. (t, current_event b)) (heartbeats since rounds)"

lemma subscription_event_timeout: "subscription_event sock None = Err (SubAttached BeConnect)"
  by (simp add: subscription_event_def)

section \<open>Regular rounds keep the subscription\<close>

text \<open>Rounds in order, each at most \<open>gap\<close> after the instant before it.\<close>

fun rounds_within :: "duration \<Rightarrow> instant \<Rightarrow> (instant \<times> instant) list \<Rightarrow> bool" where
  "rounds_within gap now [] \<longleftrightarrow> True"
| "rounds_within gap now ((t, u) # rounds) \<longleftrightarrow> now \<le> t \<and> t \<le> now + gap \<and> t \<le> u \<and> u \<le> t + gap \<and> rounds_within gap t rounds"

text \<open>The instants at which a subscriber hears from the broker are less than the timeout apart.\<close>

fun heard_in_time :: "instant \<Rightarrow> instant list \<Rightarrow> bool" where
  "heard_in_time heard [] \<longleftrightarrow> True"
| "heard_in_time heard (t # ts) \<longleftrightarrow> duration_since t heard < SUB_READ_TIMEOUT \<and> heard_in_time t ts"

lemma heartbeats_in_time:
  assumes "rounds_within gap now rounds" and "3 * gap < from_secs 20"
    and "heard \<le> since" and "since \<le> heard + gap" and "now < since + HEARTBEAT_INTERVAL + gap"
  shows "heard_in_time heard (heartbeats since rounds)"
  using assms(1,3-)
proof (induction rounds arbitrary: now heard since)
  case (Cons r rounds)
  obtain t u where r: "r = (t, u)"
    by fastforce
  show ?case
  proof (cases "HEARTBEAT_INTERVAL \<le> duration_since t since")
    case True
    have "heard_in_time t (heartbeats u rounds)"
      using Cons.IH [of t t u] Cons.prems r by (auto simp: HEARTBEAT_INTERVAL_def from_secs_def nanos_per_sec_def)
    then show ?thesis
      using True Cons.prems assms(2) r
      by (auto simp: duration_since_def SUB_READ_TIMEOUT_def HEARTBEAT_INTERVAL_def from_secs_def nanos_per_sec_def)
  next
    case False
    then show ?thesis
      using Cons.IH [of t heard since] Cons.prems r
      by (auto simp: duration_since_def HEARTBEAT_INTERVAL_def)
  qed
qed simp

lemma timed_lines_heard:
  "heard_in_time heard ts \<Longrightarrow> timed_lines heard (map (\<lambda>t. (t, l)) ts) = replicate (length ts) (Some l) @ [None]"
  by (induction ts arbitrary: heard) auto

definition event_identity :: "socket_identity \<Rightarrow> broker \<Rightarrow> broker_identity" where
  "event_identity sock b = \<lparr>bi_instance = b_instance b, bi_epoch = b_lock_epoch b, bi_socket = sock\<rparr>"

lemma subscription_event_current:
  assumes "valid_event (b_instance b, b_lock_epoch b)"
  shows "subscription_event sock (Some (current_event b)) = Ok (event_identity sock b)"
proof -
  have "list_all is_ascii (current_event b)"
    using assms show_nat_digits [of "b_lock_epoch b"]
    by (auto simp: current_event_def authority_event_def valid_event_def list_all_iff ascii_defs)
  moreover have "current_event b \<noteq> []" "current_event b \<noteq> SUBSCRIBER_CAPACITY_RESPONSE"
    by (simp_all add: current_event_def authority_event_def SUBSCRIBER_CAPACITY_RESPONSE_def)
  ultimately show ?thesis
    using assms by (simp add: subscription_event_def utf8_valid_ascii event_identity_def current_event_def
        parse_authority_event_print)
qed

lemma subscription_loop_replicate:
  "subscription_event sock (Some l) = Ok auth \<Longrightarrow>
   subscription_loop sock (replicate n (Some l) @ [None]) = (replicate n auth, Some (SubAttached BeConnect))"
  by (induction n) (simp_all add: subscription_event_timeout)

text \<open>The heartbeats suffice for an idle worker: while its rounds come at most \<open>gap\<close> apart, with
  three gaps under twenty seconds, the subscription of the browser service hears every heartbeat and
  sees the broker's current identity each time; no read in between times out.\<close>

theorem heartbeats_keep_subscription:
  assumes "valid_event (b_instance b, b_lock_epoch b)"
    and "rounds_within gap since rounds" and "3 * gap < from_secs 20"
  shows "fst (subscription_loop sock (timed_lines since (heartbeat_lines b since rounds)))
    = replicate (length (heartbeats since rounds)) (event_identity sock b)"
proof -
  have "heard_in_time since (heartbeats since rounds)"
    by (rule heartbeats_in_time [OF assms(2,3)]) (simp_all add: HEARTBEAT_INTERVAL_def from_secs_def nanos_per_sec_def)
  then show ?thesis
    using subscription_loop_replicate [OF subscription_event_current [OF assms(1)]]
    by (simp add: heartbeat_lines_def timed_lines_heard)
qed

definition demo_sock :: socket_identity where
  "demo_sock = \<lparr>si_device = 1, si_inode = 2\<rparr>"

theorem heartbeats_keep_subscription_witness:
  "fst (subscription_loop demo_sock (timed_lines 0 (heartbeat_lines hub_demo_locked 0
      [(from_secs 5, from_secs 5), (from_secs 10, from_secs 10), (from_secs 15, from_secs 15), (from_secs 20, from_secs 20)])))
    = replicate 2 (event_identity demo_sock hub_demo_locked)"
proof -
  let ?rounds = "[(from_secs 5, from_secs 5), (from_secs 10, from_secs 10), (from_secs 15, from_secs 15), (from_secs 20, from_secs 20)]"
  have "valid_event (b_instance hub_demo_locked, b_lock_epoch hub_demo_locked)"
    by (simp add: hub_demo_locked_event valid_event_def u64_max_def ascii_defs)
  moreover have "rounds_within (from_secs 5) 0 ?rounds" "3 * from_secs 5 < from_secs 20"
    by (simp_all add: from_secs_def nanos_per_sec_def)
  moreover have "length (heartbeats 0 ?rounds) = 2"
    by (simp add: HEARTBEAT_INTERVAL_def duration_since_def from_secs_def nanos_per_sec_def)
  ultimately show ?thesis
    using heartbeats_keep_subscription [of hub_demo_locked "from_secs 5" 0 ?rounds demo_sock] by simp
qed

section \<open>A decrypt starves it\<close>



end
