(* ===== verification/LeaseSafety.thy ===== *)
theory LeaseSafety
  imports Leases "HOL-Library.Multiset"
begin

text \<open>
  The invariant of the laptop's callback threads.  Every bound IPv4 listener belongs to exactly one
  thread, a lease counts the releases its threads still owe, and a listener that accepts under
  a lowered stop flag belongs to the lease in the table.
\<close>

section \<open>What a thread holds and owes\<close>

fun holds4 :: "task \<Rightarrow> (port \<times> stop_flag) list" where
  "holds4 (BindV6 p own ttl f) = [(p, f)]"
| "holds4 (InsertLease p own ttl f six) = [(p, f)]"
| "holds4 (SpawnV4 p own f six) = [(p, f)]"
| "holds4 (Accepting Inet4 p own f) = [(p, f)]"
| "holds4 _ = []"

fun unlisted :: "stop_flag \<Rightarrow> task \<Rightarrow> nat" where
  "unlisted f (BindV6 p own ttl g) = of_bool (g = f)"
| "unlisted f (InsertLease p own ttl g six) = of_bool (g = f)"
| "unlisted f _ = 0"

fun due :: "stop_flag \<Rightarrow> task \<Rightarrow> nat" where
  "due f (SpawnV4 p own g six) = (if g = f then 1 + of_bool six else 0)"
| "due f (ReleaseV4 p g six) = (if g = f then 1 + of_bool six else 0)"
| "due f (DropV6 p g) = of_bool (g = f)"
| "due f (ReleaseV6 p g) = of_bool (g = f)"
| "due f (SpawnV6 p own g) = of_bool (g = f)"
| "due f (ReleaseUnspawned p g) = of_bool (g = f)"
| "due f (Accepting fam p own g) = of_bool (g = f)"
| "due f (ReleaseLoop p g) = of_bool (g = f)"
| "due f _ = 0"

fun owes :: "task \<Rightarrow> (port \<times> stop_flag) option" where
  "owes (SpawnV4 p own f six) = Some (p, f)"
| "owes (ReleaseV4 p f six) = Some (p, f)"
| "owes (DropV6 p f) = Some (p, f)"
| "owes (ReleaseV6 p f) = Some (p, f)"
| "owes (SpawnV6 p own f) = Some (p, f)"
| "owes (ReleaseUnspawned p f) = Some (p, f)"
| "owes (Accepting fam p own f) = Some (p, f)"
| "owes (ReleaseLoop p f) = Some (p, f)"
| "owes _ = None"

fun serving4 :: "task \<Rightarrow> (port \<times> socket_addr \<times> stop_flag) option" where
  "serving4 (SpawnV4 p own f six) = Some (p, own, f)"
| "serving4 (Accepting Inet4 p own f) = Some (p, own, f)"
| "serving4 _ = None"

fun serving6 :: "task \<Rightarrow> (port \<times> socket_addr \<times> stop_flag) option" where
  "serving6 (SpawnV6 p own f) = Some (p, own, f)"
| "serving6 (Accepting Inet6 p own f) = Some (p, own, f)"
| "serving6 _ = None"

definition total_of :: "(task \<Rightarrow> nat) \<Rightarrow> task list \<Rightarrow> nat" where
  "total_of w ts = sum_list (map w ts)"

definition table_flags :: "cb_state \<Rightarrow> stop_flag set" where
  "table_flags st = {f. \<exists>p l. map_of (cb_table st) p = Some l \<and> l_stop l = f}"

definition listeners_ok :: "cb_state \<Rightarrow> task list \<Rightarrow> bool" where
  "listeners_ok st ts \<longleftrightarrow> distinct (map fst (cb_v4 st)) \<and> mset (concat (map holds4 ts)) = mset (cb_v4 st)"

definition flags_ok :: "cb_state \<Rightarrow> task list \<Rightarrow> bool" where
  "flags_ok st ts \<longleftrightarrow>
     (\<forall>f. cb_next st \<le> f \<longrightarrow> total_of (unlisted f) ts = 0 \<and> total_of (due f) ts = 0 \<and> f \<notin> table_flags st)
     \<and> (\<forall>f. total_of (unlisted f) ts \<le> 1
          \<and> (0 < total_of (unlisted f) ts \<longrightarrow> total_of (due f) ts = 0 \<and> f \<notin> table_flags st))"

definition counts_ok :: "cb_state \<Rightarrow> task list \<Rightarrow> bool" where
  "counts_ok st ts \<longleftrightarrow>
     distinct (map fst (cb_table st))
     \<and> (\<forall>p q l m. map_of (cb_table st) p = Some l \<and> map_of (cb_table st) q = Some m
          \<and> l_stop l = l_stop m \<longrightarrow> p = q)
     \<and> (\<forall>p l. map_of (cb_table st) p = Some l \<longrightarrow> l_listeners l = total_of (due (l_stop l)) ts)
     \<and> (\<forall>t \<in> set ts. \<forall>p f q l. owes t = Some (p, f) \<and> map_of (cb_table st) q = Some l \<and> l_stop l = f \<longrightarrow> q = p)"

definition serving_ok :: "cb_state \<Rightarrow> task list \<Rightarrow> bool" where
  "serving_ok st ts \<longleftrightarrow>
     (\<forall>t \<in> set ts. \<forall>p own f. serving4 t = Some (p, own, f) \<and> f \<notin> cb_stopped st \<longrightarrow>
        (\<exists>l. map_of (cb_table st) p = Some l \<and> l_stop l = f \<and> l_owner l = own))
     \<and> (\<forall>t \<in> set ts. \<forall>p own f. serving6 t = Some (p, own, f) \<and> f \<notin> cb_stopped st \<longrightarrow>
        Accepting Inet4 p own f \<in> set ts)"

definition cb_inv :: "cb_system \<Rightarrow> bool" where
  "cb_inv s \<longleftrightarrow>
     listeners_ok (cs_state s) (cs_tasks s) \<and> flags_ok (cs_state s) (cs_tasks s)
     \<and> counts_ok (cs_state s) (cs_tasks s) \<and> serving_ok (cs_state s) (cs_tasks s)"

lemma total_of_append [simp]: "total_of w (xs @ ys) = total_of w xs + total_of w ys"
  by (simp add: total_of_def)

lemma total_of_Cons [simp]: "total_of w (x # xs) = w x + total_of w xs"
  by (simp add: total_of_def)

lemma total_of_Nil [simp]: "total_of w [] = 0"
  by (simp add: total_of_def)

lemma total_of_ge: "t \<in> set ts \<Longrightarrow> w t \<le> total_of w ts"
  by (auto simp: total_of_def intro: member_le_sum_list)

lemma serving4_due: "serving4 t = Some (p, own, f) \<Longrightarrow> 1 \<le> due f t \<and> (p, f) \<in> set (holds4 t)"
  by (cases t rule: serving4.cases) auto

lemma map_of_update: "map_of (AList.update k v xs) k' = (if k' = k then Some v else map_of xs k')"
  by (simp add: update_conv')

lemma map_of_delete: "map_of (AList.delete k xs) k' = (if k' = k then None else map_of xs k')"
  by (simp add: delete_conv')

section \<open>Listeners\<close>

lemma drop_listener_mset:
  "distinct (map fst ls) \<Longrightarrow> mset (drop_listener p f ls) = mset ls - {#(p, f)#}"
proof (induction ls)
  case (Cons a ls)
  show ?case
  proof (cases "a = (p, f)")
    case True
    then have "(p, f) \<notin> set ls"
      using Cons.prems by force
    then have "filter (\<lambda>x. x \<noteq> (p, f)) ls = ls"
      by (auto simp: filter_id_conv)
    then show ?thesis
      using True by (simp add: drop_listener_def)
  next
    case False
    then have "mset (drop_listener p f (a # ls)) = add_mset a (mset ls - {#(p, f)#})"
      using Cons by (simp add: drop_listener_def)
    then show ?thesis
      using False by simp
  qed
qed (simp add: drop_listener_def)

lemma drop_listener_distinct: "distinct (map fst ls) \<Longrightarrow> distinct (map fst (drop_listener p f ls))"
  by (simp add: drop_listener_def distinct_map_filter)

lemma lease_release_keeps:
  "cb_v4 (snd (lease_release p f st)) = cb_v4 st" "cb_v6 (snd (lease_release p f st)) = cb_v6 st"
  "cb_next (snd (lease_release p f st)) = cb_next st"
  by (auto simp: lease_release_def split: option.splits)

lemma lease_insert_keeps:
  "lease_insert p own ttl f n now st = Some st' \<Longrightarrow>
   cb_v4 st' = cb_v4 st \<and> cb_v6 st' = cb_v6 st \<and> cb_next st' = cb_next st"
  by (auto simp: lease_insert_def)

lemma listeners_advance:
  assumes "listeners_ok st (xs @ t # ys)" and "advance_task env t st = Some (ts, st')"
  shows "listeners_ok st' (xs @ ts @ ys)"
proof -
  define rest where "rest = mset (concat (map holds4 xs)) + mset (concat (map holds4 ys))"
  have d: "distinct (map fst (cb_v4 st))" and m: "mset (cb_v4 st) = mset (holds4 t) + rest"
    using assms(1) by (auto simp: listeners_ok_def rest_def ac_simps)
  have "distinct (map fst (cb_v4 st')) \<and> mset (concat (map holds4 ts)) + rest = mset (cb_v4 st')"
    using assms(2) d m
    by (cases t rule: holds4.cases)
      (auto simp: Let_def accept_step_def lease_release_keeps drop_listener_distinct drop_listener_mset
        dest!: lease_insert_keeps split: if_splits)
  then show ?thesis
    by (simp add: listeners_ok_def rest_def ac_simps)
qed

section \<open>Flags and counts\<close>

lemma release_flags: "table_flags (snd (lease_release p f st)) \<subseteq> table_flags st"
  by (auto simp: table_flags_def lease_release_def map_of_update map_of_delete split: option.splits if_splits)

lemma insert_flags:
  "lease_insert p own ttl f n now st = Some st' \<Longrightarrow> table_flags st' \<subseteq> insert f (table_flags st)"
  by (fastforce simp: table_flags_def lease_insert_def map_of_update split: if_splits)

lemma table_flags_update [simp]:
  "table_flags (st\<lparr>cb_v4 := v4\<rparr>) = table_flags st" "table_flags (st\<lparr>cb_v6 := v4\<rparr>) = table_flags st"
  "table_flags (st\<lparr>cb_stopped := x\<rparr>) = table_flags st" "table_flags (st\<lparr>cb_next := n\<rparr>) = table_flags st"
  by (simp_all add: table_flags_def)

lemma flags_replace:
  assumes "flags_ok st (xs @ t # ys)" and "cb_next st \<le> cb_next st'"
    and "\<And>f. total_of (unlisted f) ts \<le> unlisted f t" and "\<And>f. total_of (due f) ts \<le> due f t"
    and "table_flags st' \<subseteq> table_flags st"
  shows "flags_ok st' (xs @ ts @ ys)"
proof -
  have u: "total_of (unlisted f) (xs @ ts @ ys) \<le> total_of (unlisted f) (xs @ t # ys)"
    and d: "total_of (due f) (xs @ ts @ ys) \<le> total_of (due f) (xs @ t # ys)" for f
    using assms(3,4) [of f] by simp_all
  show ?thesis
    unfolding flags_ok_def
  proof (intro conjI allI impI)
    fix f
    {
      assume "cb_next st' \<le> f"
      then have "total_of (unlisted f) (xs @ t # ys) = 0" "total_of (due f) (xs @ t # ys) = 0" "f \<notin> table_flags st"
        using assms(1,2) le_trans unfolding flags_ok_def by blast+
      then show "total_of (unlisted f) (xs @ ts @ ys) = 0" "total_of (due f) (xs @ ts @ ys) = 0" "f \<notin> table_flags st'"
        using u [of f] d [of f] assms(5) by auto
    }
    show "total_of (unlisted f) (xs @ ts @ ys) \<le> 1"
      using assms(1) u [of f] unfolding flags_ok_def by (meson le_trans)
    assume "0 < total_of (unlisted f) (xs @ ts @ ys)"
    then have "total_of (due f) (xs @ t # ys) = 0" "f \<notin> table_flags st"
      using assms(1) u [of f] unfolding flags_ok_def by (meson less_le_trans)+
    then show "total_of (due f) (xs @ ts @ ys) = 0" "f \<notin> table_flags st'"
      using d [of f] assms(5) by auto
  qed
qed

lemma flags_bind:
  assumes "flags_ok st (xs @ BindV4 p own ttl # ys)" and "table_flags st' = table_flags st"
    and "cb_next st' = Suc (cb_next st)"
  shows "flags_ok st' (xs @ BindV6 b own ttl (cb_next st) # ys)"
  using assms unfolding flags_ok_def by (auto simp: Suc_le_eq of_bool_def)

lemma flags_okD:
  assumes "flags_ok st ts"
  shows "cb_next st \<le> f \<Longrightarrow> total_of (unlisted f) ts = 0 \<and> total_of (due f) ts = 0 \<and> f \<notin> table_flags st"
    and "total_of (unlisted f) ts \<le> 1"
    and "0 < total_of (unlisted f) ts \<Longrightarrow> total_of (due f) ts = 0 \<and> f \<notin> table_flags st"
  using assms unfolding flags_ok_def by blast+

lemma flags_insert:
  assumes "flags_ok st (xs @ InsertLease p own ttl f six # ys)"
    and "lease_insert p own ttl f n now st = Some st'"
  shows "flags_ok st' (xs @ SpawnV4 p own f six # ys)"
proof -
  have f: "total_of (unlisted f) (xs @ ys) = 0" "total_of (due f) (xs @ ys) = 0" "f < cb_next st"
    using flags_okD [OF assms(1), of f] by (auto simp: not_le [symmetric])
  have old: "cb_next st \<le> g \<Longrightarrow> total_of (unlisted g) (xs @ ys) = 0 \<and> total_of (due g) (xs @ ys) = 0 \<and> g \<notin> table_flags st"
    "total_of (unlisted g) (xs @ ys) \<le> 1"
    "0 < total_of (unlisted g) (xs @ ys) \<Longrightarrow> total_of (due g) (xs @ ys) = 0 \<and> g \<notin> table_flags st" for g
    using flags_okD [OF assms(1), of g] by auto
  have new: "table_flags st' \<subseteq> insert f (table_flags st)" "cb_next st' = cb_next st"
    using assms(2) insert_flags lease_insert_keeps by blast+
  show ?thesis
    unfolding flags_ok_def
  proof (intro conjI allI impI)
    fix g
    {
      assume "cb_next st' \<le> g"
      then have "g \<noteq> f" "cb_next st \<le> g" using f(3) new(2) by auto
      then show "total_of (unlisted g) (xs @ SpawnV4 p own f six # ys) = 0"
        "total_of (due g) (xs @ SpawnV4 p own f six # ys) = 0" "g \<notin> table_flags st'"
        using old(1) [of g] new(1) by auto
    }
    show "total_of (unlisted g) (xs @ SpawnV4 p own f six # ys) \<le> 1"
      using old(2) [of g] by simp
    assume "0 < total_of (unlisted g) (xs @ SpawnV4 p own f six # ys)"
    then have "0 < total_of (unlisted g) (xs @ ys)" "g \<noteq> f"
      using f(1) by (auto intro: ccontr)
    then show "total_of (due g) (xs @ SpawnV4 p own f six # ys) = 0" "g \<notin> table_flags st'"
      using old(3) [of g] new(1) by auto
  qed
qed

lemma flags_advance:
  assumes "flags_ok st (xs @ t # ys)" and "advance_task env t st = Some (ts, st')"
  shows "flags_ok st' (xs @ ts @ ys)"
proof (cases "(\<exists>p own ttl. t = BindV4 p own ttl \<and> cb_next st' = Suc (cb_next st)) \<or> (\<exists>p own ttl f six. t = InsertLease p own ttl f six)")
  case True
  then show ?thesis
    using assms flags_bind flags_insert
    by (auto simp: Let_def split: if_splits)
next
  case False
  then have "cb_next st \<le> cb_next st' \<and> (\<forall>f. total_of (unlisted f) ts \<le> unlisted f t)
      \<and> (\<forall>f. total_of (due f) ts \<le> due f t) \<and> table_flags st' \<subseteq> table_flags st"
    using assms(2)
    by (cases t) (auto simp: Let_def accept_step_def lease_release_keeps split: if_splits family.splits dest: subsetD [OF release_flags])
  then show ?thesis
    using flags_replace [OF assms(1)] by blast
qed

lemma owes_due: "owes t = Some (p, f) \<Longrightarrow> 1 \<le> due f t"
  by (cases t) auto

lemma counts_okD:
  assumes "counts_ok st ts"
  shows "distinct (map fst (cb_table st))"
    and "map_of (cb_table st) p = Some l \<Longrightarrow> map_of (cb_table st) q = Some m \<Longrightarrow> l_stop l = l_stop m \<Longrightarrow> p = q"
    and "map_of (cb_table st) p = Some l \<Longrightarrow> l_listeners l = total_of (due (l_stop l)) ts"
    and "t \<in> set ts \<Longrightarrow> owes t = Some (p, f) \<Longrightarrow> map_of (cb_table st) q = Some l \<Longrightarrow> l_stop l = f \<Longrightarrow> q = p"
  using assms unfolding counts_ok_def by blast+

lemma counts_okI:
  assumes "distinct (map fst (cb_table st))"
    and "\<And>p q l m. map_of (cb_table st) p = Some l \<Longrightarrow> map_of (cb_table st) q = Some m \<Longrightarrow> l_stop l = l_stop m \<Longrightarrow> p = q"
    and "\<And>p l. map_of (cb_table st) p = Some l \<Longrightarrow> l_listeners l = total_of (due (l_stop l)) ts"
    and "\<And>t p f q l. t \<in> set ts \<Longrightarrow> owes t = Some (p, f) \<Longrightarrow> map_of (cb_table st) q = Some l \<Longrightarrow> l_stop l = f \<Longrightarrow> q = p"
  shows "counts_ok st ts"
  using assms unfolding counts_ok_def by blast

lemma owed_before:
  assumes "u \<in> set (xs @ ts @ ys)" and "owes u = Some x"
    and "\<And>u x. u \<in> set ts \<Longrightarrow> owes u = Some x \<Longrightarrow> owes t = Some x"
  shows "\<exists>v \<in> set (xs @ t # ys). owes v = Some x"
proof (cases "u \<in> set ts")
  case True
  then have "owes t = Some x"
    using assms(2,3) by blast
  then show ?thesis by auto
next
  case False
  then show ?thesis
    using assms(1,2) by auto
qed

lemma counts_replace:
  assumes c: "counts_ok st (xs @ t # ys)" and tab: "cb_table st' = cb_table st"
    and d: "\<And>f. total_of (due f) ts = due f t" and ow: "\<And>u x. u \<in> set ts \<Longrightarrow> owes u = Some x \<Longrightarrow> owes t = Some x"
  shows "counts_ok st' (xs @ ts @ ys)"
proof (rule counts_okI)
  fix p l
  assume "map_of (cb_table st') p = Some l"
  then show "l_listeners l = total_of (due (l_stop l)) (xs @ ts @ ys)"
    using counts_okD(3) [OF c] tab d by simp
next
  fix u p f q l
  assume u: "u \<in> set (xs @ ts @ ys)" "owes u = Some (p, f)" and q: "map_of (cb_table st') q = Some l" "l_stop l = f"
  obtain v where "v \<in> set (xs @ t # ys)" "owes v = Some (p, f)"
    using owed_before [OF u] ow by blast
  then show "q = p"
    using counts_okD(4) [OF c] q tab by metis
next
  fix p q l m
  assume "map_of (cb_table st') p = Some l" "map_of (cb_table st') q = Some m" "l_stop l = l_stop m"
  then show "p = q"
    using counts_okD(2) [OF c] tab by simp
qed (simp add: tab counts_okD(1) [OF c])

text \<open>The table after a release, when the releasing thread's lease is still listed and when it is not.\<close>

lemma release_listed:
  assumes "map_of (cb_table st) p = Some l" and "l_stop l = f"
  shows "map_of (cb_table (snd (lease_release p f st))) q =
      (if q = p then if l_listeners l - 1 = 0 then None else Some (l\<lparr>l_listeners := l_listeners l - 1\<rparr>)
       else map_of (cb_table st) q)"
  using assms by (simp add: lease_release_def map_of_update map_of_delete)

lemma release_unlisted:
  assumes "\<And>l. map_of (cb_table st) p = Some l \<Longrightarrow> l_stop l \<noteq> f"
  shows "snd (lease_release p f st) = st"
  using assms by (auto simp: lease_release_def split: option.splits)

lemma release_distinct:
  "distinct (map fst (cb_table st)) \<Longrightarrow> distinct (map fst (cb_table (snd (lease_release p f st))))"
  by (auto simp: lease_release_def distinct_update distinct_delete split: option.splits)

lemma release_entry:
  assumes "map_of (cb_table (snd (lease_release p f st))) q = Some m"
  shows "\<exists>l. map_of (cb_table st) q = Some l \<and> l_stop m = l_stop l \<and> l_owner m = l_owner l"
  using assms by (auto simp: lease_release_def map_of_update map_of_delete split: option.splits if_splits)

lemma counts_release:
  assumes c: "counts_ok st (xs @ t # ys)" and t: "owes t = Some (p, f)"
    and d: "\<And>g. due g t = total_of (due g) ts + of_bool (g = f)"
    and ow: "\<And>u x. u \<in> set ts \<Longrightarrow> owes u = Some x \<Longrightarrow> owes t = Some x"
  shows "counts_ok (snd (lease_release p f st)) (xs @ ts @ ys)"
proof (rule counts_okI)
  show "distinct (map fst (cb_table (snd (lease_release p f st))))"
    by (rule release_distinct) (rule counts_okD(1) [OF c])
next
  fix q r l m
  assume "map_of (cb_table (snd (lease_release p f st))) q = Some l"
    "map_of (cb_table (snd (lease_release p f st))) r = Some m" "l_stop l = l_stop m"
  then show "q = r"
    using release_entry [of p f st q l] release_entry [of p f st r m] counts_okD(2) [OF c, of q _ r] by metis
next
  fix u q g r l
  assume u: "u \<in> set (xs @ ts @ ys)" "owes u = Some (q, g)"
    and r: "map_of (cb_table (snd (lease_release p f st))) r = Some l" "l_stop l = g"
  obtain v where "v \<in> set (xs @ t # ys)" "owes v = Some (q, g)"
    using owed_before [OF u] ow by blast
  then show "r = q"
    using release_entry [OF r(1)] r(2) counts_okD(4) [OF c] by metis
next
  fix q m
  assume m: "map_of (cb_table (snd (lease_release p f st))) q = Some m"
  then obtain l where l: "map_of (cb_table st) q = Some l" "l_stop m = l_stop l"
    using release_entry by blast
  have count: "l_listeners l = total_of (due (l_stop l)) (xs @ t # ys)"
    by (rule counts_okD(3) [OF c l(1)])
  have same: "l_stop l = f \<longleftrightarrow> q = p \<and> l_stop l = f"
    using counts_okD(4) [OF c _ t l(1)] by auto
  show "l_listeners m = total_of (due (l_stop m)) (xs @ ts @ ys)"
  proof (cases "l_stop l = f")
    case True
    then have "q = p" using same by blast
    then have "m = l\<lparr>l_listeners := l_listeners l - 1\<rparr>"
      using m release_listed [of st p l f p] l(1) True by (simp split: if_splits)
    then show ?thesis
      using count d [of f] True l(2) by simp
  next
    case False
    then have "l_listeners m = l_listeners l"
      using m l(1) release_unlisted [of st p f] release_listed [of st p _ f q]
      by (cases "\<exists>k. map_of (cb_table st) p = Some k \<and> l_stop k = f") (auto split: if_splits)
    then show ?thesis
      using count d [of "l_stop l"] False l(2) by simp
  qed
qed

lemma counts_insert:
  assumes c: "counts_ok st (xs @ InsertLease p own ttl f six # ys)"
    and fl: "flags_ok st (xs @ InsertLease p own ttl f six # ys)"
    and i: "lease_insert p own ttl f (1 + of_bool six) now st = Some st'"
  shows "counts_ok st' (xs @ SpawnV4 p own f six # ys)"
proof -
  obtain dl where tab: "cb_table st' = AList.update p
      \<lparr>l_owner = own, l_deadline = dl, l_listeners = 1 + of_bool six, l_stop = f\<rparr> (cb_table st)"
    using i by (auto simp: lease_insert_def)
  have f: "total_of (due f) (xs @ ys) = 0" "f \<notin> table_flags st"
    using flags_okD(3) [OF fl, of f] by auto
  have nf: "l_stop l \<noteq> f" if "map_of (cb_table st) q = Some l" for q l
    using f(2) that by (auto simp: table_flags_def)
  have no: "u \<notin> set (xs @ ys)" if "owes u = Some (q, f)" for u q
    using owes_due [OF that] f(1) total_of_ge [of u "xs @ ys" "due f"] by fastforce
  show ?thesis
  proof (rule counts_okI)
    show "distinct (map fst (cb_table st'))"
      unfolding tab by (rule distinct_update) (rule counts_okD(1) [OF c])
  next
    fix q r l m
    assume "map_of (cb_table st') q = Some l" "map_of (cb_table st') r = Some m" "l_stop l = l_stop m"
    then show "q = r"
      using counts_okD(2) [OF c, of q l r m] nf [of q l] nf [of r m]
      unfolding tab map_of_update by (auto split: if_splits)
  next
    fix q l
    assume "map_of (cb_table st') q = Some l"
    then show "l_listeners l = total_of (due (l_stop l)) (xs @ SpawnV4 p own f six # ys)"
      using counts_okD(3) [OF c, of q l] nf [of q l] f(1)
      unfolding tab map_of_update by (auto split: if_splits)
  next
    fix u q g r l
    assume "u \<in> set (xs @ SpawnV4 p own f six # ys)" "owes u = Some (q, g)" "map_of (cb_table st') r = Some l" "l_stop l = g"
    then show "r = q"
      using counts_okD(4) [OF c, of u q g r l] nf [of r l] no [of u q]
      unfolding tab map_of_update by (auto split: if_splits)
  qed
qed

fun releasing :: "task \<Rightarrow> (port \<times> stop_flag) option" where
  "releasing (ReleaseV4 p f six) = Some (p, f)"
| "releasing (ReleaseV6 p f) = Some (p, f)"
| "releasing (ReleaseUnspawned p f) = Some (p, f)"
| "releasing (ReleaseLoop p f) = Some (p, f)"
| "releasing _ = None"

lemma releasing_step:
  assumes "releasing t = Some (p, f)" and "advance_task env t st = Some (ts, st')"
  shows "owes t = Some (p, f) \<and> st' = snd (lease_release p f st)
      \<and> (\<forall>g. due g t = total_of (due g) ts + of_bool (g = f)) \<and> (\<forall>u \<in> set ts. \<forall>x. owes u = Some x \<longrightarrow> owes t = Some x)"
  using assms by (cases t) (auto simp: of_bool_def split: if_splits)

lemma lease_quiet_step:
  assumes "releasing t = None" and "advance_task env t st = Some (ts, st')" and "\<nexists>p own ttl f six. t = InsertLease p own ttl f six"
  shows "cb_table st' = cb_table st \<and> (\<forall>f. total_of (due f) ts = due f t) \<and> (\<forall>u \<in> set ts. \<forall>x. owes u = Some x \<longrightarrow> owes t = Some x)"
  using assms by (cases t) (auto simp: Let_def accept_step_def split: if_splits family.splits)

lemma counts_advance:
  assumes "counts_ok st (xs @ t # ys)" and "flags_ok st (xs @ t # ys)" and "advance_task env t st = Some (ts, st')"
  shows "counts_ok st' (xs @ ts @ ys)"
proof (cases "\<exists>p own ttl f six. t = InsertLease p own ttl f six")
  case True
  then obtain p own ttl f six where t: "t = InsertLease p own ttl f six" by blast
  then show ?thesis
    using assms counts_insert [of st xs p own ttl f six ys "se_now env" st'] by auto
next
  case False
  show ?thesis
  proof (cases "releasing t")
    case None
    then show ?thesis
      using lease_quiet_step [OF None assms(3) False] counts_replace [OF assms(1)] by blast
  next
    case (Some x)
    then show ?thesis
      using releasing_step [of t "fst x" "snd x"] assms(3) counts_release [OF assms(1)] by (metis prod.collapse)
  qed
qed

section \<open>Listeners and the lease they serve\<close>

lemma serving_okD:
  assumes "serving_ok st ts"
  shows "t \<in> set ts \<Longrightarrow> serving4 t = Some (p, own, f) \<Longrightarrow> f \<notin> cb_stopped st \<Longrightarrow>
      \<exists>l. map_of (cb_table st) p = Some l \<and> l_stop l = f \<and> l_owner l = own"
    and "t \<in> set ts \<Longrightarrow> serving6 t = Some (p, own, f) \<Longrightarrow> f \<notin> cb_stopped st \<Longrightarrow> Accepting Inet4 p own f \<in> set ts"
  using assms unfolding serving_ok_def by blast+

lemma serving_okI:
  assumes "\<And>t p own f. t \<in> set ts \<Longrightarrow> serving4 t = Some (p, own, f) \<Longrightarrow> f \<notin> cb_stopped st \<Longrightarrow>
      \<exists>l. map_of (cb_table st) p = Some l \<and> l_stop l = f \<and> l_owner l = own"
    and "\<And>t p own f. t \<in> set ts \<Longrightarrow> serving6 t = Some (p, own, f) \<Longrightarrow> f \<notin> cb_stopped st \<Longrightarrow> Accepting Inet4 p own f \<in> set ts"
  shows "serving_ok st ts"
  using assms unfolding serving_ok_def by blast

text \<open>A change of tasks that keeps every lowered flag's entry and starts no listener of its own.\<close>

lemma serving_replace:
  assumes s: "serving_ok st (xs @ t # ys)" and stop: "cb_stopped st \<subseteq> cb_stopped st'"
    and tab: "\<And>p l. map_of (cb_table st) p = Some l \<Longrightarrow> l_stop l \<notin> cb_stopped st' \<Longrightarrow>
        \<exists>m. map_of (cb_table st') p = Some m \<and> l_stop m = l_stop l \<and> l_owner m = l_owner l"
    and t4: "\<And>u x. u \<in> set ts \<Longrightarrow> serving4 u = Some x \<Longrightarrow> serving4 t = Some x"
    and t6: "\<And>u p own f. u \<in> set ts \<Longrightarrow> serving6 u = Some (p, own, f) \<Longrightarrow>
        serving6 t = Some (p, own, f) \<or> Accepting Inet4 p own f \<in> set ts"
    and keep: "\<And>p own f. t = Accepting Inet4 p own f \<Longrightarrow> f \<notin> cb_stopped st' \<Longrightarrow> t \<in> set ts"
  shows "serving_ok st' (xs @ ts @ ys)"
proof (rule serving_okI)
  fix u p own f
  assume u: "u \<in> set (xs @ ts @ ys)" "serving4 u = Some (p, own, f)" and f: "f \<notin> cb_stopped st'"
  have "\<exists>v \<in> set (xs @ t # ys). serving4 v = Some (p, own, f)"
    using u t4 [of u] by (cases "u \<in> set ts") auto
  then obtain l where "map_of (cb_table st) p = Some l" "l_stop l = f" "l_owner l = own"
    using serving_okD(1) [OF s] f stop by blast
  then show "\<exists>l. map_of (cb_table st') p = Some l \<and> l_stop l = f \<and> l_owner l = own"
    using tab f by blast
next
  fix u p own f
  assume u: "u \<in> set (xs @ ts @ ys)" "serving6 u = Some (p, own, f)" and f: "f \<notin> cb_stopped st'"
  show "Accepting Inet4 p own f \<in> set (xs @ ts @ ys)"
  proof (cases "u \<in> set ts \<and> serving6 t \<noteq> Some (p, own, f)")
    case True
    then show ?thesis
      using t6 [of u p own f] u(2) by auto
  next
    case False
    then have "\<exists>v \<in> set (xs @ t # ys). serving6 v = Some (p, own, f)"
      using u by auto
    then have "Accepting Inet4 p own f \<in> set (xs @ t # ys)"
      using serving_okD(2) [OF s] f stop by blast
    then show ?thesis
      using keep [of p own f] f by auto
  qed
qed

lemma held_listed: "listeners_ok st ts \<Longrightarrow> t \<in> set ts \<Longrightarrow> x \<in> set (holds4 t) \<Longrightarrow> x \<in> set (cb_v4 st)"
  unfolding listeners_ok_def using mset_eq_setD by fastforce

lemma serving_insert:
  assumes s: "serving_ok st (xs @ InsertLease p own ttl f six # ys)"
    and fl: "flags_ok st (xs @ InsertLease p own ttl f six # ys)"
    and li: "listeners_ok st (xs @ InsertLease p own ttl f six # ys)"
    and i: "lease_insert p own ttl f n now st = Some st'"
  shows "serving_ok st' (xs @ SpawnV4 p own f six # ys)"
proof (rule serving_okI)
  obtain dl where tab: "cb_table st' = AList.update p
      \<lparr>l_owner = own, l_deadline = dl, l_listeners = n, l_stop = f\<rparr> (cb_table st)"
    using i by (auto simp: lease_insert_def)
  have stop: "cb_stopped st \<subseteq> cb_stopped st'"
    using i by (auto simp: lease_insert_def split: option.splits)
  {
    fix u q o' g
    assume u: "u \<in> set (xs @ SpawnV4 p own f six # ys)" "serving4 u = Some (q, o', g)" and g: "g \<notin> cb_stopped st'"
    show "\<exists>l. map_of (cb_table st') q = Some l \<and> l_stop l = g \<and> l_owner l = o'"
    proof (cases "u \<in> set (xs @ ys)")
      case True
      have h: "(p, f) \<in> set (cb_v4 st)" "(q, g) \<in> set (cb_v4 st)"
        using held_listed [OF li] serving4_due [OF u(2)] True by fastforce+
      have "q \<noteq> p"
      proof
        assume "q = p"
        then have "g = f"
          using h li eq_key_imp_eq_value unfolding listeners_ok_def by metis
        moreover have "total_of (due f) (xs @ ys) = 0"
          using flags_okD(3) [OF fl, of f] by auto
        ultimately show False
          using serving4_due [OF u(2)] total_of_ge [OF True, of "due f"] by auto
      qed
      moreover have "\<exists>l. map_of (cb_table st) q = Some l \<and> l_stop l = g \<and> l_owner l = o'"
        using serving_okD(1) [OF s, of u q o' g] u True g stop by auto
      ultimately show ?thesis
        unfolding tab map_of_update by auto
    next
      case False
      then show ?thesis
        using u unfolding tab map_of_update by auto
    qed
  next
    fix u q o' g
    assume "u \<in> set (xs @ SpawnV4 p own f six # ys)" "serving6 u = Some (q, o', g)" "g \<notin> cb_stopped st'"
    then show "Accepting Inet4 q o' g \<in> set (xs @ SpawnV4 p own f six # ys)"
      using serving_okD(2) [OF s, of u q o' g] stop by auto
  }
qed

lemma release_kept:
  assumes "map_of (cb_table st) q = Some l" and "l_stop l \<notin> cb_stopped (snd (lease_release p f st))"
  shows "\<exists>m. map_of (cb_table (snd (lease_release p f st))) q = Some m \<and> l_stop m = l_stop l \<and> l_owner m = l_owner l"
  using assms by (auto simp: lease_release_def map_of_update map_of_delete split: option.splits if_splits)

lemma release_stopped: "cb_stopped st \<subseteq> cb_stopped (snd (lease_release p f st))"
  by (auto simp: lease_release_def split: option.splits)

lemma serving_advance:
  assumes "serving_ok st (xs @ t # ys)" and "flags_ok st (xs @ t # ys)" and "listeners_ok st (xs @ t # ys)"
    and a: "advance_task env t st = Some (ts, st')"
  shows "serving_ok st' (xs @ ts @ ys)"
proof (cases "\<exists>p own ttl f six. t = InsertLease p own ttl f six")
  case True
  then obtain p own ttl f six where t: "t = InsertLease p own ttl f six" by blast
  then show ?thesis
    using assms serving_insert [of st xs p own ttl f six ys] by auto
next
  case False
  have stop: "cb_stopped st \<subseteq> cb_stopped st'"
    using a False release_stopped
    by (cases t) (auto simp: Let_def accept_step_def split: if_splits family.splits)
  have tab: "\<exists>m. map_of (cb_table st') p = Some m \<and> l_stop m = l_stop l \<and> l_owner m = l_owner l"
    if "map_of (cb_table st) p = Some l" and "l_stop l \<notin> cb_stopped st'" for p l
    using a False that release_kept
    by (cases t) (auto simp: Let_def accept_step_def split: if_splits family.splits)
  have "(\<forall>u x. u \<in> set ts \<longrightarrow> serving4 u = Some x \<longrightarrow> serving4 t = Some x)
      \<and> (\<forall>u p own f. u \<in> set ts \<longrightarrow> serving6 u = Some (p, own, f) \<longrightarrow>
          serving6 t = Some (p, own, f) \<or> Accepting Inet4 p own f \<in> set ts)
      \<and> (\<forall>p own f. t = Accepting Inet4 p own f \<longrightarrow> f \<notin> cb_stopped st' \<longrightarrow> t \<in> set ts)"
    using a False
    by (cases t) (auto simp: Let_def accept_step_def split: if_splits family.splits)
  then show ?thesis
    using serving_replace [OF assms(1) stop tab] by blast
qed

section \<open>The invariant of the system\<close>

lemma refresh_keeps:
  assumes "lease_refresh p own ttl now st = Some (r, st')"
  shows "distinct (map fst (cb_table st)) \<Longrightarrow> distinct (map fst (cb_table st'))"
    and "cb_stopped st' = cb_stopped st" and "cb_v4 st' = cb_v4 st" and "cb_next st' = cb_next st"
  using assms by (auto simp: lease_refresh_def distinct_update split: option.splits if_splits)

definition same_lease :: "lease \<Rightarrow> lease \<Rightarrow> bool" where
  "same_lease l m \<longleftrightarrow> l_stop l = l_stop m \<and> l_owner l = l_owner m \<and> l_listeners l = l_listeners m"

lemma refresh_same:
  assumes "lease_refresh p own ttl now st = Some (r, st')"
  shows "map_of (cb_table st') q = Some m \<Longrightarrow> \<exists>l. map_of (cb_table st) q = Some l \<and> same_lease l m"
    and "map_of (cb_table st) q = Some l \<Longrightarrow> \<exists>m. map_of (cb_table st') q = Some m \<and> same_lease l m"
  using assms by (auto simp: lease_refresh_def map_of_update same_lease_def split: option.splits if_splits)

lemma refresh_flags:
  assumes "lease_refresh p own ttl now st = Some (r, st')"
  shows "table_flags st' = table_flags st"
proof (rule set_eqI, rule iffI)
  fix f
  assume "f \<in> table_flags st'"
  then obtain q m where "map_of (cb_table st') q = Some m" "l_stop m = f"
    unfolding table_flags_def by blast
  moreover from this obtain l where "map_of (cb_table st) q = Some l" "same_lease l m"
    using refresh_same(1) [OF assms] by blast
  ultimately show "f \<in> table_flags st"
    unfolding table_flags_def same_lease_def by blast
next
  fix f
  assume "f \<in> table_flags st"
  then obtain q l where "map_of (cb_table st) q = Some l" "l_stop l = f"
    unfolding table_flags_def by blast
  moreover from this obtain m where "map_of (cb_table st') q = Some m" "same_lease l m"
    using refresh_same(2) [OF assms] by blast
  ultimately show "f \<in> table_flags st'"
    unfolding table_flags_def same_lease_def by auto
qed

text \<open>A refresh changes no more than a deadline.\<close>

lemma refresh_inv:
  assumes "lease_refresh p own ttl now st = Some (r, st')"
  shows "listeners_ok st ts \<Longrightarrow> listeners_ok st' ts" and "flags_ok st ts \<Longrightarrow> flags_ok st' ts"
    and "counts_ok st ts \<Longrightarrow> counts_ok st' ts" and "serving_ok st ts \<Longrightarrow> serving_ok st' ts"
proof -
  show "listeners_ok st ts \<Longrightarrow> listeners_ok st' ts"
    using refresh_keeps [OF assms] by (simp add: listeners_ok_def)
  show "flags_ok st ts \<Longrightarrow> flags_ok st' ts"
    using refresh_keeps [OF assms] refresh_flags [OF assms] by (simp add: flags_ok_def)
  have orig: "\<exists>l. map_of (cb_table st) q = Some l \<and> l_stop l = l_stop m \<and> l_listeners l = l_listeners m"
    if "map_of (cb_table st') q = Some m" for q m
    using refresh_same(1) [OF assms that] unfolding same_lease_def by blast
  show "counts_ok st' ts" if c: "counts_ok st ts"
  proof (rule counts_okI)
    show "distinct (map fst (cb_table st'))"
      using refresh_keeps [OF assms] counts_okD(1) [OF c] by blast
  next
    fix q r l m
    assume q: "map_of (cb_table st') q = Some l" and r: "map_of (cb_table st') r = Some m" and "l_stop l = l_stop m"
    then show "q = r"
      using orig [OF q] orig [OF r] counts_okD(2) [OF c] by metis
  next
    fix q l
    assume q: "map_of (cb_table st') q = Some l"
    then show "l_listeners l = total_of (due (l_stop l)) ts"
      using orig [OF q] counts_okD(3) [OF c] by metis
  next
    fix t p f q l
    assume "t \<in> set ts" "owes t = Some (p, f)" and q: "map_of (cb_table st') q = Some l" and "l_stop l = f"
    then show "q = p"
      using orig [OF q] counts_okD(4) [OF c] by metis
  qed
  show "serving_ok st' ts" if s: "serving_ok st ts"
  proof (rule serving_okI)
    fix t p own f
    assume t: "t \<in> set ts" "serving4 t = Some (p, own, f)" "f \<notin> cb_stopped st'"
    then obtain l where l: "map_of (cb_table st) p = Some l" "l_stop l = f" "l_owner l = own"
      using serving_okD(1) [OF s, of t p own f] refresh_keeps(2) [OF assms] by auto
    then show "\<exists>l. map_of (cb_table st') p = Some l \<and> l_stop l = f \<and> l_owner l = own"
      using refresh_same(2) [OF assms l(1)] unfolding same_lease_def by auto
  next
    fix t p own f
    assume "t \<in> set ts" "serving6 t = Some (p, own, f)" "f \<notin> cb_stopped st'"
    then show "Accepting Inet4 p own f \<in> set ts"
      using serving_okD(2) [OF s, of t p own f] refresh_keeps(2) [OF assms] by auto
  qed
qed

lemma serve_on_cases:
  assumes "serve_on cfg p ttl now st = Some (t, st')"
  shows "(st' = st \<or> (\<exists>own r. lease_refresh p own ttl now st = Some (r, st')))
      \<and> ((\<exists>r. t = Served r) \<or> (\<exists>own. t = WaitReleased p own ttl \<or> t = BindV4 p own ttl))"
proof (cases "single_peer_ip cfg")
  case (Ok peer)
  show ?thesis
  proof (cases peer)
    case None
    then show ?thesis
      using assms Ok by (auto simp: serve_on_def)
  next
    case (Some ip)
    show ?thesis
    proof (cases "p = 0")
      case True
      then show ?thesis
        using assms Ok Some by (auto simp: serve_on_def)
    next
      case False
      then obtain r where r: "lease_refresh p (ip, fc_bridge_port cfg) ttl now st = Some (r, st')"
        and t: "t = (case r of RefreshLive \<Rightarrow> Served (Ok p) | RefreshOwned owner \<Rightarrow> Served (Err (OwnedPort p owner))
            | RefreshReleasing \<Rightarrow> WaitReleased p (ip, fc_bridge_port cfg) ttl | RefreshAbsent \<Rightarrow> BindV4 p (ip, fc_bridge_port cfg) ttl)"
        using assms Ok Some by (auto simp: serve_on_def Let_def)
      then show ?thesis
        by (cases r) auto
    qed
  qed
qed (use assms in \<open>auto simp: serve_on_def\<close>)

lemma serve_on_task:
  assumes "serve_on cfg p ttl now st = Some (t, st')"
  shows "st' = st \<or> (\<exists>own r. lease_refresh p own ttl now st = Some (r, st'))"
    and "holds4 t = []" and "unlisted f t = 0" and "due f t = 0" and "owes t = None"
    and "serving4 t = None" and "serving6 t = None"
  using serve_on_cases [OF assms] by auto

lemma new_task_inv:
  assumes "holds4 t = []" and "\<And>f. unlisted f t = 0" and "\<And>f. due f t = 0" and "owes t = None"
    and "serving4 t = None" and "serving6 t = None"
  shows "listeners_ok st ts \<Longrightarrow> listeners_ok st (ts @ [t])" and "flags_ok st ts \<Longrightarrow> flags_ok st (ts @ [t])"
    and "counts_ok st ts \<Longrightarrow> counts_ok st (ts @ [t])" and "serving_ok st ts \<Longrightarrow> serving_ok st (ts @ [t])"
proof -
  show "counts_ok st (ts @ [t])" if c: "counts_ok st ts"
    by (rule counts_okI) (use assms counts_okD [OF c] in \<open>auto simp del: map_of_eq_Some_iff\<close>)
  show "serving_ok st (ts @ [t])" if s: "serving_ok st ts"
    by (rule serving_okI) (use assms serving_okD [OF s] in auto)
qed (use assms in \<open>simp_all add: listeners_ok_def flags_ok_def\<close>)

lemma expire_inv:
  shows "listeners_ok st ts \<Longrightarrow> listeners_ok (lease_expire now st) ts"
    and "flags_ok st ts \<Longrightarrow> flags_ok (lease_expire now st) ts"
    and "counts_ok st ts \<Longrightarrow> counts_ok (lease_expire now st) ts"
    and "serving_ok st ts \<Longrightarrow> serving_ok (lease_expire now st) ts"
proof -
  have keep: "cb_table (lease_expire now st) = cb_table st" "cb_v4 (lease_expire now st) = cb_v4 st"
      "cb_next (lease_expire now st) = cb_next st" "cb_stopped st \<subseteq> cb_stopped (lease_expire now st)"
    by (simp_all add: lease_expire_def)
  show "serving_ok (lease_expire now st) ts" if s: "serving_ok st ts"
  proof (rule serving_okI)
    fix t p own f
    assume "t \<in> set ts" "serving4 t = Some (p, own, f)" "f \<notin> cb_stopped (lease_expire now st)"
    then show "\<exists>l. map_of (cb_table (lease_expire now st)) p = Some l \<and> l_stop l = f \<and> l_owner l = own"
      unfolding keep(1) using serving_okD(1) [OF s, of t p own f] keep(4) by auto
  next
    fix t p own f
    assume "t \<in> set ts" "serving6 t = Some (p, own, f)" "f \<notin> cb_stopped (lease_expire now st)"
    then show "Accepting Inet4 p own f \<in> set ts"
      using serving_okD(2) [OF s, of t p own f] keep(4) by auto
  qed
  show "counts_ok st ts \<Longrightarrow> counts_ok (lease_expire now st) ts"
    unfolding counts_ok_def keep(1) .
qed (simp_all add: listeners_ok_def flags_ok_def table_flags_def lease_expire_def)

lemma cb_inv_step: "cb_step s s' \<Longrightarrow> cb_inv s \<Longrightarrow> cb_inv s'"
proof (induction rule: cb_step.induct)
  case (serve_step cfg p ttl now s t st)
  note t = serve_on_task(2-) [OF serve_step(1)]
  have "listeners_ok st (cs_tasks s)" "flags_ok st (cs_tasks s)" "counts_ok st (cs_tasks s)" "serving_ok st (cs_tasks s)"
    using serve_on_task(1) [OF serve_step(1)] serve_step(2) refresh_inv unfolding cb_inv_def by metis+
  then show ?case
    using new_task_inv [OF t(1) t(2) t(3) t(4) t(5) t(6)] by (simp add: cb_inv_def)
next
  case (task_step s xs t ys env ts st)
  then show ?case
    using listeners_advance flags_advance counts_advance serving_advance unfolding cb_inv_def
    by (metis cb_system.select_convs)
next
  case (expire_step s now)
  then show ?case
    using expire_inv by (simp add: cb_inv_def)
qed

lemma cb_inv_init: "cb_init s \<Longrightarrow> cb_inv s"
  by (simp add: cb_init_def cb_inv_def listeners_ok_def flags_ok_def table_flags_def counts_ok_def serving_ok_def)

interpretation callbacks: invariant_system cb_init cb_step cb_inv
  by unfold_locales (auto intro: cb_inv_init cb_inv_step)

section \<open>Properties\<close>

lemma accepting_owner:
  assumes "cb_inv s" and "Accepting fam p own f \<in> set (cs_tasks s)" and "f \<notin> cb_stopped (cs_state s)"
  shows "\<exists>l. map_of (cb_table (cs_state s)) p = Some l \<and> l_stop l = f \<and> l_owner l = own"
proof -
  have s: "serving_ok (cs_state s) (cs_tasks s)"
    using assms(1) by (simp add: cb_inv_def)
  have "Accepting Inet4 p own f \<in> set (cs_tasks s)"
    using serving_okD(2) [OF s, of "Accepting fam p own f" p own f] assms by (cases fam) auto
  then show ?thesis
    using serving_okD(1) [OF s, of "Accepting Inet4 p own f" p own f] assms(3) by auto
qed

text \<open>C15: No callback port is stolen.  In every reachable state of the laptop's callback threads, a
  listener that still accepts under a lowered stop flag relays to the owner of the lease in
  the table for its port, so no other machine's lease can stand in that place; and the number
  of listeners the lease counts is the number of releases its threads still owe, so the
  lease leaves the table with its last listener.\<close>

theorem callback_owner_kept:
  assumes "reach cb_init cb_step s"
    and "Accepting fam p own f \<in> set (cs_tasks s)" and "f \<notin> cb_stopped (cs_state s)"
  shows "\<exists>l. map_of (cb_table (cs_state s)) p = Some l \<and> l_stop l = f \<and> l_owner l = own
      \<and> l_listeners l = total_of (due f) (cs_tasks s)"
proof -
  have i: "cb_inv s"
    by (rule callbacks.reach_inv [OF assms(1)])
  obtain l where l: "map_of (cb_table (cs_state s)) p = Some l" "l_stop l = f" "l_owner l = own"
    using accepting_owner [OF i assms(2,3)] by blast
  then have "l_listeners l = total_of (due f) (cs_tasks s)"
    using i counts_okD(3) unfolding cb_inv_def by blast
  then show ?thesis
    using l by blast
qed

text \<open>A devbox's callback on port 8400, from the request to the accepting listeners.\<close>

definition cb_demo_env :: serve_env where
  "cb_demo_env = \<lparr>se_now = 7, se_bind4_ok = True, se_ephemeral = 0, se_named = True, se_bind6 = Bind6Ok,
     se_spawn_ok = True, se_accept_fails = False\<rparr>"

definition cb_demo_owner :: socket_addr where
  "cb_demo_owner = (V4 0x64400002, 12801)"

definition cb_demo_state :: "bool \<Rightarrow> bool \<Rightarrow> cb_state" where
  "cb_demo_state bound listed =
     \<lparr>cb_table = (if listed then [(8400, \<lparr>l_owner = cb_demo_owner, l_deadline = 57, l_listeners = 2, l_stop = 0\<rparr>)] else []),
      cb_stopped = {}, cb_v4 = (if bound then [(8400, 0)] else []), cb_v6 = (if bound then [(8400, 0)] else []),
      cb_next = (if bound then 1 else 0)\<rparr>"

lemma single_task_step:
  "advance_task env t st = Some (ts, st') \<Longrightarrow> cb_step \<lparr>cs_state = st, cs_tasks = [t]\<rparr> \<lparr>cs_state = st', cs_tasks = ts\<rparr>"
  using task_step [of "\<lparr>cs_state = st, cs_tasks = [t]\<rparr>" "[]" t "[]" env ts st'] by simp

lemma cb_demo_serve:
  "serve_on demo_fconfig 8400 50 5 (cb_demo_state False False) = Some (BindV4 8400 cb_demo_owner 50, cb_demo_state False False)"
  by (simp add: serve_on_def lease_refresh_def demo_fconfig_peer demo_fconfig_ports Let_def cb_demo_state_def cb_demo_owner_def)

lemma cb_demo_bind4:
  "advance_task cb_demo_env (BindV4 8400 cb_demo_owner 50) (cb_demo_state False False)
   = Some ([BindV6 8400 cb_demo_owner 50 0], (cb_demo_state True False)\<lparr>cb_v6 := []\<rparr>)"
  by (simp add: cb_demo_state_def cb_demo_env_def Let_def)

lemma cb_demo_bind6:
  "advance_task cb_demo_env (BindV6 8400 cb_demo_owner 50 0) ((cb_demo_state True False)\<lparr>cb_v6 := []\<rparr>)
   = Some ([InsertLease 8400 cb_demo_owner 50 0 True], cb_demo_state True False)"
  by (simp add: cb_demo_state_def cb_demo_env_def)

lemma cb_demo_insert:
  "advance_task cb_demo_env (InsertLease 8400 cb_demo_owner 50 0 True) (cb_demo_state True False)
   = Some ([SpawnV4 8400 cb_demo_owner 0 True], cb_demo_state True True)"
  by (simp add: cb_demo_state_def cb_demo_env_def lease_insert_def instant_checked_add_def
      instant_limit_def nanos_per_sec_def)

lemma cb_demo_spawn:
  "advance_task cb_demo_env (SpawnV4 8400 cb_demo_owner 0 True) (cb_demo_state True True)
   = Some ([Accepting Inet4 8400 cb_demo_owner 0, SpawnV6 8400 cb_demo_owner 0], cb_demo_state True True)"
  by (simp add: cb_demo_env_def)

lemma cb_demo_reach:
  "reach cb_init cb_step \<lparr>cs_state = cb_demo_state True True,
     cs_tasks = [Accepting Inet4 8400 cb_demo_owner 0, SpawnV6 8400 cb_demo_owner 0]\<rparr>"
proof -
  let ?s0 = "\<lparr>cs_state = cb_demo_state False False, cs_tasks = []\<rparr>"
  have "reach cb_init cb_step ?s0"
    by (rule reach_init) (simp add: cb_init_def cb_demo_state_def)
  moreover have "cb_step ?s0 \<lparr>cs_state = cb_demo_state False False, cs_tasks = [BindV4 8400 cb_demo_owner 50]\<rparr>"
    using serve_step [of demo_fconfig 8400 50 5 ?s0] cb_demo_serve by simp
  ultimately show ?thesis
    using single_task_step [OF cb_demo_bind4] single_task_step [OF cb_demo_bind6]
      single_task_step [OF cb_demo_insert] single_task_step [OF cb_demo_spawn]
    by (meson reach_step)
qed

theorem callback_owner_kept_witness:
  "\<exists>l. map_of (cb_table (cb_demo_state True True)) 8400 = Some l \<and> l_stop l = 0 \<and> l_owner l = cb_demo_owner
     \<and> l_listeners l = total_of (due 0) [Accepting Inet4 8400 cb_demo_owner 0, SpawnV6 8400 cb_demo_owner 0]"
  using callback_owner_kept [OF cb_demo_reach, of Inet4 8400 cb_demo_owner 0]
  by (simp add: cb_demo_state_def)

end
