(* ===== verification/Spec2Isabelle.thy ===== *)
theory Spec2Isabelle
  imports Hex Wire Names Containment Store Grants Requests Receipts Decrypt Config BrokerRuns Connections HumanClient BridgeSafety Daemon BrowserSafety Authority LeaseSafety
begin

text \<open>
  A verification library for the \<open>forward\<close> repository: a secrets broker (\<open>secretsd\<close>) that releases
  hardware-gated secrets to sessions, and the \<open>forward\<close> daemon that carries browser, port and
  desktop requests between machines.

  \<^bold>\<open>Parts and theories.\<close>

  \<^item> \<open>Prelude\<close>: results, time as nanoseconds, saturating counters, ASCII classes, string splitting,
    decimal integers, UTF-8 and white space; no code of the program.
  \<^item> \<open>Interfaces\<close>: the contracts \<open>codec\<close>, \<open>canonical_codec\<close>, \<open>expiring_cache\<close>, \<open>invariant_system\<close>.
  \<^item> \<open>Hex\<close>: \<open>crates/hygiene/src/hex.rs\<close>.
  \<^item> \<open>Wire\<close>: the line protocol, both halves (\<open>crates/proto\<close>, \<open>crates/secrets/src/proto\<close>).
  \<^item> \<open>Names\<close>: secret and capability names, the plaintext of a key file.
  \<^item> \<open>Containment\<close>: process ancestry (\<open>crates/containment\<close>).
  \<^item> \<open>Store\<close>: the directory of key files.
  \<^item> \<open>Grants\<close>: session tokens, the registry of sessions, the table of cached grants.
\<close>

end
